(* ===== verification/Prelude.thy ===== *)
theory Prelude
  imports Main "HOL-Library.Word"
begin

text \<open>
  Shared vocabulary of the development: the fixed-width integer types of
  \<^verbatim>\<open>include/kernel/types.h\<close>, the encoding of C string literals, the collections of
  simplification rules that the component theories fill, and generic facts about lists and
  words that more than one component needs.
\<close>

unbundle bit_operations_syntax

section \<open>Machine integers of \<^verbatim>\<open>types.h\<close>\<close>

type_synonym u8 = "8 word"
type_synonym u16 = "16 word"
type_synonym u32 = "32 word"
type_synonym u64 = "64 word"

type_synonym bytes = "u8 list"

text \<open>
  A character constant and a string literal of the C source. A literal denotes an array
  that ends with the NUL byte.
\<close>

definition chr :: "char \<Rightarrow> u8" where
  "chr c = of_char c"

definition cstr :: "string \<Rightarrow> bytes" where
  "cstr s = map chr s @ [0]"

abbreviation nl :: string where "nl \<equiv> [CHR 0x0A]"

text \<open>Access to a C array by an index of type \<^verbatim>\<open>int\<close>; outside the array the behaviour is undefined.\<close>

definition arr_get :: "'a list \<Rightarrow> int \<Rightarrow> 'a option" where
  "arr_get xs i = (if 0 \<le> i \<and> nat i < length xs then Some (xs ! nat i) else None)"

definition arr_set :: "'a list \<Rightarrow> int \<Rightarrow> 'a \<Rightarrow> 'a list option" where
  "arr_set xs i v = (if 0 \<le> i \<and> nat i < length xs then Some (xs[nat i := v]) else None)"

section \<open>Rule collections\<close>

named_theorems kernel_frame \<open>which parts of the state an operation leaves alone\<close>
named_theorems kernel_inv \<open>operations preserve the invariant of their component\<close>

section \<open>Lists\<close>

lemma length_cstr [simp]: "length (cstr s) = Suc (length s)"
  by (simp add: cstr_def)

lemma take_Suc_update:
  "i < length xs \<Longrightarrow> take (Suc i) (xs[i := v]) = take i xs @ [v]"
  by (simp add: take_Suc_conv_app_nth)

lemma set_split_first:
  assumes "x \<in> set xs"
  obtains ys zs where "xs = ys @ x # zs" and "x \<notin> set ys"
  using assms by (meson split_list_first)

section \<open>Words\<close>

lemma unat_u32_bound [simp]: "unat (w :: u32) < 4294967296"
  using unsigned_less [of w] by simp

lemma unat_u8_bound [simp]: "unat (w :: u8) < 256"
  using unsigned_less [of w] by simp

lemma unat_u16_bound [simp]: "unat (w :: u16) < 65536"
  using unsigned_less [of w] by simp

lemma uint_pos_iff: "0 < uint (w :: 'a::len word) \<longleftrightarrow> uint w \<noteq> 0"
  using uint_ge_0 [of w] by linarith

lemma unat_of_nat_u32: "n < 4294967296 \<Longrightarrow> unat (of_nat n :: u32) = n"
  by (simp add: unat_of_nat)

lemma unat_plus_u32: "unat ((a :: u32) + b) = (unat a + unat b) mod 4294967296"
  by (simp add: unat_word_ariths)

lemma unat_plus_u32_small:
  "unat (a :: u32) + unat b < 4294967296 \<Longrightarrow> unat (a + b) = unat a + unat b"
  by (simp add: unat_plus_u32)

lemma unat_ucast_u16 [simp]: "unat (ucast (c :: u16) :: u32) = unat c"
  by (simp add: unsigned_ucast_eq take_bit_nat_eq_self less_le_trans [OF unat_u16_bound])

lemma unat_ucast_u8 [simp]: "unat (ucast (c :: u8) :: u32) = unat c"
  by (simp add: unsigned_ucast_eq take_bit_nat_eq_self less_le_trans [OF unat_u8_bound])

text \<open>A signed byte below 128 is extended with zeros.\<close>

lemma scast_small: "c < 128 \<Longrightarrow> (scast (c :: u8) :: 'a::len word) = ucast c"
proof (rule bit_word_eqI)
  fix n assume c: "c < 128"
  then have "take_bit 7 c = c" by (simp add: take_bit_eq_mod mod_word_less)
  then have b: "\<not> bit c m" if "7 \<le> m" for m using that by (metis bit_take_bit_iff not_less)
  assume "n < LENGTH('a)"
  then show "bit (scast c :: 'a word) n = bit (ucast c :: 'a word) n"
    using b [of n] b [of 7] by (cases "n < 7") (auto simp: bit_signed_iff bit_unsigned_iff min_def)
qed
text \<open>The two bytes of a 16-bit value.\<close>

lemma split_u16: "256 * uint (ucast (drop_bit 8 p) :: u8) + uint (ucast (p AND 0xFF) :: u8) = uint (p :: u16)"
proof -
  have m: "(0xFF :: u16) = mask 8" by (simp add: mask_eq_exp_minus_1)
  have "uint (ucast (p AND 0xFF) :: u8) = uint p mod 256"
    unfolding m by (simp add: unsigned_ucast_eq flip: take_bit_eq_mask) (simp add: take_bit_eq_mod uint_mod)
  moreover have "uint (ucast (drop_bit 8 p) :: u8) = uint p div 256"
  proof -
    have "uint p < 65536" "0 \<le> uint p" using uint_lt2p [of p] by simp_all
    then have "uint p div 256 < 256" "0 \<le> uint p div 256" by presburger+
    then show ?thesis by (simp add: unsigned_ucast_eq drop_bit_eq_div take_bit_eq_mod uint_div)
  qed
  ultimately show ?thesis by simp
qed
lemma uint_of_int_u16: "0 \<le> x \<Longrightarrow> x < 65536 \<Longrightarrow> uint (word_of_int x :: u16) = x"
  by (simp add: unsigned_of_int take_bit_int_eq_self)

text \<open>The top bit of a byte.\<close>

lemma digits4:
  assumes "n < (16 :: nat)"
  obtains q r where "n = 4 * q + r" "q \<in> {0, 1, 2, 3}" "r \<in> {0, 1, 2, 3}"
proof -
  have "n = 4 * (n div 4) + n mod 4" "n div 4 < 4" "n mod 4 < 4" using assms by auto
  moreover have "m \<in> {0, 1, 2, 3}" if "m < (4 :: nat)" for m using that by auto
  ultimately show thesis using that by blast
qed

lemma high_bit: "128 \<le> c \<longleftrightarrow> bit c 7" for c :: u8
proof
  assume b: "bit c 7"
  show "128 \<le> c"
  proof (rule ccontr)
    assume "\<not> 128 \<le> c"
    then have "take_bit 7 c = c" by (simp add: take_bit_eq_mod mod_word_less)
    with b show False by (metis bit_take_bit_iff less_irrefl)
  qed
next
  assume c: "128 \<le> c"
  show "bit c 7"
  proof (rule ccontr)
    assume "\<not> bit c 7"
    then have "take_bit 7 c = c"
      by (intro bit_word_eqI) (auto simp: bit_take_bit_iff less_Suc_eq numeral_eq_Suc)
    then have "c = c mod 128" by (simp add: take_bit_eq_mod)
    moreover have "c mod 128 < 128" by (rule word_mod_less_divisor) simp
    ultimately have "c < 128" by simp
    with c show False by simp
  qed
qed

end
