(* ===== verification/CString.thy ===== *)
theory CString
  imports Prelude
begin

text \<open>
  The freestanding C library of \<^verbatim>\<open>kernel/lib/string.c\<close>.

  A pointer into an array is the list of the bytes from the pointed-to element to the end
  of that array, so \<^verbatim>\<open>p++\<close> is the tail of the list. Reading or writing past the end of
  the array is undefined behaviour in C and is the result \<^term>\<open>None\<close> here; a routine that
  writes returns the array as it is afterwards. \<^verbatim>\<open>char\<close> is a signed byte on the target
  (gcc, i386), which matters for \<^verbatim>\<open>atoi\<close> only. \<^verbatim>\<open>int\<close> is 32 bits and wraps around.
\<close>

section \<open>Definitions\<close>

fun strcmp :: "bytes \<Rightarrow> bytes \<Rightarrow> int option" where
  "strcmp (a # as) (b # bs) =
     (if a \<noteq> 0 \<and> a = b then strcmp as bs else Some (uint a - uint b))"
| "strcmp _ _ = None"

text \<open>The loop of \<^verbatim>\<open>atoi\<close>, with the accumulator \<^verbatim>\<open>res\<close>.\<close>

fun atoi_loop :: "u32 \<Rightarrow> bytes \<Rightarrow> u32 option" where
  "atoi_loop res [] = None"
| "atoi_loop res (c # cs) =
     (if c = 0 then Some res else atoi_loop (res * 10 + scast c - scast (chr CHR ''0'')) cs)"

definition atoi :: "bytes \<Rightarrow> u32 option" where
  "atoi str = atoi_loop 0 str"

fun memset :: "bytes \<Rightarrow> u32 \<Rightarrow> nat \<Rightarrow> bytes option" where
  "memset p c 0 = Some p"
| "memset [] c (Suc n) = None"
| "memset (x # p) c (Suc n) = map_option (Cons (ucast c)) (memset p c n)"

fun memcmp :: "bytes \<Rightarrow> bytes \<Rightarrow> nat \<Rightarrow> int option" where
  "memcmp p1 p2 0 = Some 0"
| "memcmp (a # p1) (b # p2) (Suc n) =
     (if a \<noteq> b then Some (uint a - uint b) else memcmp p1 p2 n)"
| "memcmp _ _ (Suc n) = None"

definition toupper :: "int \<Rightarrow> int" where
  "toupper c =
     (if uint (chr CHR ''a'') \<le> c \<and> c \<le> uint (chr CHR ''z'')
      then c - uint (chr CHR ''a'') + uint (chr CHR ''A'') else c)"

fun strlen_loop :: "u32 \<Rightarrow> bytes \<Rightarrow> u32 option" where
  "strlen_loop len [] = None"
| "strlen_loop len (c # cs) = (if c \<noteq> 0 then strlen_loop (len + 1) cs else Some len)"

definition strlen :: "bytes \<Rightarrow> u32 option" where
  "strlen str = strlen_loop 0 str"

fun memcpy :: "bytes \<Rightarrow> bytes \<Rightarrow> nat \<Rightarrow> bytes option" where
  "memcpy d s 0 = Some d"
| "memcpy (x # d) (y # s) (Suc n) = map_option (Cons y) (memcpy d s n)"
| "memcpy _ _ (Suc n) = None"

text \<open>The second loop of \<^verbatim>\<open>strncpy\<close>: pad with NUL bytes.\<close>

fun strncpy_pad :: "bytes \<Rightarrow> nat \<Rightarrow> bytes option" where
  "strncpy_pad dest 0 = Some dest"
| "strncpy_pad [] (Suc n) = None"
| "strncpy_pad (x # dest) (Suc n) = map_option (Cons 0) (strncpy_pad dest n)"

fun strncpy :: "bytes \<Rightarrow> bytes \<Rightarrow> nat \<Rightarrow> bytes option" where
  "strncpy dest src 0 = Some dest"
| "strncpy dest [] (Suc n) = None"
| "strncpy dest (c # src) (Suc n) =
     (if c \<noteq> 0
      then (case dest of [] \<Rightarrow> None | x # dest' \<Rightarrow> map_option (Cons c) (strncpy dest' src n))
      else strncpy_pad dest (Suc n))"

section \<open>The text of a C string\<close>

text \<open>
  The abstract value of a character pointer: the bytes before the first NUL, where there
  is a NUL.
\<close>

definition text_of :: "bytes \<Rightarrow> bytes option" where
  "text_of p = (if 0 \<in> set p then Some (takeWhile (\<lambda>c. c \<noteq> 0) p) else None)"

lemma text_of_simps [simp]:
  "text_of [] = None"
  "text_of (c # cs) = (if c = 0 then Some [] else map_option (Cons c) (text_of cs))"
  by (auto simp: text_of_def)

lemma text_of_append_NUL [simp]: "0 \<notin> set s \<Longrightarrow> text_of (s @ 0 # t) = Some s"
  by (induction s) auto

lemma text_of_SomeE:
  assumes "text_of p = Some s"
  obtains t where "p = s @ 0 # t" and "0 \<notin> set s"
proof -
  from assms have "0 \<in> set p"
    by (auto simp: text_of_def split: if_splits)
  then obtain y z where p: "p = y @ 0 # z" and y: "0 \<notin> set y"
    using set_split_first by metis
  then have "text_of p = Some y" by simp
  with assms p y that show thesis by simp
qed

lemma text_of_length: "text_of p = Some s \<Longrightarrow> length s < length p"
  by (erule text_of_SomeE) simp

lemma text_of_nonzero: "text_of p = Some s \<Longrightarrow> 0 \<notin> set s"
  by (erule text_of_SomeE)

section \<open>Behaviour of the routines\<close>

lemma strlen_loop_text:
  "strlen_loop n p = map_option (\<lambda>s. n + of_nat (length s)) (text_of p)"
  by (induction n p rule: strlen_loop.induct)
    (auto simp: option.map_comp o_def algebra_simps)

lemma strlen_text: "strlen p = map_option (\<lambda>s. of_nat (length s)) (text_of p)"
  by (simp add: strlen_def strlen_loop_text)

lemma memset_eq:
  "memset p c n = (if n \<le> length p then Some (replicate n (ucast c) @ drop n p) else None)"
  by (induction p c n rule: memset.induct) auto

lemma memcpy_eq:
  "memcpy d s n =
     (if n \<le> length d \<and> n \<le> length s then Some (take n s @ drop n d) else None)"
  by (induction d s n rule: memcpy.induct) auto

lemma memcmp_zero:
  "n \<le> length p \<Longrightarrow> n \<le> length q \<Longrightarrow>
     \<exists>r. memcmp p q n = Some r \<and> (r = 0 \<longleftrightarrow> take n p = take n q)"
  by (induction p q n rule: memcmp.induct) (auto simp: word_uint_eq_iff)

lemma strncpy_pad_eq:
  "strncpy_pad d n = (if n \<le> length d then Some (replicate n 0 @ drop n d) else None)"
  by (induction d n rule: strncpy_pad.induct) auto

lemma strncpy_text:
  "text_of src = Some s \<Longrightarrow> n \<le> length dest \<Longrightarrow>
     strncpy dest src n = Some (take n s @ replicate (n - length s) 0 @ drop n dest)"
proof (induction dest src n arbitrary: s rule: strncpy.induct)
  case (3 dest c src n)
  then show ?case
    by (cases "c = 0"; cases dest) (auto simp: strncpy_pad_eq)
qed auto

lemma strncpy_length: "strncpy dest src n = Some d \<Longrightarrow> length d = length dest"
  by (induction dest src n arbitrary: d rule: strncpy.induct)
    (auto simp: strncpy_pad_eq split: if_splits list.splits)

text \<open>C33. \<^verbatim>\<open>strcmp\<close> (string.c) on two NUL-terminated strings returns zero exactly when
  the texts are equal, and a negative value exactly when the first text comes before the
  second one in the lexicographic order of unsigned bytes.\<close>

theorem strcmp_order:
  assumes "text_of p = Some s" and "text_of q = Some t"
  shows "\<exists>r. strcmp p q = Some r \<and> (r = 0 \<longleftrightarrow> s = t) \<and> (r < 0 \<longleftrightarrow> ord_class.lexordp s t)"
  using assms
proof (induction p q arbitrary: s t rule: strcmp.induct)
  case (1 a as b bs)
  then show ?case
    by (cases "a = 0"; cases "b = 0"; cases "a = b")
      (auto simp: word_uint_eq_iff word_less_def uint_pos_iff)
qed auto

theorem strcmp_order_witness:
  "\<exists>r. strcmp (cstr ''help'') (cstr ''kill'') = Some r \<and> (r = 0 \<longleftrightarrow> map chr ''help'' = map chr ''kill'')
     \<and> (r < 0 \<longleftrightarrow> ord_class.lexordp (map chr ''help'') (map chr ''kill''))"
  by (rule strcmp_order) (simp_all add: cstr_def chr_def)

end
