(* ===== verification/Pmm.thy ===== *)
theory Pmm
  imports Prelude "HOL-Library.Monad_Syntax"
begin

text \<open>
  The physical memory manager of \<^verbatim>\<open>kernel/mm/pmm.c\<close>: a bitmap with one bit per 4 KB
  frame, set when the frame is in use.

  \<^verbatim>\<open>pmm_bitmap\<close> points at the array that \<^verbatim>\<open>pmm_init\<close> lays out right behind the kernel
  image; the model keeps the array itself. The linker symbol \<^verbatim>\<open>kernel_end\<close> is a
  parameter. An access outside the array would touch foreign memory and is \<^term>\<open>None\<close>.
  Log lines on the debug console are left out here and in every other theory: they write
  to port 0xE9 and nothing reads them back.
\<close>

section \<open>State and operations\<close>

definition PMM_FRAME_SIZE :: u32 where
  "PMM_FRAME_SIZE = 4096"

record pmm_state =
  pmm_bitmap :: "u32 list"
  pmm_total_frames :: u32
  pmm_bitmap_size :: u32

definition pmm_set_bit :: "u32 \<Rightarrow> 'a pmm_state_scheme \<Rightarrow> 'a pmm_state_scheme option" where
  "pmm_set_bit frame_idx s =
     (let dword_idx = unat (frame_idx div 32); bit_idx = unat (frame_idx mod 32);
          bm = pmm_bitmap s
      in if dword_idx < length bm
         then Some (s\<lparr>pmm_bitmap := bm[dword_idx := bm ! dword_idx OR push_bit bit_idx 1]\<rparr>)
         else None)"

definition pmm_clear_bit :: "u32 \<Rightarrow> 'a pmm_state_scheme \<Rightarrow> 'a pmm_state_scheme option" where
  "pmm_clear_bit frame_idx s =
     (let dword_idx = unat (frame_idx div 32); bit_idx = unat (frame_idx mod 32);
          bm = pmm_bitmap s
      in if dword_idx < length bm
         then Some (s\<lparr>pmm_bitmap := bm[dword_idx := bm ! dword_idx AND NOT (push_bit bit_idx 1)]\<rparr>)
         else None)"

text \<open>The loop that marks the frames \<^verbatim>\<open>i, i + 1, ...\<close> (\<^verbatim>\<open>n\<close> of them) as used.\<close>

fun pmm_reserve :: "nat \<Rightarrow> u32 \<Rightarrow> 'a pmm_state_scheme \<Rightarrow> 'a pmm_state_scheme option" where
  "pmm_reserve 0 i s = Some s"
| "pmm_reserve (Suc n) i s = pmm_set_bit i s \<bind> pmm_reserve n (i + 1)"

definition pmm_bitmap_bytes :: "u32 \<Rightarrow> u32" where
  "pmm_bitmap_bytes total_frames =
     (let size = total_frames div 8
      in if size mod 4 \<noteq> 0 then (size div 4 + 1) * 4 else size)"

definition pmm_init :: "u32 \<Rightarrow> u32 \<Rightarrow> 'a pmm_state_scheme \<Rightarrow> 'a pmm_state_scheme option" where
  "pmm_init kernel_end mem_size_bytes s =
     (let total_frames = mem_size_bytes div PMM_FRAME_SIZE;
          bitmap_size = pmm_bitmap_bytes total_frames;
          reserved_area_end = kernel_end + bitmap_size;
          reserved_frames = (reserved_area_end + PMM_FRAME_SIZE - 1) div PMM_FRAME_SIZE
      in pmm_reserve (unat reserved_frames) 0
           (s\<lparr>pmm_total_frames := total_frames, pmm_bitmap_size := bitmap_size,
              pmm_bitmap := replicate (unat (bitmap_size div 4)) 0\<rparr>))"

text \<open>The inner loop of the scan: the first clear bit of a dword from \<^verbatim>\<open>bit\<close> on.\<close>

function pmm_scan_bits :: "u32 \<Rightarrow> nat \<Rightarrow> nat option" where
  "pmm_scan_bits w b =
     (if b < 32 then if w AND push_bit b 1 = 0 then Some b else pmm_scan_bits w (Suc b)
      else None)"
  by pat_completeness auto
termination
  by (relation "measure (\<lambda>(w, b). 32 - b)") auto

text \<open>The outer loop over the dwords \<^verbatim>\<open>d\<close> up to \<^verbatim>\<open>n = pmm_bitmap_size / 4\<close>.\<close>

function pmm_scan :: "u32 list \<Rightarrow> nat \<Rightarrow> nat \<Rightarrow> (nat \<times> nat) option" where
  "pmm_scan bm n d =
     (if d < n
      then if bm ! d \<noteq> 0xFFFFFFFF
           then (case pmm_scan_bits (bm ! d) 0 of
                   Some b \<Rightarrow> Some (d, b) | None \<Rightarrow> pmm_scan bm n (Suc d))
           else pmm_scan bm n (Suc d)
      else None)"
  by pat_completeness auto
termination
  by (relation "measure (\<lambda>(bm, n, d). n - d)") auto

definition pmm_alloc_frame :: "'a pmm_state_scheme \<Rightarrow> (u32 \<times> 'a pmm_state_scheme) option" where
  "pmm_alloc_frame s =
     (let n = unat (pmm_bitmap_size s div 4)
      in if length (pmm_bitmap s) < n then None
         else case pmm_scan (pmm_bitmap s) n 0 of
           None \<Rightarrow> Some (0, s)
         | Some (dword, b) \<Rightarrow>
             let frame_idx = of_nat dword * 32 + of_nat b
             in pmm_set_bit frame_idx s \<bind> (\<lambda>s'. Some (frame_idx * PMM_FRAME_SIZE, s')))"

definition pmm_free_frame :: "u32 \<Rightarrow> 'a pmm_state_scheme \<Rightarrow> 'a pmm_state_scheme option" where
  "pmm_free_frame addr s = pmm_clear_bit (addr div PMM_FRAME_SIZE) s"

definition pmm_get_free_addr :: "u32 \<Rightarrow> 'a pmm_state_scheme \<Rightarrow> u32" where
  "pmm_get_free_addr kernel_end s = kernel_end + pmm_bitmap_size s"

text \<open>The counting loops of \<^verbatim>\<open>pmm_get_free_frame_count\<close>.\<close>

function pmm_count_bits :: "u32 \<Rightarrow> nat \<Rightarrow> u32 \<Rightarrow> u32" where
  "pmm_count_bits w b free_count =
     (if b < 32
      then pmm_count_bits w (Suc b)
             (if w AND push_bit b 1 = 0 then free_count + 1 else free_count)
      else free_count)"
  by pat_completeness auto
termination
  by (relation "measure (\<lambda>(w, b, c). 32 - b)") auto

function pmm_count :: "u32 list \<Rightarrow> nat \<Rightarrow> nat \<Rightarrow> u32 \<Rightarrow> u32" where
  "pmm_count bm n d free_count =
     (if d < n
      then pmm_count bm n (Suc d)
             (if bm ! d \<noteq> 0xFFFFFFFF then pmm_count_bits (bm ! d) 0 free_count else free_count)
      else free_count)"
  by pat_completeness auto
termination
  by (relation "measure (\<lambda>(bm, n, d, c). n - d)") auto

definition pmm_get_free_frame_count :: "'a pmm_state_scheme \<Rightarrow> u32" where
  "pmm_get_free_frame_count s =
     pmm_count (pmm_bitmap s) (unat (pmm_bitmap_size s div 4)) 0 0"

declare pmm_scan_bits.simps [simp del] pmm_scan.simps [simp del]
  pmm_count_bits.simps [simp del] pmm_count.simps [simp del]

section \<open>Abstract view: the set of free frames\<close>

definition frame_used :: "u32 list \<Rightarrow> nat \<Rightarrow> bool" where
  "frame_used bm i = bit (bm ! (i div 32)) (i mod 32)"

definition managed_frames :: "'a pmm_state_scheme \<Rightarrow> nat set" where
  "managed_frames s = {0..<32 * length (pmm_bitmap s)}"

definition free_frames :: "'a pmm_state_scheme \<Rightarrow> nat set" where
  "free_frames s = {i \<in> managed_frames s. \<not> frame_used (pmm_bitmap s) i}"

text \<open>
  The invariant: the array has the length that the size field promises, the frames are
  frames of the 32-bit physical address space, and frame 0 is in use (its address is the
  null pointer).
\<close>

definition pmm_inv :: "'a pmm_state_scheme \<Rightarrow> bool" where
  "pmm_inv s \<longleftrightarrow>
     length (pmm_bitmap s) = unat (pmm_bitmap_size s div 4) \<and>
     length (pmm_bitmap s) \<le> 32768 \<and> 0 \<notin> free_frames s"

definition frame_addr :: "nat \<Rightarrow> u32" where
  "frame_addr i = of_nat i * PMM_FRAME_SIZE"


section \<open>Bits and scans\<close>

lemma test_bit_zero_iff: "(w :: u32) AND 2 ^ b = 0 \<longleftrightarrow> \<not> bit w b"
  by (simp add: bit_iff_and_push_bit_not_eq_0)

lemma bit_all_ones: "b < 32 \<Longrightarrow> bit (0xFFFFFFFF :: u32) b"
proof -
  assume "b < 32"
  moreover have "(0xFFFFFFFF :: u32) = - 1" by simp
  ultimately show ?thesis by (simp only: bit_minus_1_iff possible_bit_word) simp
qed

lemma pmm_scan_bits_cases:
  "case pmm_scan_bits w b of
     None \<Rightarrow> \<forall>j. b \<le> j \<and> j < 32 \<longrightarrow> bit w j
   | Some c \<Rightarrow> b \<le> c \<and> c < 32 \<and> \<not> bit w c \<and> (\<forall>j. b \<le> j \<and> j < c \<longrightarrow> bit w j)"
proof (induction w b rule: pmm_scan_bits.induct)
  case (1 w b)
  show ?case
  proof (cases "b < 32 \<and> bit w b")
    case True
    with 1 have IH: "case pmm_scan_bits w (Suc b) of
       None \<Rightarrow> \<forall>j. Suc b \<le> j \<and> j < 32 \<longrightarrow> bit w j
     | Some c \<Rightarrow> Suc b \<le> c \<and> c < 32 \<and> \<not> bit w c \<and> (\<forall>j. Suc b \<le> j \<and> j < c \<longrightarrow> bit w j)"
      by (simp add: test_bit_zero_iff)
    have "pmm_scan_bits w b = pmm_scan_bits w (Suc b)"
      using True by (simp add: pmm_scan_bits.simps [of w b] test_bit_zero_iff)
    then show ?thesis
      using IH True by (auto split: option.splits) (metis le_antisym not_less_eq_eq)+
  next
    case False
    then show ?thesis
      by (auto simp: pmm_scan_bits.simps [of w b] test_bit_zero_iff)
  qed
qed

lemma frame_used_dword: "b < 32 \<Longrightarrow> frame_used bm (32 * d + b) = bit (bm ! d) b"
  by (simp add: frame_used_def)

lemma pmm_scan_cases:
  "case pmm_scan bm n d of
     None \<Rightarrow> \<forall>i. 32 * d \<le> i \<and> i < 32 * n \<longrightarrow> frame_used bm i
   | Some (d', b) \<Rightarrow> d' < n \<and> b < 32 \<and> \<not> frame_used bm (32 * d' + b) \<and>
       (\<forall>i. 32 * d \<le> i \<and> i < 32 * d' + b \<longrightarrow> frame_used bm i)"
proof (induction bm n d rule: pmm_scan.induct)
  case (1 bm n d)
  show ?case
  proof (cases "d < n")
    case False
    then show ?thesis by (auto simp: pmm_scan.simps [of bm n d])
  next
    case d: True
    show ?thesis
    proof (cases "pmm_scan_bits (bm ! d) 0")
      case (Some b)
      with pmm_scan_bits_cases [of 0 "bm ! d"]
      have b: "b < 32" "\<not> bit (bm ! d) b" "\<And>j. j < b \<Longrightarrow> bit (bm ! d) j" by auto
      then have ne: "bm ! d \<noteq> 0xFFFFFFFF" using bit_all_ones by metis
      have "frame_used bm i" if "32 * d \<le> i" "i < 32 * d + b" for i
        using b(1) b(3) [of "i - 32 * d"] frame_used_dword [of "i - 32 * d" bm d] that by auto
      with d Some ne b show ?thesis
        by (simp add: pmm_scan.simps [of bm n d] frame_used_dword)
    next
      case None
      with pmm_scan_bits_cases [of 0 "bm ! d"]
      have full: "\<And>j. j < 32 \<Longrightarrow> bit (bm ! d) j" by auto
      have used: "frame_used bm i" if "32 * d \<le> i" "i < 32 + 32 * d" for i
        using full [of "i - 32 * d"] frame_used_dword [of "i - 32 * d" bm d] that by auto
      have eq: "pmm_scan bm n d = pmm_scan bm n (Suc d)"
        using d None by (simp add: pmm_scan.simps [of bm n d])
      have "case pmm_scan bm n (Suc d) of
         None \<Rightarrow> \<forall>i. 32 * Suc d \<le> i \<and> i < 32 * n \<longrightarrow> frame_used bm i
       | Some (d', b) \<Rightarrow> d' < n \<and> b < 32 \<and> \<not> frame_used bm (32 * d' + b) \<and>
           (\<forall>i. 32 * Suc d \<le> i \<and> i < 32 * d' + b \<longrightarrow> frame_used bm i)"
        using 1 d None by (cases "bm ! d = 0xFFFFFFFF") auto
      then show ?thesis
        unfolding eq by (auto split: option.splits) (metis not_le used)+
    qed
  qed
qed

section \<open>Operations on the abstract view\<close>

lemma unat_frame_split:
  "unat ((i :: u32) div 32) = unat i div 32" "unat ((i :: u32) mod 32) = unat i mod 32"
  by (simp_all add: unat_div unat_mod)

lemma frame_used_set:
  assumes "i div 32 < length bm"
  shows "frame_used (bm[i div 32 := bm ! (i div 32) OR push_bit (i mod 32) 1]) j
           \<longleftrightarrow> frame_used bm j \<or> j = i"
proof -
  have "j = i \<longleftrightarrow> j div 32 = i div 32 \<and> j mod 32 = i mod 32"
    by (metis div_mult_mod_eq)
  then show ?thesis
    using assms
    by (auto simp: frame_used_def nth_list_update bit_or_iff bit_exp_iff)
qed

lemma frame_used_clear:
  assumes "i div 32 < length bm"
  shows "frame_used (bm[i div 32 := bm ! (i div 32) AND NOT (push_bit (i mod 32) 1)]) j
           \<longleftrightarrow> frame_used bm j \<and> j \<noteq> i"
proof -
  have "j = i \<longleftrightarrow> j div 32 = i div 32 \<and> j mod 32 = i mod 32"
    by (metis div_mult_mod_eq)
  then show ?thesis
    using assms
    by (auto simp: frame_used_def nth_list_update bit_and_iff bit_not_iff bit_exp_iff)
qed

lemma finite_free_frames [simp]: "finite (free_frames s)"
  by (simp add: free_frames_def managed_frames_def)

lemma free_frames_managed: "free_frames s \<subseteq> managed_frames s"
  by (auto simp: free_frames_def)

lemma frame_div_less: "i < 32 * n \<longleftrightarrow> i div 32 < (n :: nat)"
  by (simp add: less_mult_imp_div_less div_less_iff_less_mult mult.commute)

text \<open>Setting and clearing a bit change the bitmap and nothing else.\<close>

lemma pmm_set_bit_spec:
  assumes "unat i \<in> managed_frames s"
  obtains bm where "pmm_set_bit i s = Some (s\<lparr>pmm_bitmap := bm\<rparr>)"
    and "length bm = length (pmm_bitmap s)"
    and "free_frames (s\<lparr>pmm_bitmap := bm\<rparr>) = free_frames s - {unat i}"
proof -
  let ?bm = "pmm_bitmap s"
  let ?d = "unat i div 32"
  have d: "?d < length ?bm"
    using assms by (simp add: managed_frames_def frame_div_less)
  show thesis
    by (rule that [of "?bm[?d := ?bm ! ?d OR push_bit (unat i mod 32) 1]"])
      (use d in \<open>auto simp: pmm_set_bit_def unat_frame_split Let_def free_frames_def
         managed_frames_def frame_used_set simp del: push_bit_of_1\<close>)
qed

lemma pmm_clear_bit_spec:
  assumes "unat i \<in> managed_frames s"
  obtains bm where "pmm_clear_bit i s = Some (s\<lparr>pmm_bitmap := bm\<rparr>)"
    and "length bm = length (pmm_bitmap s)"
    and "free_frames (s\<lparr>pmm_bitmap := bm\<rparr>) = insert (unat i) (free_frames s)"
proof -
  let ?bm = "pmm_bitmap s"
  let ?d = "unat i div 32"
  have d: "?d < length ?bm"
    using assms by (simp add: managed_frames_def frame_div_less)
  show thesis
    by (rule that [of "?bm[?d := ?bm ! ?d AND NOT (push_bit (unat i mod 32) 1)]"])
      (use d assms in \<open>auto simp: pmm_clear_bit_def unat_frame_split Let_def free_frames_def
         managed_frames_def frame_used_clear simp del: push_bit_of_1\<close>)
qed

lemma managed_frames_update [simp]:
  "length bm = length (pmm_bitmap s) \<Longrightarrow> managed_frames (s\<lparr>pmm_bitmap := bm\<rparr>) = managed_frames s"
  by (simp add: managed_frames_def)

lemma pmm_inv_update:
  "pmm_inv s \<Longrightarrow> length bm = length (pmm_bitmap s) \<Longrightarrow>
     0 \<notin> free_frames (s\<lparr>pmm_bitmap := bm\<rparr>) \<Longrightarrow> pmm_inv (s\<lparr>pmm_bitmap := bm\<rparr>)"
  by (simp add: pmm_inv_def)

section \<open>Frame numbers and addresses\<close>

lemma managed_bound: "pmm_inv s \<Longrightarrow> i \<in> managed_frames s \<Longrightarrow> i < 1048576"
  by (auto simp: pmm_inv_def managed_frames_def)

lemma unat_frame_addr: "i < 1048576 \<Longrightarrow> unat (frame_addr i) = i * 4096"
  by (simp add: frame_addr_def PMM_FRAME_SIZE_def unat_word_ariths unat_of_nat)

lemma frame_addr_div: "i < 1048576 \<Longrightarrow> unat (frame_addr i div PMM_FRAME_SIZE) = i"
  by (simp add: unat_div unat_frame_addr PMM_FRAME_SIZE_def)

lemma frame_addr_inj:
  "i < 1048576 \<Longrightarrow> j < 1048576 \<Longrightarrow> frame_addr i = frame_addr j \<longleftrightarrow> i = j"
  by (metis frame_addr_div)

lemma frame_addr_eq_0: "i < 1048576 \<Longrightarrow> frame_addr i = 0 \<longleftrightarrow> i = 0"
  using frame_addr_inj [of i 0] by (simp add: frame_addr_def)

section \<open>The contract of a frame allocator\<close>

text \<open>
  What the rest of the kernel relies on: an allocation takes the lowest free frame or
  returns the null pointer when there is none, and freeing a managed frame makes it
  available again. \<open>avail\<close> is the abstraction of the allocator's state, \<open>managed\<close> the
  frames it is responsible for.
\<close>

locale frame_allocator =
  fixes alloc :: "'s \<Rightarrow> (u32 \<times> 's) option"
    and free :: "u32 \<Rightarrow> 's \<Rightarrow> 's option"
    and avail :: "'s \<Rightarrow> nat set"
    and managed :: "'s \<Rightarrow> nat set"
    and invar :: "'s \<Rightarrow> bool"
  assumes alloc_none: "invar s \<Longrightarrow> avail s = {} \<Longrightarrow> alloc s = Some (0, s)"
    and alloc_some: "invar s \<Longrightarrow> avail s \<noteq> {} \<Longrightarrow>
       \<exists>s'. alloc s = Some (frame_addr (Min (avail s)), s') \<and>
            avail s' = avail s - {Min (avail s)} \<and> managed s' = managed s \<and> invar s'"
    and free_some: "invar s \<Longrightarrow> i \<in> managed s \<Longrightarrow> i \<noteq> 0 \<Longrightarrow>
       \<exists>s'. free (frame_addr i) s = Some s' \<and> avail s' = insert i (avail s) \<and>
            managed s' = managed s \<and> invar s'"
    and avail_managed: "invar s \<Longrightarrow> avail s \<subseteq> managed s"
    and managed_range: "invar s \<Longrightarrow> managed s \<subseteq> {0..<1048576}"
    and avail_nonzero: "invar s \<Longrightarrow> 0 \<notin> avail s"
begin

lemma finite_avail: "invar s \<Longrightarrow> finite (avail s)"
  by (meson avail_managed finite_atLeastLessThan finite_subset managed_range)

lemma Min_avail: "invar s \<Longrightarrow> avail s \<noteq> {} \<Longrightarrow> Min (avail s) \<in> avail s"
  by (simp add: finite_avail)

lemma avail_bound: "invar s \<Longrightarrow> i \<in> avail s \<Longrightarrow> i < 1048576"
  using avail_managed managed_range by fastforce

lemma alloc_null_iff:
  assumes "invar s"
  shows "(\<exists>s'. alloc s = Some (0, s')) \<longleftrightarrow> avail s = {}"
proof (cases "avail s = {}")
  case True
  with assms show ?thesis by (auto simp: alloc_none)
next
  case False
  with assms have "frame_addr (Min (avail s)) \<noteq> 0"
    by (metis Min_avail avail_bound avail_nonzero frame_addr_eq_0)
  with assms False show ?thesis by (auto dest: alloc_some)
qed

lemma alloc_then_free:
  assumes "invar s" and "alloc s = Some (p, s')" and "p \<noteq> 0"
  shows "\<exists>s''. free p s' = Some s'' \<and> avail s'' = avail s \<and> invar s''"
proof -
  have ne: "avail s \<noteq> {}" using assms alloc_none by fastforce
  let ?m = "Min (avail s)"
  from alloc_some [OF assms(1) ne] assms(2)
  have p: "p = frame_addr ?m" and s': "avail s' = avail s - {?m}" "managed s' = managed s" "invar s'"
    by auto
  have m: "?m \<in> avail s" "?m \<in> managed s'" "?m \<noteq> 0"
    using assms(1) ne s' Min_avail avail_managed avail_nonzero by fastforce+
  from free_some [OF s'(3) m(2,3)] show ?thesis
    using m(1) s'(1) unfolding p by (auto simp: insert_absorb)
qed

end

text \<open>Any number of allocations in a row, collecting the addresses.\<close>

primrec alloc_many :: "('s \<Rightarrow> (u32 \<times> 's) option) \<Rightarrow> nat \<Rightarrow> 's \<Rightarrow> (u32 list \<times> 's) option" where
  "alloc_many f 0 s = Some ([], s)"
| "alloc_many f (Suc n) s =
     (case f s of
        None \<Rightarrow> None
      | Some (p, s') \<Rightarrow>
          (case alloc_many f n s' of None \<Rightarrow> None | Some (ps, s'') \<Rightarrow> Some (p # ps, s'')))"

context frame_allocator
begin

lemma alloc_many_spec:
  "invar s \<Longrightarrow> n \<le> card (avail s) \<Longrightarrow>
     \<exists>fs s'. alloc_many alloc n s = Some (map frame_addr fs, s') \<and> length fs = n \<and>
       distinct fs \<and> set fs \<subseteq> avail s \<and> avail s' = avail s - set fs \<and> invar s'"
proof (induction n arbitrary: s)
  case 0
  then show ?case by (intro exI [of _ "[]"]) auto
next
  case (Suc n)
  let ?m = "Min (avail s)"
  have ne: "avail s \<noteq> {}" using Suc.prems by auto
  obtain s1 where s1: "alloc s = Some (frame_addr ?m, s1)" "avail s1 = avail s - {?m}" "invar s1"
    using alloc_some [OF Suc.prems(1) ne] by blast
  have "n \<le> card (avail s1)"
    using s1(2) Suc.prems Min_avail [OF Suc.prems(1) ne] by simp
  from Suc.IH [OF s1(3) this] obtain fs s2 where
    2: "alloc_many alloc n s1 = Some (map frame_addr fs, s2)" "length fs = n" "distinct fs"
       "set fs \<subseteq> avail s1" "avail s2 = avail s1 - set fs" "invar s2"
    by blast
  show ?case
    by (intro exI [of _ "?m # fs"] exI [of _ s2])
      (use 2 s1 Min_avail [OF Suc.prems(1) ne] in auto)
qed

end

section \<open>The bitmap allocator satisfies the contract\<close>

lemma pmm_alloc_frame_least:
  assumes inv: "pmm_inv s" and ne: "free_frames s \<noteq> {}"
  obtains bm where
    "pmm_alloc_frame s = Some (frame_addr (Min (free_frames s)), s\<lparr>pmm_bitmap := bm\<rparr>)"
    and "length bm = length (pmm_bitmap s)"
    and "free_frames (s\<lparr>pmm_bitmap := bm\<rparr>) = free_frames s - {Min (free_frames s)}"
proof -
  let ?n = "unat (pmm_bitmap_size s div 4)"
  have len: "length (pmm_bitmap s) = ?n" using inv by (simp add: pmm_inv_def)
  from ne obtain i where i: "i < 32 * ?n" "\<not> frame_used (pmm_bitmap s) i"
    by (auto simp: free_frames_def managed_frames_def len)
  then obtain d b where scan: "pmm_scan (pmm_bitmap s) ?n 0 = Some (d, b)"
    using pmm_scan_cases [where bm = "pmm_bitmap s" and n = ?n and d = 0] by (fastforce split: option.splits)
  with pmm_scan_cases [where bm = "pmm_bitmap s" and n = ?n and d = 0]
  have db: "d < ?n" "b < 32" "\<not> frame_used (pmm_bitmap s) (32 * d + b)"
    "\<And>j. j < 32 * d + b \<Longrightarrow> frame_used (pmm_bitmap s) j" by auto
  let ?m = "32 * d + b"
  have m: "?m \<in> free_frames s" using db by (simp add: free_frames_def managed_frames_def len)
  have Min: "Min (free_frames s) = ?m"
    using m db(4) by (intro Min_eqI finite_free_frames) (auto simp: free_frames_def not_less [symmetric])
  have bound: "?m < 1048576" using managed_bound [OF inv] m free_frames_managed by blast
  have idx: "of_nat d * 32 + of_nat b = (of_nat ?m :: u32)" by (simp add: mult.commute)
  have un: "unat (of_nat ?m :: u32) = ?m" using bound by (intro unat_of_nat_u32) simp
  have "unat (of_nat ?m :: u32) \<in> managed_frames s" using m un free_frames_managed by auto
  from pmm_set_bit_spec [OF this] obtain bm where
    bm: "pmm_set_bit (of_nat ?m) s = Some (s\<lparr>pmm_bitmap := bm\<rparr>)"
      "length bm = length (pmm_bitmap s)"
      "free_frames (s\<lparr>pmm_bitmap := bm\<rparr>) = free_frames s - {?m}"
    unfolding un by blast
  show thesis
    by (rule that [of bm])
      (use bm scan len in \<open>simp_all only: pmm_alloc_frame_def Let_def Min idx frame_addr_def
          option.case prod.case bind.bind_lunit order.irrefl if_False\<close>)
qed

lemma pmm_alloc_frame_full:
  assumes inv: "pmm_inv s" and ne: "free_frames s = {}"
  shows "pmm_alloc_frame s = Some (0, s)"
proof -
  let ?n = "unat (pmm_bitmap_size s div 4)"
  have len: "length (pmm_bitmap s) = ?n" using inv by (simp add: pmm_inv_def)
  have "pmm_scan (pmm_bitmap s) ?n 0 = None"
  proof (cases "pmm_scan (pmm_bitmap s) ?n 0")
    case (Some x)
    obtain d b where x: "x = (d, b)" by fastforce
    with Some pmm_scan_cases [where bm = "pmm_bitmap s" and n = ?n and d = 0]
    have "32 * d + b \<in> free_frames s"
      by (auto simp: free_frames_def managed_frames_def len)
    with ne show ?thesis by simp
  qed
  with len show ?thesis by (simp add: pmm_alloc_frame_def)
qed

lemma pmm_free_frame_spec:
  assumes "pmm_inv s" and "i \<in> managed_frames s"
  obtains bm where "pmm_free_frame (frame_addr i) s = Some (s\<lparr>pmm_bitmap := bm\<rparr>)"
    and "length bm = length (pmm_bitmap s)"
    and "free_frames (s\<lparr>pmm_bitmap := bm\<rparr>) = insert i (free_frames s)"
proof -
  have u: "unat (frame_addr i div PMM_FRAME_SIZE) = i"
    using assms by (simp add: frame_addr_div managed_bound)
  with assms(2) have "unat (frame_addr i div PMM_FRAME_SIZE) \<in> managed_frames s" by simp
  from pmm_clear_bit_spec [OF this] u that show thesis
    by (metis pmm_free_frame_def)
qed

interpretation pmm: frame_allocator pmm_alloc_frame pmm_free_frame free_frames managed_frames pmm_inv
proof (unfold_locales, goal_cases)
  case (1 s)
  then show ?case by (rule pmm_alloc_frame_full)
next
  case (2 s)
  then obtain bm where bm:
    "pmm_alloc_frame s = Some (frame_addr (Min (free_frames s)), s\<lparr>pmm_bitmap := bm\<rparr>)"
    "length bm = length (pmm_bitmap s)"
    "free_frames (s\<lparr>pmm_bitmap := bm\<rparr>) = free_frames s - {Min (free_frames s)}"
    by (rule pmm_alloc_frame_least)
  with 2 have "pmm_inv (s\<lparr>pmm_bitmap := bm\<rparr>)"
    by (intro pmm_inv_update) (auto simp: pmm_inv_def)
  with bm show ?case by simp
next
  case (3 s i)
  from 3(1,2) obtain bm where bm: "pmm_free_frame (frame_addr i) s = Some (s\<lparr>pmm_bitmap := bm\<rparr>)"
    "length bm = length (pmm_bitmap s)"
    "free_frames (s\<lparr>pmm_bitmap := bm\<rparr>) = insert i (free_frames s)"
    by (rule pmm_free_frame_spec)
  with 3 have "pmm_inv (s\<lparr>pmm_bitmap := bm\<rparr>)"
    by (intro pmm_inv_update) (auto simp: pmm_inv_def)
  with bm show ?case by simp
next
  case (4 s)
  show ?case by (rule free_frames_managed)
next
  case (5 s)
  then show ?case by (auto dest: managed_bound)
next
  case (6 s)
  then show ?case by (simp add: pmm_inv_def)
qed

section \<open>Initialisation\<close>

lemma pmm_reserve_spec:
  "unat i + n \<le> 32 * length (pmm_bitmap s) \<Longrightarrow> 32 * length (pmm_bitmap s) < 4294967296 \<Longrightarrow>
     \<exists>bm. pmm_reserve n i s = Some (s\<lparr>pmm_bitmap := bm\<rparr>) \<and>
       length bm = length (pmm_bitmap s) \<and>
       free_frames (s\<lparr>pmm_bitmap := bm\<rparr>) = free_frames s - {unat i..<unat i + n}"
proof (induction n arbitrary: i s)
  case 0
  then show ?case by (intro exI [of _ "pmm_bitmap s"]) simp
next
  case (Suc n)
  then have "unat i \<in> managed_frames s" by (simp add: managed_frames_def)
  then obtain bm where bm: "pmm_set_bit i s = Some (s\<lparr>pmm_bitmap := bm\<rparr>)"
      "length bm = length (pmm_bitmap s)"
      "free_frames (s\<lparr>pmm_bitmap := bm\<rparr>) = free_frames s - {unat i}"
    by (rule pmm_set_bit_spec)
  have i1: "unat (i + 1) = Suc (unat i)"
    using Suc.prems by (simp add: unat_plus_u32)
  let ?s = "s\<lparr>pmm_bitmap := bm\<rparr>"
  have "unat (i + 1) + n \<le> 32 * length (pmm_bitmap ?s)"
       "32 * length (pmm_bitmap ?s) < 4294967296"
    using Suc.prems bm i1 by simp_all
  from Suc.IH [OF this] obtain bm' where
    bm': "pmm_reserve n (i + 1) ?s = Some (?s\<lparr>pmm_bitmap := bm'\<rparr>)"
      "length bm' = length (pmm_bitmap ?s)"
      "free_frames (?s\<lparr>pmm_bitmap := bm'\<rparr>) = free_frames ?s - {unat (i + 1)..<unat (i + 1) + n}"
    by blast
  have "free_frames (s\<lparr>pmm_bitmap := bm'\<rparr>) = free_frames s - {unat i..<unat i + Suc n}"
  proof -
    have "{unat i..<unat i + Suc n} = insert (unat i) {unat (i + 1)..<unat (i + 1) + n}"
      using i1 by auto
    then show ?thesis using bm'(3) bm(3) by auto
  qed
  moreover have "pmm_reserve (Suc n) i s = Some (s\<lparr>pmm_bitmap := bm'\<rparr>)"
    using bm(1) bm'(1) by simp
  ultimately show ?case using bm(2) bm'(2) by auto
qed

lemma free_frames_replicate_0 [simp]:
  "free_frames (s\<lparr>pmm_bitmap := replicate n 0\<rparr>) = {0..<32 * n}"
  by (auto simp: free_frames_def managed_frames_def frame_used_def frame_div_less)

lemma pmm_init_run:
  fixes kernel_end mem :: u32
  assumes "unat mem mod 131072 = 0" and "0 < kernel_end"
    and "unat kernel_end + unat mem div 32768 \<le> unat mem"
  shows "\<exists>bm sz tot s'. pmm_init kernel_end mem s = Some s' \<and>
     s' = s\<lparr>pmm_total_frames := tot, pmm_bitmap_size := sz, pmm_bitmap := bm\<rparr> \<and> pmm_inv s' \<and>
     managed_frames s' = {0..<unat mem div 4096} \<and>
     free_frames s' =
       {(unat kernel_end + unat mem div 32768 + 4095) div 4096..<unat mem div 4096}"
proof -
  let ?total = "mem div PMM_FRAME_SIZE"
  let ?size = "pmm_bitmap_bytes ?total"
  let ?res = "(kernel_end + ?size + PMM_FRAME_SIZE - 1) div PMM_FRAME_SIZE"
  obtain k where k: "unat mem = 131072 * k" using assms(1) by auto
  have k_bound: "k < 32768" using k unat_u32_bound [of mem] by simp
  have total: "unat ?total = 32 * k"
    using k by (simp add: unat_div PMM_FRAME_SIZE_def)
  have "unat (?total div 8) = 4 * k" using total by (simp add: unat_div)
  moreover have "(?total div 8) mod 4 = 0"
    using calculation by (simp add: unat_eq_zero [symmetric] unat_mod)
  ultimately have size: "?size = ?total div 8" "unat ?size = 4 * k"
    by (simp_all add: pmm_bitmap_bytes_def Let_def)
  have words: "unat (?size div 4) = k" using size(2) by (simp add: unat_div)
  have ke: "unat kernel_end > 0" using assms(2) by (simp add: word_less_nat_alt)
  have fits: "unat kernel_end + 4 * k \<le> 131072 * k" using assms(3) k by simp
  have sum: "unat (kernel_end + ?size + PMM_FRAME_SIZE - 1) = unat kernel_end + 4 * k + 4095"
  proof -
    have eq: "kernel_end + ?size + PMM_FRAME_SIZE - 1 = kernel_end + ?size + 4095"
      by (simp add: PMM_FRAME_SIZE_def)
    have "131072 * k + 4095 < 4294967296" using k_bound by simp
    then show ?thesis unfolding eq using size(2) fits by (simp add: unat_plus_u32)
  qed
  then have res: "unat ?res = (unat kernel_end + 4 * k + 4095) div 4096"
    by (simp add: unat_div PMM_FRAME_SIZE_def)
  let ?s = "s\<lparr>pmm_total_frames := ?total, pmm_bitmap_size := ?size,
              pmm_bitmap := replicate k (0 :: u32)\<rparr>"
  have "unat (0 :: u32) + unat ?res \<le> 32 * length (pmm_bitmap ?s)"
    "32 * length (pmm_bitmap ?s) < 4294967296"
    using res fits k_bound by auto
  from pmm_reserve_spec [OF this] obtain bm where
    bm: "pmm_reserve (unat ?res) 0 ?s = Some (?s\<lparr>pmm_bitmap := bm\<rparr>)" "length bm = k"
      "free_frames (?s\<lparr>pmm_bitmap := bm\<rparr>) = {0..<32 * k} - {0..<unat ?res}"
    using free_frames_replicate_0 [of k "s\<lparr>pmm_total_frames := ?total, pmm_bitmap_size := ?size\<rparr>"]
    by auto
  show ?thesis
    using bm res words ke k k_bound
    by (auto simp: pmm_init_def Let_def pmm_inv_def managed_frames_def)
qed

text \<open>C20. \<^verbatim>\<open>pmm_init\<close> (pmm.c) on a memory of a whole number of 128 KB blocks that holds the
  kernel image and the bitmap: the initialisation stays inside the bitmap, manages every
  frame of the memory, and leaves free exactly the frames above the reserved area (kernel
  image plus bitmap, rounded up to a frame). Frame 0 is reserved, so the null pointer is
  never the address of an available frame.\<close>

theorem pmm_init_spec:
  fixes kernel_end mem :: u32
  assumes "unat mem mod 131072 = 0" and "0 < kernel_end"
    and "unat kernel_end + unat mem div 32768 \<le> unat mem"
  shows "\<exists>s'. pmm_init kernel_end mem s = Some s' \<and> pmm_inv s' \<and>
     managed_frames s' = {0..<unat mem div 4096} \<and>
     free_frames s' =
       {(unat kernel_end + unat mem div 32768 + 4095) div 4096..<unat mem div 4096}"
  using pmm_init_run [OF assms, of s] by blast

theorem pmm_init_spec_witness:
  "\<exists>s'. pmm_init 0x40000 16777216 \<lparr>pmm_bitmap = [], pmm_total_frames = 0, pmm_bitmap_size = 0\<rparr> = Some s'
     \<and> pmm_inv s' \<and> managed_frames s' = {0..<4096} \<and> free_frames s' = {65..<4096}"
  using pmm_init_spec [of 16777216 "0x40000"
      "\<lparr>pmm_bitmap = [], pmm_total_frames = 0, pmm_bitmap_size = 0\<rparr>"]
  by simp

section \<open>Counting free frames\<close>

lemma card_Collect_step:
  fixes P :: "nat \<Rightarrow> bool"
  assumes "a < n"
  shows "card {i. a \<le> i \<and> i < n \<and> P i}
     = (if P a then 1 else 0) + card {i. Suc a \<le> i \<and> i < n \<and> P i}"
proof -
  let ?S = "{i. Suc a \<le> i \<and> i < n \<and> P i}"
  have "{i. a \<le> i \<and> i < n \<and> P i} = (if P a then insert a ?S else ?S)"
    using assms by (auto simp: le_eq_less_or_eq Suc_le_eq)
  moreover have "finite ?S" by simp
  ultimately show ?thesis by simp
qed

lemma pmm_count_bits_card:
  "pmm_count_bits w b c = c + of_nat (card {j. b \<le> j \<and> j < 32 \<and> \<not> bit w j})"
proof (induction w b c rule: pmm_count_bits.induct)
  case (1 w b c)
  show ?case
  proof (cases "b < 32")
    case True
    with 1 show ?thesis
      by (simp add: pmm_count_bits.simps [of w b c] card_Collect_step test_bit_zero_iff)
  next
    case False
    then have "{j. b \<le> j \<and> j < 32 \<and> \<not> bit w j} = {}" by auto
    with False show ?thesis by (simp only: pmm_count_bits.simps [of w b c] if_False) simp
  qed
qed

definition unused_from :: "u32 list \<Rightarrow> nat \<Rightarrow> nat \<Rightarrow> nat set" where
  "unused_from bm n d = {i. 32 * d \<le> i \<and> i < 32 * n \<and> \<not> frame_used bm i}"

lemma unused_from_step:
  assumes "d < n"
  shows "card (unused_from bm n d)
     = card {j. j < 32 \<and> \<not> bit (bm ! d) j} + card (unused_from bm n (Suc d))"
proof -
  let ?B = "{j. j < 32 \<and> \<not> bit (bm ! d) j}"
  have "unused_from bm n d = (\<lambda>j. 32 * d + j) ` ?B \<union> unused_from bm n (Suc d)"
  proof (intro set_eqI iffI)
    fix i
    assume i: "i \<in> unused_from bm n d"
    show "i \<in> (\<lambda>j. 32 * d + j) ` ?B \<union> unused_from bm n (Suc d)"
    proof (cases "i < 32 * Suc d")
      case True
      with i have "i - 32 * d \<in> ?B" and "i = 32 * d + (i - 32 * d)"
        using frame_used_dword [of "i - 32 * d" bm d] by (auto simp: unused_from_def)
      then show ?thesis by blast
    next
      case False
      with i show ?thesis by (auto simp: unused_from_def)
    qed
  next
    fix i
    assume "i \<in> (\<lambda>j. 32 * d + j) ` ?B \<union> unused_from bm n (Suc d)"
    with assms show "i \<in> unused_from bm n d"
      by (auto simp: unused_from_def frame_used_dword)
  qed
  moreover have "(\<lambda>j. 32 * d + j) ` ?B \<inter> unused_from bm n (Suc d) = {}"
    by (auto simp: unused_from_def)
  moreover have "card ((\<lambda>j. 32 * d + j) ` ?B) = card ?B"
    by (intro card_image) (simp add: inj_on_def)
  moreover have "finite (unused_from bm n (Suc d))"
    by (simp add: unused_from_def)
  ultimately show ?thesis by (simp add: card_Un_disjoint)
qed

lemma pmm_count_card:
  "pmm_count bm n d c = c + of_nat (card (unused_from bm n d))"
proof (induction bm n d c rule: pmm_count.induct)
  case (1 bm n d c)
  show ?case
  proof (cases "d < n")
    case True
    have "(if bm ! d \<noteq> 0xFFFFFFFF then pmm_count_bits (bm ! d) 0 c else c)
        = c + of_nat (card {j. j < 32 \<and> \<not> bit (bm ! d) j})"
    proof (cases "bm ! d = 0xFFFFFFFF")
      case full: True
      have "{j. j < 32 \<and> \<not> bit (bm ! d) j} = {}"
        unfolding full using bit_all_ones by auto
      then show ?thesis by (simp add: full)
    next
      case False
      then show ?thesis by (simp add: pmm_count_bits_card)
    qed
    with 1 [OF True] True show ?thesis
      by (simp only: pmm_count.simps [of bm n d c] if_True unused_from_step of_nat_add add.assoc)
  next
    case False
    then have "unused_from bm n d = {}" by (auto simp: unused_from_def)
    with False show ?thesis by (simp add: pmm_count.simps [of bm n d c])
  qed
qed

lemma unused_from_free_frames: "pmm_inv s \<Longrightarrow>
    unused_from (pmm_bitmap s) (unat (pmm_bitmap_size s div 4)) 0 = free_frames s"
  by (auto simp: unused_from_def free_frames_def managed_frames_def pmm_inv_def)

lemma pmm_get_free_frame_count_eq:
  assumes "pmm_inv s"
  shows "unat (pmm_get_free_frame_count s) = card (free_frames s)"
proof -
  have "card (free_frames s) \<le> card (managed_frames s)"
    by (intro card_mono) (auto simp: managed_frames_def free_frames_def)
  also have "\<dots> \<le> 1048576" using assms by (simp add: managed_frames_def pmm_inv_def)
  finally have "unat (of_nat (card (free_frames s)) :: u32) = card (free_frames s)"
    by (intro unat_of_nat_u32) simp
  then show ?thesis
    using assms
    by (simp add: pmm_get_free_frame_count_def pmm_count_card unused_from_free_frames)
qed

section \<open>Properties of the allocator\<close>

text \<open>C9. \<^verbatim>\<open>pmm_alloc_frame\<close> (pmm.c) in a well-formed state returns the address of the lowest
  free frame and marks exactly that frame as used; it returns NULL precisely when no frame
  is free, and then changes nothing. \<^verbatim>\<open>pmm_get_free_frame_count\<close> drops by one with every
  successful allocation.\<close>

theorem pmm_alloc_frame_spec:
  assumes "pmm_inv s"
  shows "\<exists>p s'. pmm_alloc_frame s = Some (p, s') \<and> pmm_inv s' \<and>
     (if free_frames s = {} then p = 0 \<and> s' = s
      else p = frame_addr (Min (free_frames s)) \<and> p \<noteq> 0 \<and>
           free_frames s' = free_frames s - {Min (free_frames s)} \<and>
           unat (pmm_get_free_frame_count s) = Suc (unat (pmm_get_free_frame_count s')))"
proof (cases "free_frames s = {}")
  case True
  with assms show ?thesis by (simp add: pmm_alloc_frame_full)
next
  case False
  let ?m = "Min (free_frames s)"
  from pmm.alloc_some [OF assms False] obtain s' where
    s': "pmm_alloc_frame s = Some (frame_addr ?m, s')" "free_frames s' = free_frames s - {?m}"
      "pmm_inv s'" by blast
  have "frame_addr ?m \<noteq> 0"
    using pmm.alloc_null_iff [OF assms] s'(1) False by auto
  moreover have "card (free_frames s) = Suc (card (free_frames s'))"
    using pmm.Min_avail [OF assms False] s'(2) card_Suc_Diff1 [of "free_frames s" ?m] by simp
  ultimately show ?thesis
    using False s' assms by (simp add: pmm_get_free_frame_count_eq)
qed

theorem pmm_alloc_frame_spec_witness:
  "\<exists>p s'. pmm_alloc_frame \<lparr>pmm_bitmap = [0xFFFFFFFF, 7], pmm_total_frames = 64, pmm_bitmap_size = 8\<rparr>
       = Some (p, s') \<and> pmm_inv s'"
proof -
  let ?s = "\<lparr>pmm_bitmap = [0xFFFFFFFF, 7], pmm_total_frames = 64, pmm_bitmap_size = 8\<rparr> :: pmm_state"
  have "frame_used [0xFFFFFFFF, 7] 0"
    by (simp add: frame_used_def bit_all_ones)
  then have "pmm_inv ?s" by (simp add: pmm_inv_def free_frames_def)
  from pmm_alloc_frame_spec [OF this] show ?thesis by blast
qed

text \<open>Freeing (pmm.c, \<^verbatim>\<open>pmm_free_frame\<close>) the frame that \<^verbatim>\<open>pmm_alloc_frame\<close> just returned
  restores the set of free frames, so the next allocation returns the same address again
  (the sanity check that \<^verbatim>\<open>kmain\<close> logs).\<close>

theorem pmm_alloc_free_alloc:
  assumes "pmm_inv s" and "pmm_alloc_frame s = Some (p, s1)" and "p \<noteq> 0"
  shows "\<exists>s2 s3. pmm_free_frame p s1 = Some s2 \<and> free_frames s2 = free_frames s \<and>
     pmm_alloc_frame s2 = Some (p, s3)"
proof -
  from pmm.alloc_then_free [OF assms] obtain s2 where
    s2: "pmm_free_frame p s1 = Some s2" "free_frames s2 = free_frames s" "pmm_inv s2"
    by blast
  have "free_frames s \<noteq> {}" using assms pmm_alloc_frame_full by fastforce
  with pmm.alloc_some [OF assms(1)] pmm.alloc_some [OF s2(3)] s2(2) assms(2)
  obtain s3 where "pmm_alloc_frame s2 = Some (p, s3)" by auto
  with s2 show ?thesis by blast
qed

theorem pmm_alloc_free_alloc_witness:
  "\<exists>s2 s3. pmm_free_frame 0x3000 \<lparr>pmm_bitmap = [15], pmm_total_frames = 32, pmm_bitmap_size = 4\<rparr> = Some s2 \<and>
     free_frames s2 = free_frames \<lparr>pmm_bitmap = [7], pmm_total_frames = 32, pmm_bitmap_size = 4\<rparr> \<and>
     pmm_alloc_frame s2 = Some (0x3000, s3)"
proof (rule pmm_alloc_free_alloc)
  show "pmm_inv \<lparr>pmm_bitmap = [7], pmm_total_frames = 32, pmm_bitmap_size = 4\<rparr>"
    by (simp add: pmm_inv_def free_frames_def frame_used_def)
  show "pmm_alloc_frame \<lparr>pmm_bitmap = [7], pmm_total_frames = 32, pmm_bitmap_size = 4\<rparr>
      = Some (0x3000, \<lparr>pmm_bitmap = [15], pmm_total_frames = 32, pmm_bitmap_size = 4\<rparr>)"
    by (simp add: pmm_alloc_frame_def pmm_scan.simps pmm_scan_bits.simps pmm_set_bit_def
        PMM_FRAME_SIZE_def Let_def)
qed simp

text \<open>C21. Allocations without intervening frees never hand out the same frame twice, and
  only run dry after every free frame has been handed out: \<^verbatim>\<open>n\<close> allocations from a state
  with at least \<^verbatim>\<open>n\<close> free frames return \<^verbatim>\<open>n\<close> different non-null frame addresses.\<close>

theorem pmm_alloc_many_distinct:
  assumes "pmm_inv s" and "n \<le> card (free_frames s)"
  shows "\<exists>ps s'. alloc_many pmm_alloc_frame n s = Some (ps, s') \<and> length ps = n \<and>
     distinct ps \<and> 0 \<notin> set ps \<and> card (free_frames s') = card (free_frames s) - n \<and> pmm_inv s'"
proof -
  from pmm.alloc_many_spec [OF assms] obtain fs s' where
    fs: "alloc_many pmm_alloc_frame n s = Some (map frame_addr fs, s')" "length fs = n"
      "distinct fs" "set fs \<subseteq> free_frames s" "free_frames s' = free_frames s - set fs" "pmm_inv s'"
    by blast
  have bound: "i < 1048576" "i \<noteq> 0" if "i \<in> set fs" for i
    using that fs(4) pmm.avail_bound [OF assms(1)] pmm.avail_nonzero [OF assms(1)]
    by (auto intro: ccontr)
  then have "distinct (map frame_addr fs)"
    using fs(3) by (auto simp: distinct_map inj_on_def frame_addr_inj)
  moreover have "0 \<notin> set (map frame_addr fs)"
    using bound frame_addr_eq_0 by fastforce
  moreover have "card (free_frames s') = card (free_frames s) - n"
    using fs by (simp add: card_Diff_subset distinct_card)
  ultimately show ?thesis using fs by auto
qed

theorem pmm_alloc_many_distinct_witness:
  "\<exists>ps s'. alloc_many pmm_alloc_frame 2
       \<lparr>pmm_bitmap = [7], pmm_total_frames = 32, pmm_bitmap_size = 4\<rparr> = Some (ps, s') \<and>
     length ps = 2 \<and> distinct ps \<and> 0 \<notin> set ps"
proof -
  let ?s = "\<lparr>pmm_bitmap = [7], pmm_total_frames = 32, pmm_bitmap_size = 4\<rparr> :: pmm_state"
  have inv: "pmm_inv ?s" by (simp add: pmm_inv_def free_frames_def frame_used_def)
  have "{3, 4} \<subseteq> free_frames ?s"
    by (simp add: free_frames_def frame_used_def managed_frames_def)
  then have "card {3, 4 :: nat} \<le> card (free_frames ?s)" by (intro card_mono) simp_all
  then have "2 \<le> card (free_frames ?s)" by simp
  from pmm_alloc_many_distinct [OF inv this] show ?thesis by blast
qed

end
