(* ===== verification/Io.thy ===== *)
theory Io
  imports Prelude
begin

text \<open>
  Port I/O: \<^verbatim>\<open>kernel/drivers/io.c\<close>.

  The state records every access to a port in order, and the interrupt flag of the CPU
  (\<^verbatim>\<open>cli\<close> clears it, \<^verbatim>\<open>sti\<close> sets it). What a read returns is decided by the hardware: a
  \<^verbatim>\<open>device\<close> is a parameter, and its answer may depend on the whole history of accesses.
  The programmable interrupt controllers are described by the part of the Intel 8259A's
  initialisation protocol that \<^verbatim>\<open>pic_remap\<close> uses.
\<close>

section \<open>Ports\<close>

datatype io_event =
    OutB u16 u8   \<comment> \<open>\<^verbatim>\<open>outb\<close>: port and value\<close>
  | InB u16 u8    \<comment> \<open>\<^verbatim>\<open>inb\<close>: port and the value read\<close>
  | InW u16 u16   \<comment> \<open>\<^verbatim>\<open>inw\<close>: port and the value read\<close>
  | OutL u16 u32  \<comment> \<open>\<^verbatim>\<open>outl\<close>: port and value\<close>
  | InL u16 u32   \<comment> \<open>\<^verbatim>\<open>inl\<close>: port and the value read\<close>

record io_state =
  io_trace :: "io_event list"
  intr_flag :: bool

record device =
  dev_inb :: "io_event list \<Rightarrow> u16 \<Rightarrow> u8"
  dev_inw :: "io_event list \<Rightarrow> u16 \<Rightarrow> u16"
  dev_inl :: "io_event list \<Rightarrow> u16 \<Rightarrow> u32"

definition cli :: "'a io_state_scheme \<Rightarrow> 'a io_state_scheme" where
  "cli s = s\<lparr>intr_flag := False\<rparr>"

definition sti :: "'a io_state_scheme \<Rightarrow> 'a io_state_scheme" where
  "sti s = s\<lparr>intr_flag := True\<rparr>"

definition port_byte_out :: "u16 \<Rightarrow> u8 \<Rightarrow> 'a io_state_scheme \<Rightarrow> 'a io_state_scheme" where
  "port_byte_out port data s = s\<lparr>io_trace := io_trace s @ [OutB port data]\<rparr>"

definition port_byte_in :: "device \<Rightarrow> u16 \<Rightarrow> 'a io_state_scheme \<Rightarrow> u8 \<times> 'a io_state_scheme" where
  "port_byte_in dev port s =
     (let result = dev_inb dev (io_trace s) port
      in (result, s\<lparr>io_trace := io_trace s @ [InB port result]\<rparr>))"

definition port_word_in :: "device \<Rightarrow> u16 \<Rightarrow> 'a io_state_scheme \<Rightarrow> u16 \<times> 'a io_state_scheme" where
  "port_word_in dev port s =
     (let result = dev_inw dev (io_trace s) port
      in (result, s\<lparr>io_trace := io_trace s @ [InW port result]\<rparr>))"

definition PIC1_CMD :: u16 where "PIC1_CMD = 0x20"
definition PIC1_DATA :: u16 where "PIC1_DATA = 0x21"
definition PIC2_CMD :: u16 where "PIC2_CMD = 0xA0"
definition PIC2_DATA :: u16 where "PIC2_DATA = 0xA1"

lemmas pic_ports = PIC1_CMD_def PIC1_DATA_def PIC2_CMD_def PIC2_DATA_def

definition pic_remap :: "device \<Rightarrow> u32 \<Rightarrow> u32 \<Rightarrow> 'a io_state_scheme \<Rightarrow> 'a io_state_scheme" where
  "pic_remap dev offset1 offset2 s =
     (let (a1, s) = port_byte_in dev PIC1_DATA s;
          (a2, s) = port_byte_in dev PIC2_DATA s;
          s = port_byte_out PIC1_CMD 0x11 s;
          s = port_byte_out PIC2_CMD 0x11 s;
          s = port_byte_out PIC1_DATA (ucast offset1) s;
          s = port_byte_out PIC2_DATA (ucast offset2) s;
          s = port_byte_out PIC1_DATA 4 s;
          s = port_byte_out PIC2_DATA 2 s;
          s = port_byte_out PIC1_DATA 0x01 s;
          s = port_byte_out PIC2_DATA 0x01 s;
          s = port_byte_out PIC1_DATA a1 s
      in port_byte_out PIC2_DATA a2 s)"

lemmas io_defs = cli_def sti_def port_byte_out_def port_byte_in_def port_word_in_def

section \<open>The 8259A protocol\<close>

text \<open>
  A command byte with bit 4 set is ICW1 and starts an initialisation: the next three bytes
  on the data port are ICW2 (the vector of the first line), ICW3 and ICW4. Outside an
  initialisation a byte on the data port is the interrupt mask.
\<close>

record pic =
  pic_vector :: u8
  pic_mask :: u8
  pic_phase :: nat

definition pic_reset :: pic where
  "pic_reset = \<lparr>pic_vector = 0, pic_mask = 0, pic_phase = 0\<rparr>"

definition pic_command :: "u8 \<Rightarrow> pic \<Rightarrow> pic" where
  "pic_command v p = (if bit v 4 then p\<lparr>pic_phase := 1, pic_mask := 0\<rparr> else p)"

definition pic_data :: "u8 \<Rightarrow> pic \<Rightarrow> pic" where
  "pic_data v p =
     (if pic_phase p = 0 then p\<lparr>pic_mask := v\<rparr>
      else if pic_phase p = 1 then p\<lparr>pic_vector := v, pic_phase := 2\<rparr>
      else if pic_phase p = 2 then p\<lparr>pic_phase := 3\<rparr>
      else p\<lparr>pic_phase := 0\<rparr>)"

fun pic_event :: "u16 \<Rightarrow> u16 \<Rightarrow> pic \<Rightarrow> io_event \<Rightarrow> pic" where
  "pic_event cmd dat p (OutB port v) =
     (if port = cmd then pic_command v p else if port = dat then pic_data v p else p)"
| "pic_event cmd dat p _ = p"

definition pic_of :: "u16 \<Rightarrow> u16 \<Rightarrow> io_event list \<Rightarrow> pic" where
  "pic_of cmd dat tr = foldl (pic_event cmd dat) pic_reset tr"

lemma pic_of_append [simp]:
  "pic_of cmd dat (tr @ es) = foldl (pic_event cmd dat) (pic_of cmd dat tr) es"
  by (simp add: pic_of_def)

text \<open>C32. \<^verbatim>\<open>pic_remap\<close> (io.c) leaves both interrupt controllers in operation (no half-finished
  initialisation), with the requested vector offsets and with the interrupt masks they had
  before, provided that both were in operation before and that reading a data port returns
  the mask of that controller, as the 8259A does.\<close>

theorem pic_remap_correct:
  assumes "dev_inb dev tr PIC1_DATA = pic_mask (pic_of PIC1_CMD PIC1_DATA tr)"
    and "dev_inb dev (tr @ [InB PIC1_DATA (dev_inb dev tr PIC1_DATA)]) PIC2_DATA
           = pic_mask (pic_of PIC2_CMD PIC2_DATA tr)"
    and "pic_phase (pic_of PIC1_CMD PIC1_DATA tr) = 0"
    and "pic_phase (pic_of PIC2_CMD PIC2_DATA tr) = 0"
    and "io_trace s = tr"
  shows "let tr' = io_trace (pic_remap dev offset1 offset2 s)
         in pic_of PIC1_CMD PIC1_DATA tr' = (pic_of PIC1_CMD PIC1_DATA tr)\<lparr>pic_vector := ucast offset1\<rparr> \<and>
            pic_of PIC2_CMD PIC2_DATA tr' = (pic_of PIC2_CMD PIC2_DATA tr)\<lparr>pic_vector := ucast offset2\<rparr>"
proof -
  have fields: "p\<lparr>pic_phase := 0, pic_mask := pic_mask p\<rparr> = p" if "pic_phase p = 0" for p :: pic
    using that by (cases p) simp
  show ?thesis
    using assms
    by (cases "pic_of PIC1_CMD PIC1_DATA tr"; cases "pic_of PIC2_CMD PIC2_DATA tr")
      (simp add: pic_remap_def Let_def port_byte_in_def port_byte_out_def pic_ports
        pic_command_def pic_data_def)
qed

text \<open>The witness uses a device whose data ports return the mask.\<close>

definition pic_device :: device where
  "pic_device =
     \<lparr>dev_inb = (\<lambda>tr port. if port = PIC1_DATA then pic_mask (pic_of PIC1_CMD PIC1_DATA tr)
                          else pic_mask (pic_of PIC2_CMD PIC2_DATA tr)),
      dev_inw = (\<lambda>tr port. 0), dev_inl = (\<lambda>tr port. 0)\<rparr>"

theorem pic_remap_correct_witness:
  "let s = \<lparr>io_trace = [OutB PIC1_DATA 0xB8, OutB PIC2_DATA 0x8F], intr_flag = False\<rparr>;
       tr' = io_trace (pic_remap pic_device 0x20 0x28 s)
   in pic_of PIC1_CMD PIC1_DATA tr' = \<lparr>pic_vector = 0x20, pic_mask = 0xB8, pic_phase = 0\<rparr> \<and>
      pic_of PIC2_CMD PIC2_DATA tr' = \<lparr>pic_vector = 0x28, pic_mask = 0x8F, pic_phase = 0\<rparr>"
proof -
  let ?tr = "[OutB PIC1_DATA 0xB8, OutB PIC2_DATA 0x8F]"
  let ?s = "\<lparr>io_trace = ?tr, intr_flag = False\<rparr> :: io_state"
  note simps = pic_of_def pic_reset_def pic_data_def pic_command_def pic_ports pic_device_def
  have "let tr' = io_trace (pic_remap pic_device 0x20 0x28 ?s)
        in pic_of PIC1_CMD PIC1_DATA tr' = (pic_of PIC1_CMD PIC1_DATA ?tr)\<lparr>pic_vector := ucast (0x20 :: u32)\<rparr> \<and>
           pic_of PIC2_CMD PIC2_DATA tr' = (pic_of PIC2_CMD PIC2_DATA ?tr)\<lparr>pic_vector := ucast (0x28 :: u32)\<rparr>"
    by (rule pic_remap_correct) (simp_all add: simps)
  moreover have "pic_of PIC1_CMD PIC1_DATA ?tr = \<lparr>pic_vector = 0, pic_mask = 0xB8, pic_phase = 0\<rparr>"
    and "pic_of PIC2_CMD PIC2_DATA ?tr = \<lparr>pic_vector = 0, pic_mask = 0x8F, pic_phase = 0\<rparr>"
    by (simp_all add: simps)
  ultimately show ?thesis by (simp add: Let_def)
qed

end
