(* ===== verification/Keyboard.thy ===== *)
theory Keyboard
  imports Io
begin

text \<open>
  The keyboard driver of \<^verbatim>\<open>kernel/drivers/keyboard.c\<close>: translation of scan codes and the
  circular buffer between the interrupt handler and the readers.

  \<^verbatim>\<open>char\<close> values are bytes; the arrow codes of \<^verbatim>\<open>keyboard.h\<close> are the negative
  characters -1 to -4. \<^verbatim>\<open>keyboard_read_char\<close> halts the CPU while the buffer is empty: the
  model returns \<^term>\<open>None\<close> then, which is the point where the task waits for the next
  interrupt.
\<close>

section \<open>State and operations\<close>

definition KBD_BUFFER_SIZE :: u32 where "KBD_BUFFER_SIZE = 256"

definition ARROW_UP :: u8 where "ARROW_UP = - 1"
definition ARROW_DOWN :: u8 where "ARROW_DOWN = - 2"
definition ARROW_LEFT :: u8 where "ARROW_LEFT = - 3"
definition ARROW_RIGHT :: u8 where "ARROW_RIGHT = - 4"

lemmas arrow_defs = ARROW_UP_def ARROW_DOWN_def ARROW_LEFT_def ARROW_RIGHT_def

record kbd_state =
  kbd_buffer :: bytes
  kbd_buffer_read_idx :: u32
  kbd_buffer_write_idx :: u32
  shift_pressed :: bool

definition kbd_init :: kbd_state where
  "kbd_init = \<lparr>kbd_buffer = replicate 256 0, kbd_buffer_read_idx = 0,
               kbd_buffer_write_idx = 0, shift_pressed = False\<rparr>"

definition kbd_us :: bytes where
  "kbd_us =
     [0, 27] @ map chr ''1234567890-='' @ [8, 9] @ map chr ''qwertyuiop[]'' @ [10, 0]
     @ map chr ''asdfghjkl;'' @ [39, 96, 0, 92] @ map chr ''zxcvbnm,./'' @ [0, 42, 0, 32]
     @ replicate 70 0"

definition kbd_us_shift :: bytes where
  "kbd_us_shift =
     [0, 27] @ map chr ''!@#$%^&*()_+'' @ [8, 9] @ map chr ''QWERTYUIOP{}'' @ [10, 0]
     @ map chr ''ASDFGHJKL:'' @ [34, 126, 0, 124] @ map chr ''ZXCVBNM<>?'' @ [0, 42, 0, 32]
     @ replicate 70 0"

text \<open>The last part of the handler: store the character unless the buffer is full.\<close>

definition kbd_store :: "u8 \<Rightarrow> kbd_state \<Rightarrow> kbd_state" where
  "kbd_store character s =
     (if character \<noteq> 0
      then if (kbd_buffer_write_idx s + 1) mod KBD_BUFFER_SIZE \<noteq> kbd_buffer_read_idx s
           then s\<lparr>kbd_buffer := (kbd_buffer s)[unat (kbd_buffer_write_idx s) := character],
                  kbd_buffer_write_idx := (kbd_buffer_write_idx s + 1) mod KBD_BUFFER_SIZE\<rparr>
           else s
      else s)"

text \<open>The character of a pressed key.\<close>

definition kbd_char :: "u8 \<Rightarrow> bool \<Rightarrow> u8" where
  "kbd_char scancode shift =
     (if scancode = 0x4B then ARROW_LEFT
      else if scancode = 0x4D then ARROW_RIGHT
      else if scancode = 0x48 then ARROW_UP
      else if scancode = 0x50 then ARROW_DOWN
      else if scancode < 128
           then (if shift then kbd_us_shift ! unat scancode else kbd_us ! unat scancode)
      else 0)"

definition kbd_scancode :: "u8 \<Rightarrow> kbd_state \<Rightarrow> kbd_state" where
  "kbd_scancode scancode s =
     (if scancode AND 0x80 \<noteq> 0
      then (if scancode AND 0x7F = 0x2A \<or> scancode AND 0x7F = 0x36
            then s\<lparr>shift_pressed := False\<rparr> else s)
      else if scancode = 0x2A \<or> scancode = 0x36 then s\<lparr>shift_pressed := True\<rparr>
      else kbd_store (kbd_char scancode (shift_pressed s)) s)"

definition keyboard_handler ::
    "device \<Rightarrow> 'a io_state_scheme \<Rightarrow> kbd_state \<Rightarrow> 'a io_state_scheme \<times> kbd_state" where
  "keyboard_handler dev io s =
     (let (scancode, io) = port_byte_in dev 0x60 io in (io, kbd_scancode scancode s))"

definition keyboard_read_char :: "kbd_state \<Rightarrow> (u8 \<times> kbd_state) option" where
  "keyboard_read_char s =
     (if kbd_buffer_read_idx s = kbd_buffer_write_idx s then None
      else Some (kbd_buffer s ! unat (kbd_buffer_read_idx s),
                 s\<lparr>kbd_buffer_read_idx := (kbd_buffer_read_idx s + 1) mod KBD_BUFFER_SIZE\<rparr>))"

definition keyboard_flush :: "kbd_state \<Rightarrow> kbd_state" where
  "keyboard_flush s = s\<lparr>kbd_buffer_read_idx := kbd_buffer_write_idx s\<rparr>"

section \<open>The contract of a bounded queue\<close>

text \<open>
  What the reader and the interrupt handler expect of the buffer between them: a first-in
  first-out queue of bounded capacity that drops an element when it is full.
\<close>

locale bounded_queue =
  fixes put :: "'a \<Rightarrow> 's \<Rightarrow> 's"
    and get :: "'s \<Rightarrow> ('a \<times> 's) option"
    and clear :: "'s \<Rightarrow> 's"
    and contents :: "'s \<Rightarrow> 'a list"
    and valid :: "'a \<Rightarrow> bool"
    and cap :: nat
    and invar :: "'s \<Rightarrow> bool"
  assumes put_room: "invar s \<Longrightarrow> valid x \<Longrightarrow> length (contents s) < cap \<Longrightarrow>
       contents (put x s) = contents s @ [x]"
    and put_full: "invar s \<Longrightarrow> valid x \<Longrightarrow> cap \<le> length (contents s) \<Longrightarrow> put x s = s"
    and put_invar: "invar s \<Longrightarrow> valid x \<Longrightarrow> invar (put x s)"
    and get_empty: "invar s \<Longrightarrow> contents s = [] \<Longrightarrow> get s = None"
    and get_next: "invar s \<Longrightarrow> contents s = x # xs \<Longrightarrow>
       \<exists>s'. get s = Some (x, s') \<and> contents s' = xs \<and> invar s'"
    and clear_empty: "invar s \<Longrightarrow> contents (clear s) = [] \<and> invar (clear s)"

text \<open>
  An interleaving of the producer and the consumer, on the queue and on a list. A \<open>Get\<close>
  of an empty queue waits, and so produces nothing.
\<close>

datatype 'a queue_op = Put 'a | Get | Clear

fun run_queue ::
    "('a \<Rightarrow> 's \<Rightarrow> 's) \<Rightarrow> ('s \<Rightarrow> ('a \<times> 's) option) \<Rightarrow> ('s \<Rightarrow> 's) \<Rightarrow> 'a queue_op list \<Rightarrow> 's \<Rightarrow> 'a list \<times> 's" where
  "run_queue put get clear [] s = ([], s)"
| "run_queue put get clear (Put x # ops) s = run_queue put get clear ops (put x s)"
| "run_queue put get clear (Clear # ops) s = run_queue put get clear ops (clear s)"
| "run_queue put get clear (Get # ops) s =
     (case get s of
        None \<Rightarrow> run_queue put get clear ops s
      | Some (x, s') \<Rightarrow> (let (out, s'') = run_queue put get clear ops s' in (x # out, s'')))"

fun run_list :: "nat \<Rightarrow> 'a queue_op list \<Rightarrow> 'a list \<Rightarrow> 'a list \<times> 'a list" where
  "run_list cap [] q = ([], q)"
| "run_list cap (Put x # ops) q = run_list cap ops (if length q < cap then q @ [x] else q)"
| "run_list cap (Clear # ops) q = run_list cap ops []"
| "run_list cap (Get # ops) [] = run_list cap ops []"
| "run_list cap (Get # ops) (x # q) = (let (out, q') = run_list cap ops q in (x # out, q'))"

fun ops_valid :: "('a \<Rightarrow> bool) \<Rightarrow> 'a queue_op list \<Rightarrow> bool" where
  "ops_valid P [] = True"
| "ops_valid P (Put x # ops) = (P x \<and> ops_valid P ops)"
| "ops_valid P (_ # ops) = ops_valid P ops"

context bounded_queue
begin

lemma run_refines:
  "invar s \<Longrightarrow> ops_valid valid ops \<Longrightarrow>
     (case run_queue put get clear ops s of (out, s') \<Rightarrow>
        invar s' \<and> run_list cap ops (contents s) = (out, contents s'))"
proof (induction ops arbitrary: s)
  case Nil
  then show ?case by simp
next
  case (Cons op ops)
  show ?case
  proof (cases op)
    case (Put x)
    with Cons.prems have x: "valid x" "ops_valid valid ops" by simp_all
    then have "contents (put x s) = (if length (contents s) < cap then contents s @ [x] else contents s)"
      using Cons.prems(1) by (simp add: put_room put_full)
    with Cons.IH [OF put_invar [OF Cons.prems(1) x(1)] x(2)] Put show ?thesis by simp
  next
    case Clear
    with Cons.IH [of "clear s"] Cons.prems clear_empty [OF Cons.prems(1)] show ?thesis by simp
  next
    case Get
    show ?thesis
    proof (cases "contents s")
      case Nil
      with Get Cons.IH [OF Cons.prems(1)] Cons.prems show ?thesis by (simp add: get_empty)
    next
      case (Cons x xs)
      from get_next [OF Cons.prems(1) Cons] obtain s' where
        s': "get s = Some (x, s')" "contents s' = xs" "invar s'" by blast
      have "ops_valid valid ops" using Cons.prems(2) Get by simp
      from Cons.IH [OF s'(3) this] s' Get Cons show ?thesis
        by (auto simp: Let_def split: prod.splits)
    qed
  qed
qed

end

section \<open>The circular buffer satisfies the contract\<close>

definition kbd_inv :: "kbd_state \<Rightarrow> bool" where
  "kbd_inv s \<longleftrightarrow> length (kbd_buffer s) = 256 \<and> unat (kbd_buffer_read_idx s) < 256 \<and>
     unat (kbd_buffer_write_idx s) < 256"

definition kbd_count :: "kbd_state \<Rightarrow> nat" where
  "kbd_count s = (unat (kbd_buffer_write_idx s) + 256 - unat (kbd_buffer_read_idx s)) mod 256"

definition kbd_contents :: "kbd_state \<Rightarrow> bytes" where
  "kbd_contents s =
     map (\<lambda>k. kbd_buffer s ! ((unat (kbd_buffer_read_idx s) + k) mod 256)) [0..<kbd_count s]"

lemma kbd_next_idx: "unat (i :: u32) < 256 \<Longrightarrow>
    unat ((i + 1) mod KBD_BUFFER_SIZE) = Suc (unat i) mod 256"
  by (simp add: KBD_BUFFER_SIZE_def unat_mod unat_plus_u32)

lemma ring_count:
  "r < 256 \<Longrightarrow> w < 256 \<Longrightarrow> (w + 256 - r) mod 256 = (if r \<le> w then w - r else w + 256 - r :: nat)"
  by (simp add: mod_if)

lemma ring_add:
  "r < 256 \<Longrightarrow> k < 256 \<Longrightarrow> (r + k) mod 256 = (if r + k < 256 then r + k else r + k - 256 :: nat)"
  by (simp add: mod_if)

lemma ring_Suc: "r < 256 \<Longrightarrow> Suc r mod 256 = (if r = 255 then 0 else Suc r)"
  by (simp add: mod_if)

lemma ring_index: "r < 256 \<Longrightarrow> w < 256 \<Longrightarrow> (r + (w + 256 - r) mod 256) mod 256 = (w :: nat)"
  by (simp add: ring_count ring_add)

lemma ring_distinct:
  assumes "r < 256" "w < 256" "k < (w + 256 - r) mod (256 :: nat)"
  shows "(r + k) mod 256 \<noteq> w"
proof -
  have "k < 256" using assms(3) mod_less_divisor [of 256 "w + 256 - r"] by linarith
  with assms show ?thesis by (auto simp: ring_count ring_add split: if_splits)
qed

lemma ring_count_put:
  assumes "r < 256" "w < 256" "Suc w mod 256 \<noteq> r"
  shows "(Suc w mod 256 + 256 - r) mod 256 = Suc ((w + 256 - r) mod 256)"
  using assms ring_count [of r "Suc w mod 256"] by (simp add: ring_count ring_Suc split: if_splits)

lemma ring_full_iff:
  assumes "r < 256" "w < 256"
  shows "Suc w mod 256 = r \<longleftrightarrow> 255 \<le> (w + 256 - r) mod 256"
  using assms by (simp add: ring_count ring_Suc) arith

lemma ring_count_get:
  assumes "r < 256" "w < 256" "r \<noteq> w"
  shows "(w + 256 - r) mod 256 = Suc ((w + 256 - Suc r mod 256) mod 256)"
proof -
  have "Suc r mod 256 < 256" by simp
  with assms show ?thesis by (auto simp: ring_count ring_Suc)
qed

lemma kbd_full_iff: "kbd_inv s \<Longrightarrow>
    (kbd_buffer_write_idx s + 1) mod KBD_BUFFER_SIZE = kbd_buffer_read_idx s \<longleftrightarrow> 255 \<le> kbd_count s"
  by (simp add: word_unat_eq_iff kbd_inv_def kbd_next_idx ring_full_iff kbd_count_def)

lemma length_kbd_contents [simp]: "length (kbd_contents s) = kbd_count s"
  by (simp add: kbd_contents_def)

lemma kbd_store_contents:
  assumes "kbd_inv s" and "c \<noteq> 0" and "kbd_count s < 255"
  shows "kbd_contents (kbd_store c s) = kbd_contents s @ [c]"
proof -
  let ?r = "unat (kbd_buffer_read_idx s)" and ?w = "unat (kbd_buffer_write_idx s)"
  have b: "length (kbd_buffer s) = 256" "?r < 256" "?w < 256"
    using assms(1) by (auto simp: kbd_inv_def)
  have nf: "(kbd_buffer_write_idx s + 1) mod KBD_BUFFER_SIZE \<noteq> kbd_buffer_read_idx s"
    using assms(1,3) kbd_full_iff by simp
  then have nf': "Suc ?w mod 256 \<noteq> ?r"
    using b by (simp add: word_unat_eq_iff kbd_next_idx)
  let ?s = "kbd_store c s"
  have cnt: "kbd_count ?s = Suc (kbd_count s)"
    using b nf nf' assms(2) ring_count_put [of ?r ?w]
    by (simp add: kbd_store_def kbd_count_def kbd_next_idx)
  have old: "kbd_buffer ?s ! ((?r + k) mod 256) = kbd_buffer s ! ((?r + k) mod 256)"
    if "k < kbd_count s" for k
    using ring_distinct [of ?r ?w k] b that nf assms(2)
    by (simp add: kbd_store_def kbd_count_def)
  have new: "kbd_buffer ?s ! ((?r + kbd_count s) mod 256) = c"
    using ring_index [of ?r ?w] b nf assms(2)
    by (simp add: kbd_store_def kbd_count_def)
  have "kbd_buffer_read_idx ?s = kbd_buffer_read_idx s" by (simp add: kbd_store_def)
  then show ?thesis using cnt old new by (simp add: kbd_contents_def)
qed

lemma kbd_read_contents:
  assumes "kbd_inv s" and "kbd_contents s = c # cs"
  shows "\<exists>s'. keyboard_read_char s = Some (c, s') \<and> kbd_contents s' = cs \<and> kbd_inv s'"
proof -
  let ?r = "unat (kbd_buffer_read_idx s)" and ?w = "unat (kbd_buffer_write_idx s)"
  let ?s = "s\<lparr>kbd_buffer_read_idx := (kbd_buffer_read_idx s + 1) mod KBD_BUFFER_SIZE\<rparr>"
  have b: "?r < 256" "?w < 256" using assms(1) by (auto simp: kbd_inv_def)
  have "kbd_count s \<noteq> 0"
    using assms(2) length_kbd_contents [of s] by (metis length_0_conv list.distinct(1))
  then have "?r \<noteq> ?w" by (auto simp: kbd_count_def)
  then have cnt: "kbd_count s = Suc (kbd_count ?s)"
    using b ring_count_get [of ?r ?w] by (simp add: kbd_count_def kbd_next_idx)
  have "kbd_contents s = kbd_buffer s ! ?r # kbd_contents ?s"
    unfolding kbd_contents_def cnt upt_conv_Cons [of 0 "Suc (kbd_count ?s)", OF zero_less_Suc]
    using b by (simp add: kbd_next_idx map_Suc_upt [symmetric] mod_add_left_eq del: upt_Suc)
  then show ?thesis
    using assms b \<open>?r \<noteq> ?w\<close>
    by (auto simp: keyboard_read_char_def kbd_inv_def kbd_next_idx)
qed

interpretation kbd: bounded_queue kbd_store keyboard_read_char keyboard_flush kbd_contents
  "\<lambda>c. c \<noteq> 0" 255 kbd_inv
proof (unfold_locales, goal_cases)
  case (1 s x)
  then show ?case by (simp add: kbd_store_contents)
next
  case (2 s x)
  then show ?case using kbd_full_iff by (simp add: kbd_store_def)
next
  case (3 s x)
  then show ?case by (auto simp: kbd_store_def kbd_inv_def kbd_next_idx)
next
  case (4 s)
  then have "kbd_count s = 0" using length_kbd_contents [of s] by simp
  then have "unat (kbd_buffer_read_idx s) = unat (kbd_buffer_write_idx s)"
    using 4 by (auto simp: kbd_count_def kbd_inv_def mod_if split: if_splits)
  then show ?case by (simp add: keyboard_read_char_def word_unat_eq_iff)
next
  case (5 s x xs)
  then show ?case by (rule kbd_read_contents)
next
  case (6 s)
  then show ?case by (simp add: keyboard_flush_def kbd_contents_def kbd_count_def kbd_inv_def)
qed

section \<open>Properties of the driver\<close>

text \<open>C10. The circular buffer of keyboard.c is a first-in first-out queue of 255 characters:
  for every interleaving of characters stored by the interrupt handler, reads by
  \<^verbatim>\<open>keyboard_read_char\<close> and calls of \<^verbatim>\<open>keyboard_flush\<close>, starting from the buffer as it is at
  boot, the characters read are those of the abstract queue, in the same order, and the
  buffer holds what the abstract queue holds. A character is lost only when 255 characters
  are waiting.\<close>

theorem keyboard_buffer_fifo:
  assumes "ops_valid (\<lambda>c. c \<noteq> 0) ops"
  shows "case run_queue kbd_store keyboard_read_char keyboard_flush ops kbd_init of
           (out, s) \<Rightarrow> run_list 255 ops [] = (out, kbd_contents s) \<and> kbd_inv s"
proof -
  have "kbd_inv kbd_init" and "kbd_contents kbd_init = []"
    by (simp_all add: kbd_init_def kbd_inv_def kbd_contents_def kbd_count_def)
  with kbd.run_refines [OF this(1) assms] show ?thesis by (auto split: prod.splits)
qed

theorem keyboard_buffer_fifo_witness:
  "case run_queue kbd_store keyboard_read_char keyboard_flush [Put 104, Put 105, Get, Get, Get] kbd_init of
     (out, s) \<Rightarrow> out = [104, 105] \<and> kbd_contents s = []"
  using keyboard_buffer_fifo [of "[Put 104, Put 105, Get, Get, Get]"]
  by (auto split: prod.splits)

lemma length_kbd_tables [simp]: "length kbd_us = 128" "length kbd_us_shift = 128"
  by (simp_all add: kbd_us_def kbd_us_shift_def)

lemma kbd_scancode_inv [kernel_inv]: "kbd_inv s \<Longrightarrow> kbd_inv (kbd_scancode c s)"
proof -
  assume inv: "kbd_inv s"
  then have "kbd_inv (kbd_store x s)" for x
    using kbd.put_invar [of s x] by (cases "x = 0") (simp_all add: kbd_store_def)
  moreover have "kbd_inv (s\<lparr>shift_pressed := b\<rparr>)" for b
    using inv by (simp add: kbd_inv_def)
  ultimately show ?thesis using inv by (simp add: kbd_scancode_def)
qed

text \<open>
  The US keyboard as its scan codes (set 1) number the keys, row by row: the code of the
  first key of a row, the characters of the row and the characters with shift held.
\<close>

definition us_rows :: "(nat \<times> string \<times> string) list" where
  "us_rows =
     [(0x02, ''1234567890-='', ''!@#$%^&*()_+''),
      (0x10, ''qwertyuiop[]'', ''QWERTYUIOP{}''),
      (0x1E, ''asdfghjkl;'' @ [CHR 0x27, CHR 0x60], ''ASDFGHJKL:'' @ [CHR 0x22, CHR 0x7E]),
      (0x2B, CHR 0x5C # ''zxcvbnm,./'', CHR 0x7C # ''ZXCVBNM<>?''),
      (0x37, ''*'', ''*''), (0x39, '' '', '' '')]"

text \<open>Escape, backspace, tab and enter, and the arrow keys with their codes of keyboard.h.\<close>

definition us_special :: "(nat \<times> u8) list" where
  "us_special = [(0x01, 27), (0x0E, 8), (0x0F, 9), (0x1C, 10),
     (0x48, - 1), (0x50, - 2), (0x4B, - 3), (0x4D, - 4)]"

fun us_char :: "(nat \<times> string \<times> string) list \<Rightarrow> bool \<Rightarrow> nat \<Rightarrow> u8 option" where
  "us_char [] shift key = None"
| "us_char ((first, plain, shifted) # rows) shift key =
     (if first \<le> key \<and> key < first + length plain
      then Some (chr ((if shift then shifted else plain) ! (key - first)))
      else us_char rows shift key)"

definition us_key :: "bool \<Rightarrow> nat \<Rightarrow> u8 option" where
  "us_key shift key =
     (case map_of us_special key of Some c \<Rightarrow> Some c | None \<Rightarrow> us_char us_rows shift key)"

definition us_table :: "bool \<Rightarrow> bytes" where
  "us_table shift = map (\<lambda>n. case us_key shift n of Some c \<Rightarrow> c | None \<Rightarrow> 0) [0..<128]"

lemma upt_128: "[0..<128] = 0 # 1 # [2..<128]"
  by (simp add: upt_rec [of 0] upt_rec [of "Suc 0"] numeral_2_eq_2)

lemma zeros_70: "replicate 70 (0 :: u8) =
     [0, 0, 0, 0, 0, 0, 0, 0, 0, 0, 0, 0, 0, 0,
      0, 0, 0, 0, 0, 0, 0, 0, 0, 0, 0, 0, 0, 0,
      0, 0, 0, 0, 0, 0, 0, 0, 0, 0, 0, 0, 0, 0,
      0, 0, 0, 0, 0, 0, 0, 0, 0, 0, 0, 0, 0, 0,
      0, 0, 0, 0, 0, 0, 0, 0, 0, 0, 0, 0, 0, 0]"
  by (simp add: numeral_eq_Suc)

lemma us_table_True: "us_table True = kbd_us_shift[0x48 := - 1, 0x50 := - 2, 0x4B := - 3, 0x4D := - 4]"
  by (simp add: us_table_def us_key_def us_rows_def upt_rec_numeral us_special_def upt_128 zeros_70 kbd_us_shift_def chr_def)

lemma us_table_False: "us_table False = kbd_us[0x48 := - 1, 0x50 := - 2, 0x4B := - 3, 0x4D := - 4]"
  by (simp add: us_table_def us_key_def us_rows_def upt_rec_numeral us_special_def upt_128 zeros_70 kbd_us_def chr_def)

lemma us_char_in:
  assumes "us_char rows shift key = Some c" and "\<forall>(first, plain, shifted) \<in> set rows. length plain = length shifted"
  shows "c \<in> (\<Union>(first, plain, shifted) \<in> set rows. chr ` (set plain \<union> set shifted))"
  using assms by (induction rows shift key rule: us_char.induct) (auto split: if_splits)

lemma us_key_nonzero: "us_key shift key \<noteq> Some 0"
proof -
  have "\<forall>(first, plain, shifted) \<in> set us_rows. length plain = length shifted" by (simp add: us_rows_def)
  moreover have "0 \<notin> (\<Union>(first, plain, shifted) \<in> set us_rows. chr ` (set plain \<union> set shifted))"
    by (simp add: us_rows_def chr_def)
  ultimately have "us_char us_rows shift key \<noteq> Some 0" using us_char_in by blast
  then show ?thesis by (auto simp: us_key_def us_special_def split: if_splits)
qed

lemma kbd_char_us:
  assumes "c < 128"
  shows "kbd_char c shift = (case us_key shift (unat c) of Some x \<Rightarrow> x | None \<Rightarrow> 0)"
proof -
  have u: "unat c < 128" using assms by (simp add: word_less_nat_alt)
  have e: "c = of_nat n \<longleftrightarrow> unat c = n" if "n < 128" for n
    using that by (auto simp: unat_of_nat)
  have n: "c = 0x4B \<longleftrightarrow> unat c = 75" "c = 0x4D \<longleftrightarrow> unat c = 77" "c = 0x48 \<longleftrightarrow> unat c = 72" "c = 0x50 \<longleftrightarrow> unat c = 80"
    using e [of 75] e [of 77] e [of 72] e [of 80] by simp_all
  have "kbd_char c shift = us_table shift ! unat c"
    using u assms by (cases shift) (auto simp: us_table_True us_table_False kbd_char_def n arrow_defs nth_list_update)
  also have "\<dots> = (case us_key shift (unat c) of Some x \<Rightarrow> x | None \<Rightarrow> 0)"
    using u by (simp add: us_table_def)
  finally show ?thesis .
qed

text \<open>C27. \<^verbatim>\<open>keyboard_handler\<close> (keyboard.c), for every scan code the controller can deliver:
  the buffer invariant is kept, a released key stores nothing, a shift key stores nothing
  and only switches the shift state, and any other pressed key appends the character it has
  on a US keyboard (\<^verbatim>\<open>us_key\<close>: upper case and the upper symbols while shift is held, the codes
  of keyboard.h for the arrow keys) to the waiting characters, unless it has none or the
  buffer is full.\<close>

theorem keyboard_handler_spec:
  assumes "kbd_inv s" and "keyboard_handler dev io s = (io', s')"
  defines "code \<equiv> dev_inb dev (io_trace io) 0x60"
  shows "kbd_inv s' \<and>
     io_trace io' = io_trace io @ [InB 0x60 code] \<and>
     (let key = code AND 0x7F; released = bit code 7; shift = (key = 0x2A \<or> key = 0x36) in
        shift_pressed s' = (if shift then \<not> released else shift_pressed s) \<and>
        kbd_contents s' =
          (if released \<or> shift \<or> 255 \<le> length (kbd_contents s) then kbd_contents s
           else case us_key (shift_pressed s) (unat key) of
                  None \<Rightarrow> kbd_contents s | Some c \<Rightarrow> kbd_contents s @ [c]))"
proof -
  have io: "io_trace io' = io_trace io @ [InB 0x60 code]" and s': "s' = kbd_scancode code s"
    using assms(2) by (auto simp: keyboard_handler_def port_byte_in_def code_def Let_def)
  have rel: "code AND 0x80 \<noteq> 0 \<longleftrightarrow> bit code 7"
    using bit_iff_and_push_bit_not_eq_0 [of code 7] by simp
  have press: "code AND 0x7F = code" if "\<not> bit code 7"
  proof (rule bit_word_eqI)
    fix n assume "n < LENGTH(8)"
    then have "n \<in> {0, 1, 2, 3, 4, 5, 6, 7}" by auto
    with that show "bit (code AND 0x7F) n = bit code n"
      by (auto simp: bit_and_iff bit_numeral_rec)
  qed
  have frame: "kbd_contents (s\<lparr>shift_pressed := b\<rparr>) = kbd_contents s" for b
    by (simp add: kbd_contents_def kbd_count_def)
  have store: "kbd_contents (kbd_store c s)
      = (if c = 0 \<or> 255 \<le> length (kbd_contents s) then kbd_contents s else kbd_contents s @ [c])" for c
    using kbd.put_room [OF assms(1), of c] kbd.put_full [OF assms(1), of c]
    by (cases "c = 0") (auto simp: kbd_store_def)
  have shift: "shift_pressed (kbd_store c s) = shift_pressed s" for c
    by (simp add: kbd_store_def)
  have small: "code < 128" if "\<not> bit code 7"
    using that high_bit [of code] by (simp add: not_le)
  have char: "kbd_contents (kbd_store (kbd_char code b) s) =
      (if 255 \<le> length (kbd_contents s) then kbd_contents s
       else case us_key b (unat code) of None \<Rightarrow> kbd_contents s | Some c \<Rightarrow> kbd_contents s @ [c])"
    if "\<not> bit code 7" for b
    using us_key_nonzero [of b "unat code"]
    by (auto simp: store kbd_char_us [OF small [OF that]] split: option.splits)
  show ?thesis
    unfolding s'
  proof (intro conjI, goal_cases)
    case 1
    show ?case by (rule kbd_scancode_inv [OF assms(1)])
  next
    case 2
    show ?case by (rule io)
  next
    case 3
    show ?case using press
      by (cases "bit code 7") (auto simp: kbd_scancode_def rel frame char shift Let_def)
  qed
qed

theorem keyboard_handler_spec_witness:
  "let dev = \<lparr>dev_inb = (\<lambda>tr port. 0x1E), dev_inw = (\<lambda>tr port. 0), dev_inl = (\<lambda>tr port. 0)\<rparr>;
       io = \<lparr>io_trace = [], intr_flag = False\<rparr>;
       (io', s') = keyboard_handler dev io (kbd_init\<lparr>shift_pressed := True\<rparr>)
   in kbd_contents s' = [chr CHR ''A'']"
proof -
  let ?dev = "\<lparr>dev_inb = (\<lambda>tr port. 0x1E), dev_inw = (\<lambda>tr port. 0), dev_inl = (\<lambda>tr port. 0)\<rparr> :: device"
  let ?io = "\<lparr>io_trace = [], intr_flag = False\<rparr> :: io_state"
  let ?s = "kbd_init\<lparr>shift_pressed := True\<rparr>"
  obtain io' s' where h: "keyboard_handler ?dev ?io ?s = (io', s')" by fastforce
  have inv: "kbd_inv ?s" and empty: "kbd_contents ?s = []"
    by (simp_all add: kbd_init_def kbd_inv_def kbd_contents_def kbd_count_def)
  have A: "us_key True 0x1E = Some (chr CHR ''A'')"
    by (simp add: us_key_def us_special_def us_rows_def)
  from keyboard_handler_spec [OF inv h] show ?thesis
    using A by (simp add: h empty Let_def chr_def)
qed

text \<open>The two character tables of keyboard.c agree on the letters: holding shift turns
  every lower-case letter of \<^verbatim>\<open>kbd_us\<close> into its upper-case form, and the tables have a
  character at the same positions.\<close>

theorem kbd_tables_agree:
  "\<forall>i < 128. (kbd_us ! i = 0 \<longleftrightarrow> kbd_us_shift ! i = 0) \<and>
     (97 \<le> kbd_us ! i \<and> kbd_us ! i \<le> 122 \<longrightarrow> kbd_us_shift ! i = kbd_us ! i - 32)"
proof -
  have "list_all2 (\<lambda>a b. (a = 0 \<longleftrightarrow> b = 0) \<and> (97 \<le> a \<and> a \<le> 122 \<longrightarrow> b = a - 32)) kbd_us kbd_us_shift"
    by (simp add: kbd_us_def kbd_us_shift_def chr_def list_all2_same)
  then show ?thesis by (simp add: list_all2_conv_all_nth)
qed

theorem kbd_tables_agree_witness:
  "kbd_us ! 30 = chr CHR ''a'' \<and> kbd_us_shift ! 30 = chr CHR ''A''"
proof -
  have a: "kbd_us ! 30 = 97" by (simp add: kbd_us_def chr_def)
  with kbd_tables_agree have "kbd_us_shift ! 30 = kbd_us ! 30 - 32" by simp
  with a show ?thesis by (simp add: chr_def)
qed

end
