(* ===== verification/Vga.thy ===== *)
theory Vga
  imports Io CString
begin

text \<open>
  The text-mode driver of \<^verbatim>\<open>kernel/drivers/vga.c\<close>.

  The video memory at 0xB8000 is a function from the index of a cell (a character and its
  attribute, 16 bits) to its value; the screen is the part with the indices 0 to 1999. The
  C variables of type \<^verbatim>\<open>int\<close> stay far below the overflow bound and are integers.
  \<^verbatim>\<open>char\<close> is signed, so a character is sign-extended before the attribute is added.
\<close>

section \<open>State and operations\<close>

record vga_state = io_state +
  cursor_row :: int
  cursor_col :: int
  vga_buffer :: "int \<Rightarrow> u16"

text \<open>The value \<^verbatim>\<open>c | (color << 8)\<close> stored in a cell.\<close>

definition vga_cell :: "u8 \<Rightarrow> u8 \<Rightarrow> u16" where
  "vga_cell c color = scast c OR push_bit 8 (ucast color)"

definition blank_cell :: u16 where
  "blank_cell = vga_cell (chr CHR '' '') 0x0F"

definition update_cursor :: "int \<Rightarrow> int \<Rightarrow> 'a io_state_scheme \<Rightarrow> 'a io_state_scheme" where
  "update_cursor row col s =
     (let position = word_of_int (row * 80 + col) :: u16;
          s = port_byte_out 0x3D4 0x0E s;
          s = port_byte_out 0x3D5 (ucast (drop_bit 8 position)) s;
          s = port_byte_out 0x3D4 0x0F s
      in port_byte_out 0x3D5 (ucast (position AND 0xFF)) s)"

text \<open>A loop \<^verbatim>\<open>for (i = first; n times; i++) VGA_BUFFER[i] = f(VGA_BUFFER, i)\<close>.\<close>

fun vga_fill :: "nat \<Rightarrow> int \<Rightarrow> ((int \<Rightarrow> u16) \<Rightarrow> int \<Rightarrow> u16) \<Rightarrow> (int \<Rightarrow> u16) \<Rightarrow> int \<Rightarrow> u16" where
  "vga_fill 0 i f b = b"
| "vga_fill (Suc n) i f b = vga_fill n (i + 1) f (b(i := f b i))"

definition clear_screen :: "'a vga_state_scheme \<Rightarrow> 'a vga_state_scheme" where
  "clear_screen s =
     (let s = s\<lparr>vga_buffer := vga_fill (80 * 25) 0 (\<lambda>b i. blank_cell) (vga_buffer s),
                cursor_row := 0, cursor_col := 0\<rparr>
      in update_cursor (cursor_row s) (cursor_col s) s)"

definition print_char_color :: "u8 \<Rightarrow> u8 \<Rightarrow> 'a vga_state_scheme \<Rightarrow> 'a vga_state_scheme" where
  "print_char_color c color s =
     (let s = (if c = 10 then s\<lparr>cursor_row := cursor_row s + 1, cursor_col := 0\<rparr>
               else s\<lparr>vga_buffer := (vga_buffer s)(cursor_row s * 80 + cursor_col s := vga_cell c color),
                      cursor_col := cursor_col s + 1\<rparr>);
          s = (if cursor_col s \<ge> 80 then s\<lparr>cursor_col := 0, cursor_row := cursor_row s + 1\<rparr> else s)
      in update_cursor (cursor_row s) (cursor_col s) s)"

text \<open>The three cases of \<^verbatim>\<open>print_char\<close>: backspace, newline, an ordinary character.\<close>

definition put_backspace :: "'a vga_state_scheme \<Rightarrow> 'a vga_state_scheme" where
  "put_backspace s =
     (let s = (if cursor_col s > 0 then s\<lparr>cursor_col := cursor_col s - 1\<rparr>
               else if cursor_row s > 0 then s\<lparr>cursor_row := cursor_row s - 1, cursor_col := 79\<rparr>
               else s)
      in s\<lparr>vga_buffer := (vga_buffer s)(cursor_row s * 80 + cursor_col s := blank_cell)\<rparr>)"

definition put_glyph :: "u8 \<Rightarrow> 'a vga_state_scheme \<Rightarrow> 'a vga_state_scheme" where
  "put_glyph c s =
     (if c = 8 then put_backspace s
      else if c = 10 then s\<lparr>cursor_row := cursor_row s + 1, cursor_col := 0\<rparr>
      else s\<lparr>vga_buffer := (vga_buffer s)(cursor_row s * 80 + cursor_col s := vga_cell c 0x0F),
             cursor_col := cursor_col s + 1\<rparr>)"

text \<open>Wrapping at the end of a line, and scrolling at the end of the screen.\<close>

definition wrap_line :: "'a vga_state_scheme \<Rightarrow> 'a vga_state_scheme" where
  "wrap_line s =
     (if cursor_col s \<ge> 80 then s\<lparr>cursor_col := 0, cursor_row := cursor_row s + 1\<rparr> else s)"

definition scroll_buffer :: "(int \<Rightarrow> u16) \<Rightarrow> int \<Rightarrow> u16" where
  "scroll_buffer b =
     vga_fill (25 * 80 - 24 * 80) (24 * 80) (\<lambda>b i. blank_cell)
       (vga_fill (24 * 80) 0 (\<lambda>b i. b (i + 80)) b)"

definition scroll :: "'a vga_state_scheme \<Rightarrow> 'a vga_state_scheme" where
  "scroll s =
     (if cursor_row s \<ge> 25
      then s\<lparr>vga_buffer := scroll_buffer (vga_buffer s), cursor_row := 24\<rparr> else s)"

definition print_char :: "u8 \<Rightarrow> 'a vga_state_scheme \<Rightarrow> 'a vga_state_scheme" where
  "print_char c s =
     (let s = scroll (wrap_line (put_glyph c (cli s)))
      in sti (update_cursor (cursor_row s) (cursor_col s) s))"

fun print_string :: "bytes \<Rightarrow> 'a vga_state_scheme \<Rightarrow> 'a vga_state_scheme option" where
  "print_string [] s = None"
| "print_string (c # cs) s = (if c \<noteq> 0 then print_string cs (print_char c s) else Some s)"

text \<open>Printing a string literal of the source.\<close>

definition print_lit :: "string \<Rightarrow> 'a vga_state_scheme \<Rightarrow> 'a vga_state_scheme" where
  "print_lit l s = foldl (\<lambda>s c. print_char c s) s (map chr l)"

definition hex_digit :: "u32 \<Rightarrow> u8" where
  "hex_digit nibble =
     (if nibble > 9 then ucast (nibble - 10 + 65) else ucast (nibble + 48))"

text \<open>The loop \<^verbatim>\<open>for (int i = 28; i >= 0; i -= 4)\<close> of \<^verbatim>\<open>print_hex\<close>.\<close>

definition hex_shifts :: "nat list" where
  "hex_shifts = [28, 24, 20, 16, 12, 8, 4, 0]"

definition print_hex :: "u32 \<Rightarrow> 'a vga_state_scheme \<Rightarrow> 'a vga_state_scheme" where
  "print_hex n s =
     foldl (\<lambda>s i. print_char (hex_digit (drop_bit i n AND 0xF)) s) (print_lit ''0x'' s) hex_shifts"

function print_dec :: "u32 \<Rightarrow> 'a vga_state_scheme \<Rightarrow> 'a vga_state_scheme" where
  "print_dec n s =
     (if n = 0 then print_char 48 s
      else let s = (if n \<ge> 10 then print_dec (n div 10) s else s)
           in print_char (ucast (n mod 10 + 48)) s)"
  by pat_completeness auto
termination
  by (relation "measure (\<lambda>(n, s). unat n)") (auto simp: unat_div word_le_nat_alt)

declare print_dec.simps [simp del]

definition pgos_art :: string where
  "pgos_art =
     CHR 0x0A #
     '' _______  _______  _______  _______ '' @ [CHR 0x0A] @
     ''|       ||       ||       ||       |'' @ [CHR 0x0A] @
     ''|    _  ||    ___||   _   ||  _____|'' @ [CHR 0x0A] @
     ''|   |_| ||   | __ |  | |  || |_____ '' @ [CHR 0x0A] @
     ''|    ___||   ||  ||  |_|  ||_____  |'' @ [CHR 0x0A] @
     ''|   |    |   |_| ||       | _____| |'' @ [CHR 0x0A] @
     ''|___|    |_______||_______||_______|'' @ [CHR 0x0A] @
     ''      Welcome to Pieters's OS!      '' @ [CHR 0x0A]"

definition print_bootscreen :: "'a vga_state_scheme \<Rightarrow> 'a vga_state_scheme" where
  "print_bootscreen s = foldl (\<lambda>s c. print_char_color c 0x09 s) s (map chr pgos_art)"

definition vga_get_cursor_row :: "'a vga_state_scheme \<Rightarrow> int" where
  "vga_get_cursor_row s = cursor_row s"

definition vga_get_cursor_col :: "'a vga_state_scheme \<Rightarrow> int" where
  "vga_get_cursor_col s = cursor_col s"

definition vga_set_cursor_pos :: "int \<Rightarrow> int \<Rightarrow> 'a vga_state_scheme \<Rightarrow> 'a vga_state_scheme" where
  "vga_set_cursor_pos row col s =
     (let s = s\<lparr>cursor_row := row, cursor_col := col\<rparr>
      in update_cursor (cursor_row s) (cursor_col s) s)"

section \<open>Frame facts\<close>

lemma update_cursor_frame [kernel_frame, simp]:
  "cursor_row (update_cursor r c s) = cursor_row s"
  "cursor_col (update_cursor r c s) = cursor_col s"
  "vga_buffer (update_cursor r c s) = vga_buffer s"
  "intr_flag (update_cursor r c s) = intr_flag s"
  by (simp_all add: update_cursor_def port_byte_out_def Let_def)

lemma cli_sti_frame [kernel_frame, simp]:
  "cursor_row (cli s) = cursor_row s" "cursor_col (cli s) = cursor_col s"
  "vga_buffer (cli s) = vga_buffer s" "cursor_row (sti s) = cursor_row s"
  "cursor_col (sti s) = cursor_col s" "vga_buffer (sti s) = vga_buffer s"
  "intr_flag (sti s) = True" "intr_flag (cli s) = False"
  by (simp_all add: cli_def sti_def)

section \<open>The loops over the video memory\<close>

lemma vga_fill_const:
  "vga_fill n i (\<lambda>b i. v) b = (\<lambda>k. if i \<le> k \<and> k < i + int n then v else b k)"
  by (induction n arbitrary: i b) (auto simp: fun_eq_iff)

lemma vga_fill_copy_up:
  "vga_fill n i (\<lambda>b i. b (i + 80)) b = (\<lambda>k. if i \<le> k \<and> k < i + int n then b (k + 80) else b k)"
  by (induction n arbitrary: i b) (auto simp: fun_eq_iff)

lemma scroll_buffer_eq:
  "scroll_buffer b =
     (\<lambda>k. if 0 \<le> k \<and> k < 1920 then b (k + 80) else if 1920 \<le> k \<and> k < 2000 then blank_cell else b k)"
  by (simp add: scroll_buffer_def vga_fill_const vga_fill_copy_up fun_eq_iff)

section \<open>The abstract terminal\<close>

text \<open>
  The driver promises a terminal with one linear position on 25 lines of 80 cells. The
  abstract state is the video memory together with that position.
\<close>

definition vga_inv :: "'a vga_state_scheme \<Rightarrow> bool" where
  "vga_inv s \<longleftrightarrow> 0 \<le> cursor_row s \<and> cursor_row s < 25 \<and> 0 \<le> cursor_col s \<and> cursor_col s < 80"

definition vga_view :: "'a vga_state_scheme \<Rightarrow> (int \<Rightarrow> u16) \<times> int" where
  "vga_view s = (vga_buffer s, cursor_row s * 80 + cursor_col s)"

definition term_blank :: u16 where "term_blank = 0x0F20"

text \<open>
  A character cell: white on black. A byte of 128 or more is a negative \<^verbatim>\<open>char\<close>, whose sign
  extension covers the attribute.
\<close>

definition term_cell :: "u8 \<Rightarrow> u16" where
  "term_cell c = (if c < 128 then 0x0F00 else 0xFF00) OR ucast c"

text \<open>Leaving the screen moves the lines 1 to 24 up by one line and blanks the last one.\<close>

definition term_advance :: "(int \<Rightarrow> u16) \<times> int \<Rightarrow> (int \<Rightarrow> u16) \<times> int" where
  "term_advance t =
     (case t of (b, p) \<Rightarrow>
        if p < 2000 then (b, p)
        else (\<lambda>k. if k < 0 \<or> 2000 \<le> k then b k else if k < 1920 then b (k + 80) else term_blank, 1920))"

definition term_put :: "u8 \<Rightarrow> (int \<Rightarrow> u16) \<times> int \<Rightarrow> (int \<Rightarrow> u16) \<times> int" where
  "term_put c t =
     (case t of (b, p) \<Rightarrow>
        if c = 8 then (b(max 0 (p - 1) := term_blank), max 0 (p - 1))
        else if c = 10 then term_advance (b, (p div 80 + 1) * 80)
        else term_advance (b(p := term_cell c), p + 1))"

lemma term_cell_eq: "vga_cell c 0x0F = term_cell c"
  unfolding term_cell_def
proof (rule bit_word_eqI)
  fix n assume "n < LENGTH(16)"
  then have "n < 16" by simp
  then obtain q r where "n = 4 * q + r" "q \<in> {0, 1, 2, 3}" "r \<in> {0, 1, 2, 3}" by (rule digits4)
  then show "bit (vga_cell c 0x0F) n = bit ((if c < 128 then 0x0F00 else 0xFF00) OR ucast c :: u16) n"
    using high_bit [of c] bit_imp_le_length [of c n]
    by (elim insertE emptyE) (simp_all add: vga_cell_def bit_simps bit_numeral_rec, auto simp: not_le)
qed

lemma term_blank_eq: "blank_cell = term_blank"
  unfolding blank_cell_def term_cell_eq by (simp add: term_blank_def term_cell_def chr_def)

lemma scroll_buffer_term:
  "scroll_buffer b = (\<lambda>k. if k < 0 \<or> 2000 \<le> k then b k else if k < 1920 then b (k + 80) else term_blank)"
  by (auto simp: scroll_buffer_eq term_blank_eq fun_eq_iff)

lemma vga_inv_pos: "vga_inv s \<Longrightarrow> 0 \<le> snd (vga_view s) \<and> snd (vga_view s) < 2000"
  by (auto simp: vga_inv_def vga_view_def)

lemma print_char_inv [kernel_inv]: "vga_inv s \<Longrightarrow> vga_inv (print_char c s)"
  by (auto simp: vga_inv_def print_char_def put_glyph_def put_backspace_def wrap_line_def
      scroll_def Let_def)

lemma print_char_view:
  assumes "vga_inv s"
  shows "vga_view (print_char c s) = term_put c (vga_view s)"
proof -
  have row: "(cursor_row s * 80 + cursor_col s) div 80 = cursor_row s"
    using assms by (simp add: vga_inv_def)
  have pos: "cursor_row s * 80 + cursor_col s < 2000"
    using assms by (auto simp: vga_inv_def)
  consider "c = 8" | "c = 10" | "c \<noteq> 8" "c \<noteq> 10" by blast
  then show ?thesis
  proof cases
    case 1
    with assms pos show ?thesis
      by (auto simp: term_blank_eq term_cell_eq scroll_buffer_term vga_view_def term_put_def vga_inv_def print_char_def put_glyph_def
          put_backspace_def wrap_line_def scroll_def Let_def max_def)
  next
    case 2
    with assms row show ?thesis
      by (auto simp: term_blank_eq term_cell_eq scroll_buffer_term vga_view_def term_put_def term_advance_def vga_inv_def print_char_def
          put_glyph_def wrap_line_def scroll_def Let_def)
  next
    case 3
    with assms show ?thesis
      by (auto simp: term_blank_eq term_cell_eq scroll_buffer_term vga_view_def term_put_def term_advance_def vga_inv_def print_char_def
          put_glyph_def wrap_line_def scroll_def Let_def)
  qed
qed

section \<open>Strings and numbers\<close>

definition print_chars :: "bytes \<Rightarrow> 'a vga_state_scheme \<Rightarrow> 'a vga_state_scheme" where
  "print_chars cs s = foldl (\<lambda>s c. print_char c s) s cs"

lemma print_chars_simps [simp]:
  "print_chars [] s = s"
  "print_chars (c # cs) s = print_chars cs (print_char c s)"
  "print_chars (cs @ ds) s = print_chars ds (print_chars cs s)"
  by (simp_all add: print_chars_def)

text \<open>Printing changes nothing beyond the screen, the ports and the interrupt flag.\<close>

lemma print_char_more [kernel_frame, simp]: "vga_state.more (print_char c s) = vga_state.more s"
  by (simp add: print_char_def scroll_def wrap_line_def put_glyph_def put_backspace_def update_cursor_def
      cli_def sti_def port_byte_out_def Let_def)

lemma print_chars_more [kernel_frame, simp]: "vga_state.more (print_chars cs s) = vga_state.more s"
  by (induction cs arbitrary: s) simp_all

lemma print_lit_chars: "print_lit l s = print_chars (map chr l) s"
  by (simp add: print_lit_def print_chars_def)

lemma print_string_text: "print_string p s = map_option (\<lambda>t. print_chars t s) (text_of p)"
  by (induction p s rule: print_string.induct) (auto simp: option.map_comp o_def)

lemma print_chars_inv [kernel_inv]: "vga_inv s \<Longrightarrow> vga_inv (print_chars cs s)"
  by (induction cs arbitrary: s) (auto simp: print_char_inv)

lemma print_chars_view: "vga_inv s \<Longrightarrow> vga_view (print_chars cs s) = foldl (\<lambda>t c. term_put c t) (vga_view s) cs"
  by (induction cs arbitrary: s) (simp_all add: print_char_inv print_char_view)

fun dec_digits :: "nat \<Rightarrow> bytes" where
  "dec_digits n =
     (if n < 10 then [of_nat (n + 48)] else dec_digits (n div 10) @ [of_nat (n mod 10 + 48)])"

declare dec_digits.simps [simp del]

lemma dec_char: "(ucast ((n :: u32) mod 10 + 48) :: u8) = of_nat (unat n mod 10 + 48)"
proof -
  have "unat (n mod 10 + 48) = unat n mod 10 + 48"
    by (simp add: unat_plus_u32 unat_mod)
  then show ?thesis
    by (metis of_nat_unat)
qed

lemma print_dec_digits: "print_dec n s = print_chars (dec_digits (unat n)) s"
proof (induction n s rule: print_dec.induct)
  case (1 n s)
  consider "n = 0" | "n \<noteq> 0" "n < 10" | "n \<ge> 10" by (meson leI)
  then show ?case
  proof cases
    case 1
    then show ?thesis by (simp add: print_dec.simps [of 0 s] dec_digits.simps [of 0])
  next
    case 2
    then have "unat n < 10" by (simp add: word_less_nat_alt)
    with 2 show ?thesis
      by (simp add: print_dec.simps [of n] dec_digits.simps [of "unat n"] dec_char not_le)
  next
    case 3
    then have "10 \<le> unat n" "n \<noteq> 0" by (auto simp: word_le_nat_alt)
    with 3 1 show ?thesis
      by (simp add: print_dec.simps [of n] dec_digits.simps [of "unat n"] dec_char unat_div)
  qed
qed

lemma atoi_loop_digit:
  assumes "d < 10"
  shows "atoi_loop r (of_nat (d + 48) # cs) = atoi_loop (r * 10 + of_nat d) cs"
proof -
  have "d \<in> {0, 1, 2, 3, 4, 5, 6, 7, 8, 9}" using assms by auto
  then show ?thesis by (auto simp: chr_def) (simp_all add: add.commute)
qed

lemma atoi_loop_digits:
  "atoi_loop 0 (dec_digits n @ cs) = atoi_loop (of_nat n) cs"
proof (induction n arbitrary: cs rule: dec_digits.induct)
  case (1 n)
  show ?case
  proof (cases "n < 10")
    case True
    then show ?thesis
      using atoi_loop_digit [OF True, of 0 cs] by (simp add: dec_digits.simps [of n])
  next
    case False
    have n: "of_nat (n div 10) * 10 + of_nat (n mod 10) = (of_nat n :: u32)"
      by (metis div_mult_mod_eq of_nat_add of_nat_mult of_nat_numeral)
    have "atoi_loop 0 (dec_digits n @ cs)
        = atoi_loop 0 (dec_digits (n div 10) @ of_nat (n mod 10 + 48) # cs)"
      using False by (simp add: dec_digits.simps [of n])
    also have "\<dots> = atoi_loop (of_nat n) cs"
      using 1 [OF False] atoi_loop_digit [of "n mod 10" "of_nat (n div 10)" cs] n by simp
    finally show ?thesis .
  qed
qed

definition hex_chars :: "u32 \<Rightarrow> bytes" where
  "hex_chars n = map (\<lambda>i. hex_digit (drop_bit i n AND 0xF)) hex_shifts"

lemma print_hex_chars: "print_hex n s = print_chars (map chr ''0x'' @ hex_chars n) s"
  by (simp add: print_hex_def hex_chars_def hex_shifts_def print_lit_chars)

lemma update_cursor_trace:
  assumes "0 \<le> row * 80 + col" and "row * 80 + col < 65536"
  shows "\<exists>hi lo. io_trace (update_cursor row col s) =
       io_trace s @ [OutB 0x3D4 0x0E, OutB 0x3D5 hi, OutB 0x3D4 0x0F, OutB 0x3D5 lo] \<and>
       256 * uint hi + uint lo = row * 80 + col"
proof -
  let ?p = "word_of_int (row * 80 + col) :: u16"
  have "uint ?p = row * 80 + col"
    using assms by (rule uint_of_int_u16)
  then show ?thesis
    using split_u16 [of ?p]
    by (intro exI [of _ "ucast (drop_bit 8 ?p)"] exI [of _ "ucast (?p AND 0xFF)"])
      (simp add: update_cursor_def port_byte_out_def Let_def)
qed

lemma print_char_trace:
  assumes "vga_inv s"
  shows "\<exists>hi lo. io_trace (print_char c s) =
       io_trace s @ [OutB 0x3D4 0x0E, OutB 0x3D5 hi, OutB 0x3D4 0x0F, OutB 0x3D5 lo] \<and>
       256 * uint hi + uint lo = snd (vga_view (print_char c s))"
proof -
  let ?s = "scroll (wrap_line (put_glyph c (cli s)))"
  have eq: "print_char c s = sti (update_cursor (cursor_row ?s) (cursor_col ?s) ?s)"
    by (simp add: print_char_def Let_def)
  have tr: "io_trace ?s = io_trace s"
    by (simp add: scroll_def wrap_line_def put_glyph_def put_backspace_def cli_def Let_def)
  have pos: "snd (vga_view (print_char c s)) = cursor_row ?s * 80 + cursor_col ?s"
    by (simp add: vga_view_def eq)
  have "0 \<le> cursor_row ?s * 80 + cursor_col ?s" "cursor_row ?s * 80 + cursor_col ?s < 65536"
    using vga_inv_pos [OF print_char_inv [OF assms, of c]] pos by simp_all
  from update_cursor_trace [OF this, of ?s] show ?thesis
    unfolding pos using tr by (simp add: eq sti_def)
qed

lemma print_plain:
  "vga_inv s \<Longrightarrow> {8, 10} \<inter> set cs = {} \<Longrightarrow> snd (vga_view s) + int (length cs) < 2000 \<Longrightarrow>
     vga_buffer (print_chars cs s) k =
       (if snd (vga_view s) \<le> k \<and> k < snd (vga_view s) + int (length cs)
        then term_cell (cs ! nat (k - snd (vga_view s))) else vga_buffer s k) \<and>
     snd (vga_view (print_chars cs s)) = snd (vga_view s) + int (length cs)"
proof (induction cs arbitrary: s)
  case Nil
  then show ?case by auto
next
  case (Cons c cs)
  let ?p = "snd (vga_view s)"
  let ?s = "print_char c s"
  have "vga_view ?s = ((fst (vga_view s))(?p := term_cell c), ?p + 1)"
    using Cons.prems
    by (auto simp: print_char_view term_put_def term_advance_def split: prod.splits)
  then have s: "vga_buffer ?s = (vga_buffer s)(?p := term_cell c)" "snd (vga_view ?s) = ?p + 1"
    by (simp_all add: vga_view_def)
  have "{8, 10} \<inter> set cs = {}" "snd (vga_view ?s) + int (length cs) < 2000"
    using Cons.prems s by auto
  note IH = Cons.IH [OF print_char_inv [OF Cons.prems(1)] this]
  have idx: "nat (k - (?p + 1)) = nat (k - ?p) - Suc 0" by arith
  from IH show ?case unfolding s(2) idx using s(1)
    by (auto simp: nth_Cons')
qed

section \<open>Properties of the driver\<close>

text \<open>C19. \<^verbatim>\<open>print_char\<close> (vga.c) implements the abstract terminal: with the cursor on the
  screen, every ASCII character has exactly the effect of \<^verbatim>\<open>term_put\<close> on the video memory and the
  linear cursor position: backspace moves back by one cell and blanks it, newline moves to
  the start of the next line, any other character is written white on black and advances,
  and leaving the screen moves every line up by one, blanks the last line and continues
  there. The cursor stays on the screen, nothing outside the 2000 cells of the screen is
  written, the hardware cursor registers receive the new position, and interrupts are
  enabled on return.\<close>

theorem print_char_terminal:
  assumes "vga_inv s" and "c < 128"
  shows "vga_inv (print_char c s) \<and>
     (let b = vga_buffer s; p = cursor_row s * 80 + cursor_col s;
          b' = vga_buffer (print_char c s);
          p' = cursor_row (print_char c s) * 80 + cursor_col (print_char c s)
      in (b', p') = term_put c (b, p) \<and>
         (c \<noteq> 8 \<and> c \<noteq> 10 \<and> p < 1999 \<longrightarrow> b' = b(p := 0x0F00 OR ucast c) \<and> p' = p + 1) \<and>
         (\<forall>k. k < 0 \<or> 2000 \<le> k \<longrightarrow> b' k = b k) \<and>
         (\<exists>hi lo. io_trace (print_char c s) =
            io_trace s @ [OutB 0x3D4 0x0E, OutB 0x3D5 hi, OutB 0x3D4 0x0F, OutB 0x3D5 lo] \<and>
            256 * uint hi + uint lo = p')) \<and>
     intr_flag (print_char c s)"
proof -
  note view = print_char_view [OF assms(1), of c]
  have pos: "0 \<le> snd (vga_view s)" "snd (vga_view s) < 2000"
    using vga_inv_pos [OF assms(1)] by simp_all
  have b: "vga_buffer (print_char c s) = fst (term_put c (vga_view s))"
    and p: "cursor_row (print_char c s) * 80 + cursor_col (print_char c s) = snd (term_put c (vga_view s))"
    using view by (simp_all add: vga_view_def prod_eq_iff)
  have out: "\<forall>k. k < 0 \<or> 2000 \<le> k \<longrightarrow> vga_buffer (print_char c s) k = vga_buffer s k"
    unfolding b using pos by (auto simp: term_put_def term_advance_def vga_view_def max_def)
  have "intr_flag (print_char c s)" by (simp add: print_char_def Let_def)
  then show ?thesis
    using view print_char_inv [OF assms(1), of c] print_char_trace [OF assms(1), of c] out assms(2) b p
    by (simp add: Let_def vga_view_def term_put_def term_advance_def term_cell_def)
qed

theorem print_char_terminal_witness:
  "let s = \<lparr>io_trace = [], intr_flag = False, cursor_row = 24, cursor_col = 79,
            vga_buffer = (\<lambda>k. if k = 80 then 0x0F41 else 0x0F20)\<rparr>;
       s' = print_char (chr CHR ''x'') s
   in vga_inv s' \<and> vga_buffer s' 0 = 0x0F41 \<and> vga_buffer s' 1919 = 0x0F78 \<and> vga_buffer s' 1920 = 0x0F20 \<and>
      cursor_row s' * 80 + cursor_col s' = 1920"
proof -
  let ?s = "\<lparr>io_trace = [], intr_flag = False, cursor_row = 24, cursor_col = 79,
            vga_buffer = (\<lambda>k. if k = 80 then 0x0F41 else 0x0F20)\<rparr> :: vga_state"
  have "vga_inv ?s" "chr CHR ''x'' < 128" by (simp_all add: vga_inv_def chr_def)
  from print_char_terminal [OF this] show ?thesis
    by (auto simp: Let_def term_put_def term_advance_def term_cell_def term_blank_def chr_def)
qed

text \<open>\<^verbatim>\<open>print_string\<close> (vga.c) on a NUL-terminated text without control characters that
  fits on the rest of the screen returns, writes the characters in order from the cursor
  position on in the standard colour, changes no other cell and leaves the cursor right
  behind the text.\<close>

theorem print_string_plain:
  assumes "vga_inv s" and "text_of p = Some t" and "{8, 10} \<inter> set t = {}"
    and "snd (vga_view s) + int (length t) < 2000"
  shows "\<exists>s'. print_string p s = Some s' \<and> vga_inv s' \<and>
     (\<forall>k. vga_buffer s' k =
        (if snd (vga_view s) \<le> k \<and> k < snd (vga_view s) + int (length t)
         then term_cell (t ! nat (k - snd (vga_view s))) else vga_buffer s k)) \<and>
     snd (vga_view s') = snd (vga_view s) + int (length t)"
  using print_plain [OF assms(1,3,4)] print_chars_inv [OF assms(1)] assms(2)
  by (simp add: print_string_text)

theorem print_string_plain_witness:
  "\<exists>s'. print_string (cstr ''ok'')
       \<lparr>io_trace = [], intr_flag = False, cursor_row = 1, cursor_col = 0, vga_buffer = (\<lambda>k. 0)\<rparr> = Some s' \<and>
     vga_buffer s' 81 = term_cell (chr CHR ''k'')"
proof -
  let ?s = "\<lparr>io_trace = [], intr_flag = False, cursor_row = 1, cursor_col = 0,
             vga_buffer = (\<lambda>k. 0)\<rparr> :: vga_state"
  have "vga_inv ?s" "text_of (cstr ''ok'') = Some (map chr ''ok'')"
    "{8, 10} \<inter> set (map chr ''ok'') = {}"
    "snd (vga_view ?s) + int (length (map chr ''ok'')) < 2000"
    by (simp_all add: vga_inv_def cstr_def chr_def vga_view_def)
  from print_string_plain [OF this] show ?thesis
    by (auto simp: vga_view_def)
qed

text \<open>C28. \<^verbatim>\<open>print_dec\<close> (vga.c) and \<^verbatim>\<open>atoi\<close> (string.c) are inverse to each other: the
  characters that \<^verbatim>\<open>print_dec\<close> prints for any 32-bit value, read back as a C string, give the
  same value.\<close>

theorem print_dec_atoi:
  "\<exists>cs. print_dec n s = print_chars cs s \<and> atoi (cs @ [0]) = Some n"
  by (rule exI [of _ "dec_digits (unat n)"])
    (simp add: print_dec_digits atoi_def atoi_loop_digits)

end
