(* ===== verification/Process.thy ===== *)
theory Process
  imports CString "HOL-Library.Monad_Syntax"
begin

text \<open>
  The process table and the scheduler: \<^verbatim>\<open>include/kernel/cpu/process.h\<close> and the parts of
  \<^verbatim>\<open>kernel/cpu/process.c\<close> that work on process control blocks, with the context switch of
  \<^verbatim>\<open>kernel/cpu/switch.asm\<close> that the timer interrupt calls.

  The pointer \<^verbatim>\<open>current_task\<close> always points into the process table, so it is an index or
  \<^term>\<open>None\<close> for NULL. Pointers to stacks and page directories are their addresses.
\<close>

section \<open>Data\<close>

definition MAX_ARGS :: nat where "MAX_ARGS = 16"
definition MAX_PROCESSES :: nat where "MAX_PROCESSES = 16"
definition PROCESS_NAME_LEN :: nat where "PROCESS_NAME_LEN = 32"
definition USER_STACK_TOP :: u32 where "USER_STACK_TOP = 0xC0000000"

datatype task_state_t =
    TASK_STATE_UNUSED | TASK_STATE_RUNNING | TASK_STATE_SLEEPING
  | TASK_STATE_WAITING | TASK_STATE_ZOMBIE

record registers_t =
  r_gs :: u32  r_fs :: u32  r_es :: u32  r_ds :: u32
  r_edi :: u32  r_esi :: u32  r_ebp :: u32  r_esp :: u32
  r_ebx :: u32  r_edx :: u32  r_ecx :: u32  r_eax :: u32
  r_int_no :: u32  r_err_code :: u32
  r_eip :: u32  r_cs :: u32  r_eflags :: u32  r_useresp :: u32  r_ss :: u32

record cpu_state_t =
  c_edi :: u32  c_esi :: u32  c_ebp :: u32  c_ebx :: u32  c_edx :: u32  c_ecx :: u32
  c_eax :: u32  c_eip :: u32  c_cs :: u32  c_eflags :: u32  c_esp :: u32  c_ss :: u32
  c_cr3 :: u32

record task_struct_t =
  pid :: int
  state :: task_state_t
  name :: bytes
  user_stack :: u32
  kernel_stack :: u32
  page_directory :: u32
  cpu_state :: cpu_state_t
  wakeup_time :: u32

record proc_state =
  process_table :: "task_struct_t list"
  current_task :: "nat option"
  tss_esp0 :: u32
  multitasking_enabled :: bool

text \<open>The effect of \<^verbatim>\<open>memset(..., 0, ...)\<close> on a saved context and on a control block.\<close>

definition zero_cpu_state :: cpu_state_t where
  "zero_cpu_state = \<lparr>c_edi = 0, c_esi = 0, c_ebp = 0, c_ebx = 0, c_edx = 0, c_ecx = 0, c_eax = 0,
     c_eip = 0, c_cs = 0, c_eflags = 0, c_esp = 0, c_ss = 0, c_cr3 = 0\<rparr>"

definition zero_task :: task_struct_t where
  "zero_task = \<lparr>pid = 0, state = TASK_STATE_UNUSED, name = replicate PROCESS_NAME_LEN 0,
     user_stack = 0, kernel_stack = 0, page_directory = 0, cpu_state = zero_cpu_state,
     wakeup_time = 0\<rparr>"

definition update_task :: "nat \<Rightarrow> (task_struct_t \<Rightarrow> task_struct_t) \<Rightarrow> 'a proc_state_scheme \<Rightarrow> 'a proc_state_scheme" where
  "update_task i f s = s\<lparr>process_table := (process_table s)[i := f (process_table s ! i)]\<rparr>"

section \<open>Initialisation and slots\<close>

text \<open>
  The writes of \<^verbatim>\<open>process_init\<close> to the process table, with the addresses of its two \<^verbatim>\<open>malloc\<close>ed
  stacks and of the entry points \<^verbatim>\<open>idle_task\<close> and \<^verbatim>\<open>shell_task\<close> as arguments; the two calls of
  \<^verbatim>\<open>malloc\<close> come before it in \<^verbatim>\<open>install_processes\<close> of the theory Boot. \<^verbatim>\<open>strncpy\<close> into a 32-byte name field.
\<close>

definition set_name :: "bytes \<Rightarrow> task_struct_t \<Rightarrow> task_struct_t option" where
  "set_name src t = map_option (\<lambda>n. t\<lparr>name := n\<rparr>) (strncpy (name t) src PROCESS_NAME_LEN)"

definition kernel_task ::
    "int \<Rightarrow> bytes \<Rightarrow> u32 \<Rightarrow> u32 \<Rightarrow> u32 \<Rightarrow> task_struct_t \<Rightarrow> task_struct_t option" where
  "kernel_task p nm entry stack kernel_directory t =
     map_option
       (\<lambda>t. t\<lparr>page_directory := kernel_directory,
              cpu_state := zero_cpu_state\<lparr>c_eip := entry, c_cs := 0x08, c_ss := 0x10,
                c_eflags := 0x202, c_esp := stack + 4096, c_cr3 := kernel_directory\<rparr>\<rparr>)
       (set_name nm (t\<lparr>pid := p, state := TASK_STATE_RUNNING\<rparr>))"

definition process_init ::
    "u32 \<Rightarrow> u32 \<Rightarrow> u32 \<Rightarrow> u32 \<Rightarrow> u32 \<Rightarrow> 'a proc_state_scheme \<Rightarrow> 'a proc_state_scheme option" where
  "process_init stack_a stack_b idle_task shell_task kernel_directory s =
     do {
       let tbl = replicate MAX_PROCESSES zero_task;
       t0 \<leftarrow> kernel_task 0 (cstr ''idle'') idle_task stack_a kernel_directory (tbl ! 0);
       t1 \<leftarrow> kernel_task 1 (cstr ''shell'') shell_task stack_b kernel_directory (tbl ! 1);
       Some (s\<lparr>process_table := tbl[0 := t0, 1 := t1], current_task := Some 0\<rparr>)
     }"

text \<open>The search for a free slot in \<^verbatim>\<open>exec_program\<close>: \<^verbatim>\<open>n\<close> slots from \<^verbatim>\<open>i\<close> on.\<close>

fun find_unused :: "task_struct_t list \<Rightarrow> nat \<Rightarrow> nat \<Rightarrow> nat option" where
  "find_unused tbl i 0 = None"
| "find_unused tbl i (Suc n) =
     (if state (tbl ! i) = TASK_STATE_UNUSED then Some i else find_unused tbl (Suc i) n)"

text \<open>The control block that \<^verbatim>\<open>exec_program\<close> fills in for a new user task.\<close>

definition user_task ::
    "nat \<Rightarrow> bytes \<Rightarrow> u32 \<Rightarrow> u32 \<Rightarrow> u32 \<Rightarrow> u32 \<Rightarrow> task_struct_t \<Rightarrow> task_struct_t option" where
  "user_task new_pid filename kstack new_dir entry user_stack_ptr t =
     map_option
       (\<lambda>t. t\<lparr>user_stack := USER_STACK_TOP, kernel_stack := kstack, page_directory := new_dir,
              cpu_state := zero_cpu_state\<lparr>c_eip := entry, c_esp := user_stack_ptr, c_cs := 0x1B,
                c_ss := 0x23, c_eflags := 0x202, c_cr3 := new_dir\<rparr>\<rparr>)
       (set_name filename (t\<lparr>pid := int new_pid, state := TASK_STATE_RUNNING\<rparr>))"

text \<open>Clearing the control block of a reaped task (the \<^verbatim>\<open>kill\<close> command of shell.c).\<close>

definition reap_task :: "nat \<Rightarrow> 'a proc_state_scheme \<Rightarrow> 'a proc_state_scheme" where
  "reap_task i s = update_task i (\<lambda>t. zero_task\<lparr>state := TASK_STATE_UNUSED\<rparr>) s"

section \<open>The scheduler\<close>

definition save_context :: "registers_t \<Rightarrow> task_struct_t \<Rightarrow> task_struct_t" where
  "save_context r t =
     (let c = (cpu_state t)\<lparr>c_eax := r_eax r, c_ecx := r_ecx r, c_edx := r_edx r, c_ebx := r_ebx r,
                c_ebp := r_ebp r, c_esi := r_esi r, c_edi := r_edi r, c_eip := r_eip r,
                c_cs := r_cs r, c_eflags := r_eflags r, c_cr3 := page_directory t\<rparr>;
          c = (if r_cs r = 0x1B then c\<lparr>c_esp := r_useresp r, c_ss := r_ss r\<rparr>
               else c\<lparr>c_esp := r_esp r, c_ss := 0x10\<rparr>)
      in t\<lparr>cpu_state := c\<rparr>)"

text \<open>The loop that looks for the next runnable task, \<^verbatim>\<open>n\<close> iterations to go.\<close>

fun find_next :: "task_struct_t list \<Rightarrow> nat \<Rightarrow> int \<Rightarrow> nat option" where
  "find_next tbl 0 next_pid = None"
| "find_next tbl (Suc n) next_pid =
     (let next_pid = (next_pid + 1) mod int MAX_PROCESSES
      in if state (tbl ! nat next_pid) = TASK_STATE_RUNNING then Some (nat next_pid)
         else find_next tbl n next_pid)"

definition switch_to :: "nat \<Rightarrow> 'a proc_state_scheme \<Rightarrow> 'a proc_state_scheme" where
  "switch_to i s =
     s\<lparr>current_task := Some i, tss_esp0 := kernel_stack (process_table s ! i) + 4096\<rparr>"

text \<open>
  \<^verbatim>\<open>schedule\<close>: the result is the state with the chosen task as the current one, whose saved
  context the caller loads; \<^term>\<open>None\<close> is the endless halt when there is no current task.
\<close>

definition schedule :: "registers_t \<Rightarrow> 'a proc_state_scheme \<Rightarrow> 'a proc_state_scheme option" where
  "schedule r s =
     (case current_task s of
        None \<Rightarrow> None
      | Some cur \<Rightarrow>
          let s = (if state (process_table s ! cur) \<noteq> TASK_STATE_ZOMBIE
                   then update_task cur (save_context r) s else s)
          in case find_next (process_table s) MAX_PROCESSES (pid (process_table s ! cur)) of
               Some i \<Rightarrow> Some (switch_to i s)
             | None \<Rightarrow> Some (switch_to 0 s))"

text \<open>
  The part of \<^verbatim>\<open>task_switch\<close> (switch.asm) that overwrites the interrupt frame with the saved
  context of the chosen task; the segment registers, the \<^verbatim>\<open>pusha\<close> stack pointer, the
  interrupt number and the error code stay.
\<close>

definition load_context :: "cpu_state_t \<Rightarrow> registers_t \<Rightarrow> registers_t" where
  "load_context c r =
     r\<lparr>r_edi := c_edi c, r_esi := c_esi c, r_ebp := c_ebp c, r_ebx := c_ebx c, r_edx := c_edx c,
       r_ecx := c_ecx c, r_eax := c_eax c, r_eip := c_eip c, r_cs := c_cs c,
       r_eflags := c_eflags c, r_useresp := c_esp c, r_ss := c_ss c\<rparr>"

section \<open>Invariant\<close>

text \<open>
  The table has sixteen slots, the current task is one that is in use, a slot in use
  carries its index as its process number, and the idle task in slot 0 can always run.
\<close>

definition proc_inv :: "'a proc_state_scheme \<Rightarrow> bool" where
  "proc_inv s \<longleftrightarrow>
     length (process_table s) = 16 \<and>
     (\<forall>i < 16. state (process_table s ! i) \<noteq> TASK_STATE_UNUSED \<longrightarrow> pid (process_table s ! i) = int i) \<and>
     state (process_table s ! 0) = TASK_STATE_RUNNING \<and>
     (\<exists>c < 16. current_task s = Some c \<and> state (process_table s ! c) \<noteq> TASK_STATE_UNUSED)"

definition runnable :: "'a proc_state_scheme \<Rightarrow> nat \<Rightarrow> bool" where
  "runnable s i \<longleftrightarrow> state (process_table s ! i) = TASK_STATE_RUNNING"

lemma proc_invE:
  assumes "proc_inv s"
  obtains c where "c < 16" "current_task s = Some c" "length (process_table s) = 16"
    "pid (process_table s ! c) = int c" "state (process_table s ! c) \<noteq> TASK_STATE_UNUSED" "runnable s 0"
  using assms that unfolding proc_inv_def runnable_def by auto

lemma set_name_text: "length (name t) = 32 \<Longrightarrow> text_of src = Some nm \<Longrightarrow>
    set_name src t = Some (t\<lparr>name := take 32 nm @ replicate (32 - length nm) 0\<rparr>)"
  by (simp add: set_name_def strncpy_text PROCESS_NAME_LEN_def)

lemma cstr_text: "0 \<notin> set (map chr l) \<Longrightarrow> text_of (cstr l) = Some (map chr l)"
  by (simp add: cstr_def)

section \<open>Round-robin search\<close>

lemma find_next_cases:
  "case find_next tbl n (int c) of
     None \<Rightarrow> \<forall>k. 1 \<le> k \<and> k \<le> n \<longrightarrow> state (tbl ! ((c + k) mod 16)) \<noteq> TASK_STATE_RUNNING
   | Some i \<Rightarrow> \<exists>k. 1 \<le> k \<and> k \<le> n \<and> i = (c + k) mod 16 \<and> state (tbl ! i) = TASK_STATE_RUNNING \<and>
       (\<forall>j. 1 \<le> j \<and> j < k \<longrightarrow> state (tbl ! ((c + j) mod 16)) \<noteq> TASK_STATE_RUNNING)"
proof (induction n arbitrary: c)
  case 0
  then show ?case by simp
next
  case (Suc n)
  let ?q = "Suc c mod 16"
  have q: "nat ((int c + 1) mod int MAX_PROCESSES) = ?q" "(int c + 1) mod int MAX_PROCESSES = int ?q"
    by (simp_all add: MAX_PROCESSES_def zmod_int nat_mod_distrib nat_add_distrib add.commute)
  have shift: "(?q + k) mod 16 = (c + Suc k) mod 16" for k
    by (simp add: mod_add_left_eq)
  show ?case
  proof (cases "state (tbl ! ?q) = TASK_STATE_RUNNING")
    case True
    then have "find_next tbl (Suc n) (int c) = Some ?q"
      by (simp only: find_next.simps Let_def q nat_int if_True refl)
    moreover have "\<not> (1 \<le> j \<and> j < (1::nat))" for j by simp
    ultimately show ?thesis
      using True by (simp only: option.case) (rule exI [of _ 1], simp)
  next
    case False
    then have eq: "find_next tbl (Suc n) (int c) = find_next tbl n (int ?q)"
      by (simp only: find_next.simps Let_def q nat_int if_False)
    have first: "state (tbl ! ((c + 1) mod 16)) \<noteq> TASK_STATE_RUNNING" using False by simp
    show ?thesis
    proof (cases "find_next tbl n (int ?q)")
      case None
      with Suc.IH [of ?q] have
        none: "\<And>k. 1 \<le> k \<Longrightarrow> k \<le> n \<Longrightarrow> state (tbl ! ((c + Suc k) mod 16)) \<noteq> TASK_STATE_RUNNING"
        by (simp add: shift)
      have "state (tbl ! ((c + k) mod 16)) \<noteq> TASK_STATE_RUNNING" if "1 \<le> k" "k \<le> Suc n" for k
        using that first none [of "k - 1"] by (cases "k = 1") auto
      with None eq show ?thesis by simp
    next
      case (Some i)
      with Suc.IH [of ?q] obtain k where
        k: "1 \<le> k" "k \<le> n" "i = (c + Suc k) mod 16" "state (tbl ! i) = TASK_STATE_RUNNING"
          "\<And>j. 1 \<le> j \<Longrightarrow> j < k \<Longrightarrow> state (tbl ! ((c + Suc j) mod 16)) \<noteq> TASK_STATE_RUNNING"
        by (auto simp: shift)
      have "state (tbl ! ((c + j) mod 16)) \<noteq> TASK_STATE_RUNNING" if "1 \<le> j" "j < Suc k" for j
        using that first k(5) [of "j - 1"] by (cases "j = 1") auto
      with k Some eq show ?thesis by (auto intro!: exI [of _ "Suc k"])
    qed
  qed
qed

lemma find_next_idle:
  assumes "state (tbl ! 0) = TASK_STATE_RUNNING" and "c < 16"
  obtains k where "1 \<le> k" "k \<le> 16" "find_next tbl MAX_PROCESSES (int c) = Some ((c + k) mod 16)"
    "state (tbl ! ((c + k) mod 16)) = TASK_STATE_RUNNING"
    "\<forall>j. 1 \<le> j \<and> j < k \<longrightarrow> state (tbl ! ((c + j) mod 16)) \<noteq> TASK_STATE_RUNNING"
proof (cases "find_next tbl MAX_PROCESSES (int c)")
  case None
  with find_next_cases [where tbl = tbl and n = 16 and c = c] have
    "\<forall>k. 1 \<le> k \<and> k \<le> 16 \<longrightarrow> state (tbl ! ((c + k) mod 16)) \<noteq> TASK_STATE_RUNNING"
    by (simp add: MAX_PROCESSES_def)
  from this [rule_format, of "16 - c"] assms show thesis by (simp add: Suc_le_eq)
next
  case (Some i)
  with find_next_cases [where tbl = tbl and n = 16 and c = c] that show thesis
    by (auto simp: MAX_PROCESSES_def)
qed

section \<open>What the operations leave alone\<close>

lemma save_context_frame [kernel_frame, simp]:
  "state (save_context r t) = state t" "pid (save_context r t) = pid t"
  "name (save_context r t) = name t" "kernel_stack (save_context r t) = kernel_stack t"
  "page_directory (save_context r t) = page_directory t"
  "wakeup_time (save_context r t) = wakeup_time t" "user_stack (save_context r t) = user_stack t"
  by (simp_all add: save_context_def Let_def)

lemma update_task_frame [kernel_frame, simp]:
  "current_task (update_task i f s) = current_task s"
  "tss_esp0 (update_task i f s) = tss_esp0 s"
  "multitasking_enabled (update_task i f s) = multitasking_enabled s"
  "length (process_table (update_task i f s)) = length (process_table s)"
  by (simp_all add: update_task_def)

lemma update_task_nth:
  "i < length (process_table s) \<Longrightarrow> process_table (update_task i f s) ! j =
     (if j = i then f (process_table s ! i) else process_table s ! j)"
  by (simp add: update_task_def nth_list_update)

lemma switch_to_frame [kernel_frame, simp]:
  "process_table (switch_to i s) = process_table s" "current_task (switch_to i s) = Some i"
  "tss_esp0 (switch_to i s) = kernel_stack (process_table s ! i) + 4096"
  "multitasking_enabled (switch_to i s) = multitasking_enabled s"
  by (simp_all add: switch_to_def)

text \<open>The table after the outgoing task's registers have been saved.\<close>

definition saved_table :: "registers_t \<Rightarrow> nat \<Rightarrow> task_struct_t list \<Rightarrow> task_struct_t list" where
  "saved_table r c tbl =
     (if state (tbl ! c) \<noteq> TASK_STATE_ZOMBIE then tbl[c := save_context r (tbl ! c)] else tbl)"

lemma saved_table_nth [simp]:
  "length (saved_table r c tbl) = length tbl"
  "state (saved_table r c tbl ! i) = state (tbl ! i)"
  "pid (saved_table r c tbl ! i) = pid (tbl ! i)"
  "kernel_stack (saved_table r c tbl ! i) = kernel_stack (tbl ! i)"
  "page_directory (saved_table r c tbl ! i) = page_directory (tbl ! i)"
  "wakeup_time (saved_table r c tbl ! i) = wakeup_time (tbl ! i)"
  "i \<noteq> c \<Longrightarrow> saved_table r c tbl ! i = tbl ! i"
  by (cases "c < length tbl"; auto simp: saved_table_def nth_list_update list_update_beyond)+

lemma proc_inv_cong:
  assumes "proc_inv s" and "length (process_table s') = length (process_table s)"
    and "\<And>i. state (process_table s' ! i) = state (process_table s ! i)"
    and "\<And>i. pid (process_table s' ! i) = pid (process_table s ! i)"
    and "current_task s' = Some i" and "i < 16" and "runnable s i"
  shows "proc_inv s'"
  using assms by (auto simp: proc_inv_def runnable_def)

section \<open>Properties of the scheduler\<close>

lemma schedule_eq:
  assumes "proc_inv s" and "current_task s = Some c"
  obtains k s' where "1 \<le> k" "k \<le> 16" "schedule r s = Some s'"
    "current_task s' = Some ((c + k) mod 16)" "runnable s ((c + k) mod 16)"
    "\<forall>j. 1 \<le> j \<and> j < k \<longrightarrow> \<not> runnable s ((c + j) mod 16)"
    "process_table s' = saved_table r c (process_table s)"
    "tss_esp0 s' = kernel_stack (process_table s ! ((c + k) mod 16)) + 4096"
    "s' = s\<lparr>process_table := process_table s', current_task := current_task s', tss_esp0 := tss_esp0 s'\<rparr>"
proof -
  let ?tbl = "process_table s"
  let ?s = "s\<lparr>process_table := saved_table r c ?tbl\<rparr>"
  from assms have c: "c < 16" "pid (?tbl ! c) = int c" and idle: "state (?tbl ! 0) = TASK_STATE_RUNNING"
    by (auto elim!: proc_invE simp: runnable_def)
  have "state (saved_table r c ?tbl ! 0) = TASK_STATE_RUNNING" using idle by simp
  from find_next_idle [OF this c(1)] obtain k where
    k: "1 \<le> k" "k \<le> 16" "find_next (saved_table r c ?tbl) MAX_PROCESSES (int c) = Some ((c + k) mod 16)"
      "state (?tbl ! ((c + k) mod 16)) = TASK_STATE_RUNNING"
      "\<forall>j. 1 \<le> j \<and> j < k \<longrightarrow> state (?tbl ! ((c + j) mod 16)) \<noteq> TASK_STATE_RUNNING"
    by auto
  have eq: "(if state (?tbl ! c) \<noteq> TASK_STATE_ZOMBIE then update_task c (save_context r) s else s) = ?s"
    by (simp add: saved_table_def update_task_def)
  have "schedule r s = Some (switch_to ((c + k) mod 16) ?s)"
    unfolding schedule_def assms(2) option.case Let_def eq using k(3) c(2) by simp
  with k that show thesis by (simp add: runnable_def switch_to_def)
qed

lemma schedule_inv [kernel_inv]:
  assumes "proc_inv s" and "schedule r s = Some s'"
  shows "proc_inv s'"
proof -
  from assms(1) obtain c where c: "current_task s = Some c" by (auto elim: proc_invE)
  from schedule_eq [OF assms(1) c, of r] obtain k s'' where
    "schedule r s = Some s''" "current_task s'' = Some ((c + k) mod 16)"
    "runnable s ((c + k) mod 16)" "process_table s'' = saved_table r c (process_table s)" .
  with assms(2) show ?thesis
    by (intro proc_inv_cong [OF assms(1), of s' "(c + k) mod 16"]) simp_all
qed

text \<open>
  What a context switch has to keep, register by register: the context of a task that was
  interrupted with the frame \<^verbatim>\<open>r\<close> (the processor pushes the stack pointer of the task only when
  it comes from user mode), and the frame through which a task with the saved context \<^verbatim>\<open>c\<close>
  continues.
\<close>

definition interrupted_context :: "registers_t \<Rightarrow> u32 \<Rightarrow> cpu_state_t" where
  "interrupted_context r dir =
     \<lparr>c_edi = r_edi r, c_esi = r_esi r, c_ebp = r_ebp r, c_ebx = r_ebx r, c_edx = r_edx r,
      c_ecx = r_ecx r, c_eax = r_eax r, c_eip = r_eip r, c_cs = r_cs r, c_eflags = r_eflags r,
      c_esp = (if r_cs r = 0x1B then r_useresp r else r_esp r),
      c_ss = (if r_cs r = 0x1B then r_ss r else 0x10), c_cr3 = dir\<rparr>"

definition resumes :: "cpu_state_t \<Rightarrow> registers_t \<Rightarrow> bool" where
  "resumes c fr \<longleftrightarrow>
     r_eax fr = c_eax c \<and> r_ebx fr = c_ebx c \<and> r_ecx fr = c_ecx c \<and> r_edx fr = c_edx c \<and>
     r_esi fr = c_esi c \<and> r_edi fr = c_edi c \<and> r_ebp fr = c_ebp c \<and>
     r_eip fr = c_eip c \<and> r_cs fr = c_cs c \<and> r_eflags fr = c_eflags c \<and>
     r_useresp fr = c_esp c \<and> r_ss fr = c_ss c"

lemma save_context_interrupted:
  "save_context r t = t\<lparr>cpu_state := interrupted_context r (page_directory t)\<rparr>"
  by (cases t, cases "cpu_state t") (simp add: save_context_def interrupted_context_def Let_def)

lemma load_context_resumes: "resumes c (load_context c r)"
  by (simp add: resumes_def load_context_def)


text \<open>The state right after \<^verbatim>\<open>process_init\<close>, for some addresses.\<close>

definition boot_idle :: task_struct_t where
  "boot_idle = zero_task\<lparr>pid := 0, state := TASK_STATE_RUNNING,
     name := map chr ''idle'' @ replicate 28 0, page_directory := 0x43000,
     cpu_state := zero_cpu_state\<lparr>c_eip := 0x10100, c_cs := 0x08, c_ss := 0x10,
       c_eflags := 0x202, c_esp := 0x46000, c_cr3 := 0x43000\<rparr>\<rparr>"

definition boot_shell :: task_struct_t where
  "boot_shell = zero_task\<lparr>pid := 1, state := TASK_STATE_RUNNING,
     name := map chr ''shell'' @ replicate 27 0, page_directory := 0x43000,
     cpu_state := zero_cpu_state\<lparr>c_eip := 0x10200, c_cs := 0x08, c_ss := 0x10,
       c_eflags := 0x202, c_esp := 0x47000, c_cr3 := 0x43000\<rparr>\<rparr>"

definition boot_proc :: proc_state where
  "boot_proc = \<lparr>process_table = [boot_idle, boot_shell] @ replicate 14 zero_task,
     current_task = Some 0, tss_esp0 = 0, multitasking_enabled = False\<rparr>"

definition sample_registers :: registers_t where
  "sample_registers = \<lparr>r_gs = 0x23, r_fs = 0x23, r_es = 0x23, r_ds = 0x23, r_edi = 1, r_esi = 2,
     r_ebp = 3, r_esp = 4, r_ebx = 5, r_edx = 6, r_ecx = 7, r_eax = 8, r_int_no = 32, r_err_code = 0,
     r_eip = 0x400000, r_cs = 0x1B, r_eflags = 0x202, r_useresp = 0xBFFFFFF0, r_ss = 0x23\<rparr>"

lemma less_16_cases: "i < (16 :: nat) \<Longrightarrow> i = 0 \<or> i = 1 \<or> (2 \<le> i \<and> i < 16)"
  by arith

lemma boot_proc_inv: "proc_inv boot_proc"
  by (auto simp: proc_inv_def boot_proc_def boot_idle_def boot_shell_def zero_task_def
      nth_Cons' dest!: less_16_cases)

lemma kernel_task_text:
  assumes "length (name t) = 32" and "text_of nm = Some n"
  shows "kernel_task p nm entry stack kd t =
     Some (t\<lparr>pid := p, state := TASK_STATE_RUNNING, name := take 32 n @ replicate (32 - length n) 0,
       page_directory := kd,
       cpu_state := zero_cpu_state\<lparr>c_eip := entry, c_cs := 0x08, c_ss := 0x10,
         c_eflags := 0x202, c_esp := stack + 4096, c_cr3 := kd\<rparr>\<rparr>)"
  using assms by (simp add: kernel_task_def set_name_text)


text \<open>The process table that \<^verbatim>\<open>process_init\<close> leaves, for any two stacks.\<close>

lemma process_init_run:
  "\<exists>s'. process_init stack_a stack_b idle_task shell_task kd s = Some s' \<and> proc_inv s' \<and>
     current_task s' = Some 0 \<and>
     (\<forall>i < 16. state (process_table s' ! i) =
        (if i < 2 then TASK_STATE_RUNNING else TASK_STATE_UNUSED)) \<and>
     (\<forall>i < 2. let c = cpu_state (process_table s' ! i) in
        c_cs c = 0x08 \<and> c_ss c = 0x10 \<and> c_eflags c = 0x202 \<and> c_cr3 c = kd \<and>
        page_directory (process_table s' ! i) = kd \<and>
        c_eip c = [idle_task, shell_task] ! i \<and> c_esp c = [stack_a, stack_b] ! i + 4096) \<and>
     text_of (name (process_table s' ! 0)) = text_of (cstr ''idle'') \<and>
     text_of (name (process_table s' ! 1)) = text_of (cstr ''shell'')"
proof -
  have nm: "text_of (cstr ''idle'') = Some (map chr ''idle'')"
      "text_of (cstr ''shell'') = Some (map chr ''shell'')"
    by (simp_all add: cstr_def chr_def)
  have len: "length (name zero_task) = 32" by (simp add: zero_task_def PROCESS_NAME_LEN_def)
  note tasks = kernel_task_text [OF len nm(1), of 0 idle_task stack_a kd]
    kernel_task_text [OF len nm(2), of 1 shell_task stack_b kd]
  define t0 t1 where "t0 = the (kernel_task 0 (cstr ''idle'') idle_task stack_a kd zero_task)"
    and "t1 = the (kernel_task 1 (cstr ''shell'') shell_task stack_b kd zero_task)"
  let ?tbl = "t0 # t1 # replicate 14 zero_task"
  have pad: "replicate 28 0 = (0 :: u8) # replicate 27 0" "replicate 27 0 = (0 :: u8) # replicate 26 0"
    by (simp_all add: numeral_eq_Suc)
  have tbl: "(replicate 16 zero_task)[0 := t0, Suc 0 := t1] = ?tbl"
    by (simp add: numeral_eq_Suc)
  have ok: "kernel_task 0 (cstr ''idle'') idle_task stack_a kd zero_task = Some t0"
      "kernel_task 1 (cstr ''shell'') shell_task stack_b kd zero_task = Some t1"
    by (simp_all add: t0_def t1_def tasks)
  have run: "process_init stack_a stack_b idle_task shell_task kd s =
      Some (s\<lparr>process_table := ?tbl, current_task := Some 0\<rparr>)"
    by (simp add: process_init_def MAX_PROCESSES_def ok tbl)
  have nth: "?tbl ! i = (if i = 0 then t0 else if i = 1 then t1 else zero_task)" if "i < 16" for i
    using that by (auto simp: nth_Cons')
  have st: "state t0 = TASK_STATE_RUNNING" "state t1 = TASK_STATE_RUNNING" "pid t0 = 0" "pid t1 = 1"
    by (simp_all add: t0_def t1_def tasks)
  have un: "state zero_task = TASK_STATE_UNUSED" by (simp add: zero_task_def)
  have "proc_inv (s\<lparr>process_table := ?tbl, current_task := Some 0\<rparr>)"
    using st un by (auto simp: proc_inv_def nth)
  moreover have "\<forall>i < 16. state (?tbl ! i) = (if i < 2 then TASK_STATE_RUNNING else TASK_STATE_UNUSED)"
    using st un by (auto simp: nth)
  moreover have "text_of (name t0) = text_of (cstr ''idle'')" "text_of (name t1) = text_of (cstr ''shell'')"
    unfolding nm by (simp_all add: t0_def t1_def tasks chr_def pad)
  moreover have "\<forall>i < 2. let c = cpu_state (?tbl ! i) in
        c_cs c = 0x08 \<and> c_ss c = 0x10 \<and> c_eflags c = 0x202 \<and> c_cr3 c = kd \<and>
        page_directory (?tbl ! i) = kd \<and>
        c_eip c = [idle_task, shell_task] ! i \<and> c_esp c = [stack_a, stack_b] ! i + 4096"
    by (simp add: t0_def t1_def tasks Let_def less_2_cases_iff all_conj_distrib)
  ultimately show ?thesis unfolding run by simp
qed

text \<open>
  Saving and restoring a context loses nothing for a task interrupted in user mode; the
  segment registers, the \<^verbatim>\<open>pusha\<close> stack pointer and the interrupt number are those of the frame.
\<close>

lemma load_saved_context:
  assumes "r_cs r = 0x1B"
  shows "load_context (cpu_state (save_context r t)) frame =
     r\<lparr>r_gs := r_gs frame, r_fs := r_fs frame, r_es := r_es frame, r_ds := r_ds frame,
       r_esp := r_esp frame, r_int_no := r_int_no frame, r_err_code := r_err_code frame\<rparr>"
    "c_cr3 (cpu_state (save_context r t)) = page_directory t"
  using assms by (cases r, cases frame) (simp_all add: load_context_def save_context_def Let_def)

end
