(* ===== verification/Timer.thy ===== *)
theory Timer
  imports Io Process
begin

text \<open>
  The timer and PC speaker driver: \<^verbatim>\<open>kernel/drivers/timer.c\<close>, with \<^verbatim>\<open>task_switch\<close> of
  \<^verbatim>\<open>kernel/cpu/switch.asm\<close>, which the timer interrupt calls.

  The instruction \<^verbatim>\<open>hlt\<close> stops the CPU until the next interrupt. A function that halts is
  modelled up to its halt (\<^verbatim>\<open>sleep\<close>) or, when it halts in a loop (\<^verbatim>\<open>delay_ms\<close>), it takes the
  sequence of interrupts that end its halts.
\<close>

section \<open>State\<close>

record timer_state = proc_state +
  tick :: u32

record speaker_state = io_state +
  current_frequency :: u32

section \<open>The timer interrupt\<close>

text \<open>The wake-up loop of \<^verbatim>\<open>timer_handler\<close> visits every control block once.\<close>

definition wake_task :: "u32 \<Rightarrow> task_struct_t \<Rightarrow> task_struct_t" where
  "wake_task now t =
     (if state t = TASK_STATE_SLEEPING \<and> wakeup_time t \<le> now
      then t\<lparr>state := TASK_STATE_RUNNING\<rparr> else t)"

fun wake_loop :: "u32 \<Rightarrow> nat \<Rightarrow> nat \<Rightarrow> 'a proc_state_scheme \<Rightarrow> 'a proc_state_scheme" where
  "wake_loop now i 0 s = s"
| "wake_loop now i (Suc n) s = wake_loop now (Suc i) n (update_task i (wake_task now) s)"

text \<open>
  \<^verbatim>\<open>task_switch\<close> returns the interrupt frame with the context of the chosen task and the
  value it loads into CR3; it also sends the end-of-interrupt command to both controllers.
\<close>

definition task_switch ::
    "registers_t \<Rightarrow> 'a proc_state_scheme \<Rightarrow> 'b io_state_scheme \<Rightarrow>
     (registers_t \<times> u32 \<times> 'a proc_state_scheme \<times> 'b io_state_scheme) option" where
  "task_switch r s io =
     do {
       s \<leftarrow> schedule r s;
       cur \<leftarrow> current_task s;
       let io = port_byte_out 0xA0 0x20 io;
       let io = port_byte_out 0x20 0x20 io;
       let c = cpu_state (process_table s ! cur);
       Some (load_context c r, c_cr3 c, s, io)
     }"

definition timer_handler ::
    "registers_t \<Rightarrow> 'a timer_state_scheme \<Rightarrow> 'b io_state_scheme \<Rightarrow>
     (registers_t \<times> u32 option \<times> 'a timer_state_scheme \<times> 'b io_state_scheme) option" where
  "timer_handler r s io =
     (let s = s\<lparr>tick := tick s + 1\<rparr>;
          s = wake_loop (tick s) 0 MAX_PROCESSES s
      in if multitasking_enabled s
         then map_option (\<lambda>(r, cr3, s, io). (r, Some cr3, s, io)) (task_switch r s io)
         else Some (r, None, s, io))"

text \<open>\<^verbatim>\<open>timer_install\<close> without the registration of the handler (\<^verbatim>\<open>irq_install_handler\<close>).\<close>

definition timer_install :: "'a io_state_scheme \<Rightarrow> 'a io_state_scheme" where
  "timer_install io =
     (let frequency = (100 :: u32);
          divisor = 1193180 div frequency;
          io = port_byte_out 0x43 0x36 io;
          io = port_byte_out 0x40 (ucast (divisor AND 0xFF)) io
      in port_byte_out 0x40 (ucast (drop_bit 8 divisor AND 0xFF)) io)"

definition timer_get_ticks :: "'a timer_state_scheme \<Rightarrow> u32" where
  "timer_get_ticks s = tick s"

definition ticks_to_wait :: "u32 \<Rightarrow> u32" where
  "ticks_to_wait milliseconds =
     (let t = milliseconds div 10 in if t = 0 then 1 else t)"

text \<open>
  \<^verbatim>\<open>delay_ms\<close> runs before multitasking starts. Each element of the list is one interrupt
  that ends a halt: \<^term>\<open>True\<close> for the timer, \<^term>\<open>False\<close> for any other line. \<^term>\<open>None\<close>:
  still waiting when the interrupts are used up. The interrupted frame is not changed by
  the handler while multitasking is off.
\<close>

fun delay_loop ::
    "u32 \<Rightarrow> bool list \<Rightarrow> registers_t \<Rightarrow> 'a timer_state_scheme \<Rightarrow> 'b io_state_scheme \<Rightarrow>
     ('a timer_state_scheme \<times> 'b io_state_scheme) option" where
  "delay_loop end_tick irqs r s io =
     (if timer_get_ticks s < end_tick
      then case irqs of
             [] \<Rightarrow> None
           | is_timer # irqs' \<Rightarrow>
               (let io = sti io
                in if is_timer
                   then case timer_handler r s io of
                          None \<Rightarrow> None
                        | Some (r, _, s, io) \<Rightarrow> delay_loop end_tick irqs' r s io
                   else delay_loop end_tick irqs' r s io)
      else Some (s, io))"

definition delay_ms ::
    "u32 \<Rightarrow> bool list \<Rightarrow> registers_t \<Rightarrow> 'a timer_state_scheme \<Rightarrow> 'b io_state_scheme \<Rightarrow>
     ('a timer_state_scheme \<times> 'b io_state_scheme) option" where
  "delay_ms milliseconds irqs r s io =
     (let start_tick = timer_get_ticks s;
          end_tick = start_tick + ticks_to_wait milliseconds
      in delay_loop end_tick irqs r s io)"

text \<open>\<^verbatim>\<open>sleep\<close> up to the \<^verbatim>\<open>hlt\<close> with interrupts enabled.\<close>

definition sleep ::
    "u32 \<Rightarrow> 'a timer_state_scheme \<Rightarrow> 'b io_state_scheme \<Rightarrow>
     ('a timer_state_scheme \<times> 'b io_state_scheme) option" where
  "sleep milliseconds s io =
     do {
       let start_tick = timer_get_ticks s;
       cur \<leftarrow> current_task s;
       let s = update_task cur (\<lambda>t. t\<lparr>state := TASK_STATE_SLEEPING\<rparr>) s;
       let s = update_task cur
                 (\<lambda>t. t\<lparr>wakeup_time := start_tick + ticks_to_wait milliseconds\<rparr>) s;
       Some (s, sti io)
     }"

section \<open>The PC speaker\<close>

definition nosound :: "device \<Rightarrow> 'a speaker_state_scheme \<Rightarrow> 'a speaker_state_scheme" where
  "nosound dev s =
     (let (v, s) = port_byte_in dev 0x61 s;
          tmp = v AND 0xFC;
          s = port_byte_out 0x61 tmp s;
          divisor = (0 :: u16);
          s = port_byte_out 0x43 0xB6 s;
          s = port_byte_out 0x42 (ucast (divisor AND 0xFF)) s;
          s = port_byte_out 0x42 (ucast (drop_bit 8 divisor AND 0xFF)) s
      in s\<lparr>current_frequency := 0\<rparr>)"

definition play_sound :: "device \<Rightarrow> u32 \<Rightarrow> 'a speaker_state_scheme \<Rightarrow> 'a speaker_state_scheme" where
  "play_sound dev frequency s =
     (if frequency = current_frequency s then s
      else if frequency = 0 then nosound dev s
      else let divisor = 1193180 div frequency;
               s = port_byte_out 0x43 0xB6 s;
               s = port_byte_out 0x42 (ucast (divisor AND 0xFF)) s;
               s = port_byte_out 0x42 (ucast (drop_bit 8 divisor AND 0xFF)) s;
               (tmp, s) = port_byte_in dev 0x61 s;
               s = port_byte_out 0x61 (tmp OR 3) s
           in s\<lparr>current_frequency := frequency\<rparr>)"

section \<open>The wake-up loop\<close>

lemma wake_task_frame [kernel_frame, simp]:
  "pid (wake_task n t) = pid t" "cpu_state (wake_task n t) = cpu_state t"
  "kernel_stack (wake_task n t) = kernel_stack t" "wakeup_time (wake_task n t) = wakeup_time t"
  "page_directory (wake_task n t) = page_directory t" "name (wake_task n t) = name t"
  by (simp_all add: wake_task_def)

lemma wake_task_state:
  "state (wake_task n t) = TASK_STATE_RUNNING \<longleftrightarrow>
     state t = TASK_STATE_RUNNING \<or> state t = TASK_STATE_SLEEPING \<and> wakeup_time t \<le> n"
  "state (wake_task n t) = TASK_STATE_ZOMBIE \<longleftrightarrow> state t = TASK_STATE_ZOMBIE"
  "state (wake_task n t) = TASK_STATE_UNUSED \<longleftrightarrow> state t = TASK_STATE_UNUSED"
  "state (wake_task n t) = TASK_STATE_WAITING \<longleftrightarrow> state t = TASK_STATE_WAITING"
  by (auto simp: wake_task_def)

lemma wake_loop_table:
  assumes "i + n = length (process_table s)"
  shows "wake_loop now i n s =
     s\<lparr>process_table := take i (process_table s) @ map (wake_task now) (drop i (process_table s))\<rparr>"
  using assms
proof (induction now i n s rule: wake_loop.induct)
  case (1 now i s)
  then show ?case by simp
next
  case (2 now i n s)
  let ?tbl = "process_table s"
  from 2(2) have i: "i < length ?tbl" by simp
  then have "take (Suc i) (?tbl[i := wake_task now (?tbl ! i)]) = take i ?tbl @ [wake_task now (?tbl ! i)]"
    by (rule take_Suc_update)
  moreover have "drop i ?tbl = ?tbl ! i # drop (Suc i) ?tbl" using i by (rule Cons_nth_drop_Suc [symmetric])
  ultimately show ?case
    using 2 by (simp add: update_task_def)
qed

text \<open>The state in which the scheduler runs: one more tick, every task that is due awake.\<close>

definition woken :: "'a timer_state_scheme \<Rightarrow> 'a timer_state_scheme" where
  "woken s = s\<lparr>tick := tick s + 1, process_table := map (wake_task (tick s + 1)) (process_table s)\<rparr>"

lemma timer_handler_eq:
  assumes "length (process_table s) = 16"
  shows "timer_handler r s io =
     (if multitasking_enabled s
      then map_option (\<lambda>(r, cr3, s, io). (r, Some cr3, s, io)) (task_switch r (woken s) io)
      else Some (r, None, woken s, io))"
proof -
  have "wake_loop (tick s + 1) 0 MAX_PROCESSES (s\<lparr>tick := tick s + 1\<rparr>) = woken s"
    using assms by (simp add: wake_loop_table MAX_PROCESSES_def woken_def)
  then show ?thesis
    unfolding timer_handler_def Let_def by (simp add: woken_def)
qed

lemma woken_inv [kernel_inv]: "proc_inv s \<Longrightarrow> proc_inv (woken s)"
  by (auto simp: proc_inv_def woken_def wake_task_state)

lemma woken_frame [kernel_frame, simp]:
  "current_task (woken s) = current_task s" "tick (woken s) = tick s + 1"
  "multitasking_enabled (woken s) = multitasking_enabled s"
  "length (process_table (woken s)) = length (process_table s)"
  "i < length (process_table s) \<Longrightarrow>
     process_table (woken s) ! i = wake_task (tick s + 1) (process_table s ! i)"
  by (simp_all add: woken_def)

section \<open>Properties of the timer interrupt\<close>

lemma task_switch_eq:
  assumes "schedule r s = Some s'" and "current_task s' = Some i"
  shows "task_switch r s io =
     Some (load_context (cpu_state (process_table s' ! i)) r, c_cr3 (cpu_state (process_table s' ! i)), s',
       io\<lparr>io_trace := io_trace io @ [OutB 0xA0 0x20, OutB 0x20 0x20]\<rparr>)"
  using assms by (simp add: task_switch_def port_byte_out_def Let_def)

lemma timer_handler_switch:
  assumes "proc_inv s" and "current_task s = Some c" and "multitasking_enabled s"
  obtains k s' where "1 \<le> k" "k \<le> 16" "schedule r (woken s) = Some s'"
    "current_task s' = Some ((c + k) mod 16)" "runnable (woken s) ((c + k) mod 16)"
    "\<forall>j. 1 \<le> j \<and> j < k \<longrightarrow> \<not> runnable (woken s) ((c + j) mod 16)"
    "process_table s' = saved_table r c (process_table (woken s))"
    "tick s' = tick s + 1" "multitasking_enabled s'" "proc_inv s'"
    "timer_handler r s io =
       Some (load_context (cpu_state (process_table s' ! ((c + k) mod 16))) r,
         Some (c_cr3 (cpu_state (process_table s' ! ((c + k) mod 16)))), s',
         io\<lparr>io_trace := io_trace io @ [OutB 0xA0 0x20, OutB 0x20 0x20]\<rparr>)"
proof -
  have inv: "proc_inv (woken s)" using assms(1) by (rule woken_inv)
  have cur: "current_task (woken s) = Some c" using assms(2) by simp
  have len: "length (process_table s) = 16" using assms(1) by (auto elim: proc_invE)
  from schedule_eq [OF inv cur, of r] obtain k s' where
    k: "1 \<le> k" "k \<le> 16" "schedule r (woken s) = Some s'"
      "current_task s' = Some ((c + k) mod 16)" "runnable (woken s) ((c + k) mod 16)"
      "\<forall>j. 1 \<le> j \<and> j < k \<longrightarrow> \<not> runnable (woken s) ((c + j) mod 16)"
      "process_table s' = saved_table r c (process_table (woken s))"
    and upd: "s' = (woken s)\<lparr>process_table := process_table s', current_task := current_task s',
         tss_esp0 := tss_esp0 s'\<rparr>" .
  have "tick s' = tick s + 1" by (subst upd) simp
  moreover have "multitasking_enabled s'" by (subst upd) (simp add: assms(3))
  moreover have "proc_inv s'" using inv k(3) by (rule schedule_inv)
  moreover have "timer_handler r s io =
       Some (load_context (cpu_state (process_table s' ! ((c + k) mod 16))) r,
         Some (c_cr3 (cpu_state (process_table s' ! ((c + k) mod 16)))), s',
         io\<lparr>io_trace := io_trace io @ [OutB 0xA0 0x20, OutB 0x20 0x20]\<rparr>)"
    by (simp add: timer_handler_eq [OF len] assms(3) task_switch_eq [OF k(3,4)])
  ultimately show thesis using k that by blast
qed


definition boot_timer :: timer_state where
  "boot_timer = \<lparr>process_table = process_table boot_proc, current_task = Some 0, tss_esp0 = 0,
     multitasking_enabled = True, tick = 41\<rparr>"

lemma boot_timer_inv: "proc_inv boot_timer"
  using boot_proc_inv by (simp add: boot_timer_def boot_proc_def proc_inv_def)


section \<open>Blocking delay\<close>

declare delay_loop.simps [simp del]

lemma ticks_to_wait_pos: "0 < unat (ticks_to_wait ms)"
  by (simp add: ticks_to_wait_def Let_def unat_gt_0)

lemma tick_step:
  "tick s < e \<Longrightarrow> unat (tick s + 1) = unat (tick s) + 1" for e :: u32
proof -
  assume "tick s < e"
  then have "unat (tick s) < 4294967295"
    using unat_u32_bound [of e] unfolding word_less_nat_alt by linarith
  then show ?thesis by (simp add: unat_plus_u32)
qed

lemma delay_loop_returns:
  assumes "\<not> multitasking_enabled s" and "length (process_table s) = 16"
    and "unat end_tick \<le> unat (tick s) + length (filter (\<lambda>b. b) irqs)"
  shows "\<exists>s' io'. delay_loop end_tick irqs r s io = Some (s', io') \<and>
     tick s' = (if tick s < end_tick then end_tick else tick s)"
  using assms
proof (induction irqs arbitrary: s io)
  case Nil
  then show ?case by (auto simp: delay_loop.simps timer_get_ticks_def word_less_nat_alt)
next
  case (Cons b irqs)
  show ?case
  proof (cases "tick s < end_tick")
    case False
    then show ?thesis by (simp add: delay_loop.simps timer_get_ticks_def)
  next
    case True
    show ?thesis
    proof (cases b)
      case False
      with True have "delay_loop end_tick (b # irqs) r s io = delay_loop end_tick irqs r s (sti io)"
        by (simp add: delay_loop.simps [of _ "False # irqs"] timer_get_ticks_def)
      with False Cons.IH [of s "sti io"] Cons.prems show ?thesis by simp
    next
      case b: True
      have "timer_handler r s (sti io) = Some (r, None, woken s, sti io)"
        using Cons.prems by (simp add: timer_handler_eq)
      then have step: "delay_loop end_tick (b # irqs) r s io = delay_loop end_tick irqs r (woken s) (sti io)"
        using True b by (simp add: delay_loop.simps [of _ "True # irqs"] timer_get_ticks_def)
      have t: "unat (tick s + 1) = unat (tick s) + 1" using True by (rule tick_step)
      have "unat end_tick \<le> unat (tick (woken s)) + length (filter (\<lambda>b. b) irqs)"
        using Cons.prems(3) b t by simp
      with Cons.IH [of "woken s" "sti io"] Cons.prems(1,2) obtain s' io' where
        "delay_loop end_tick irqs r (woken s) (sti io) = Some (s', io')"
        "tick s' = (if tick s + 1 < end_tick then end_tick else tick s + 1)"
        by (auto simp: woken_def)
      moreover have "tick s + 1 < end_tick \<or> tick s + 1 = end_tick"
        using True t by (auto simp: word_less_nat_alt word_unat_eq_iff)
      ultimately show ?thesis using step True by auto
    qed
  qed
qed

text \<open>C30. \<^verbatim>\<open>delay_ms\<close> (timer.c), used before multitasking starts, returns: once as many timer
  interrupts have arrived as the delay has ticks (one tick per ten milliseconds, at least
  one), whatever other interrupts end its halts in between, and it returns exactly when the
  clock reaches the target. The clock must not wrap around during the delay.\<close>

theorem delay_ms_returns:
  assumes "\<not> multitasking_enabled s" and "length (process_table s) = 16"
    and "unat (tick s) + unat (ticks_to_wait ms) < 2 ^ 32"
    and "unat (ticks_to_wait ms) \<le> length (filter (\<lambda>b. b) irqs)"
  shows "\<exists>s' io'. delay_ms ms irqs r s io = Some (s', io') \<and> tick s' = tick s + ticks_to_wait ms"
proof -
  let ?e = "tick s + ticks_to_wait ms"
  have e: "unat ?e = unat (tick s) + unat (ticks_to_wait ms)"
    using assms(3) by (intro unat_plus_u32_small) simp
  then have "tick s < ?e" using ticks_to_wait_pos [of ms] by (simp add: word_less_nat_alt)
  moreover have "unat ?e \<le> unat (tick s) + length (filter (\<lambda>b. b) irqs)" using e assms(4) by simp
  ultimately show ?thesis
    using delay_loop_returns [OF assms(1,2), of ?e irqs r io]
    by (auto simp: delay_ms_def timer_get_ticks_def)
qed

theorem delay_ms_returns_witness:
  "\<exists>s' io'. delay_ms 25 [True, False, True] sample_registers
     (boot_timer\<lparr>multitasking_enabled := False\<rparr>) \<lparr>io_trace = [], intr_flag = False\<rparr> = Some (s', io') \<and>
     tick s' = 43"
proof -
  let ?s = "boot_timer\<lparr>multitasking_enabled := False\<rparr>"
  have "\<not> multitasking_enabled ?s" "length (process_table ?s) = 16" "tick ?s = 41" "ticks_to_wait 25 = 2"
    by (simp_all add: boot_timer_def boot_proc_def ticks_to_wait_def)
  with delay_ms_returns [of ?s 25 "[True, False, True]" sample_registers
      "\<lparr>io_trace = [], intr_flag = False\<rparr>"]
  show ?thesis by simp
qed

section \<open>The programmable interval timer\<close>

text \<open>
  The part of the Intel 8253's protocol that the driver uses: a command byte written to
  port 0x43 selects a counter with its two top bits and, with access mode 3, the next two
  bytes written to the counter's port are the low and the high byte of its reload value. A
  reload value of 0 stands for 65536. Bits 0 and 1 of port 0x61 connect counter 2 to the
  speaker.
\<close>

record pit =
  pit_low :: "u8 option"
  pit_reload :: nat
  pit_mode :: nat

definition pit_write :: "u8 \<Rightarrow> pit \<Rightarrow> pit" where
  "pit_write v p =
     (case pit_low p of
        None \<Rightarrow> p\<lparr>pit_low := Some v\<rparr>
      | Some lo \<Rightarrow>
          let n = unat v * 256 + unat lo
          in p\<lparr>pit_low := None, pit_reload := (if n = 0 then 65536 else n)\<rparr>)"

fun pit_event :: "nat \<Rightarrow> pit \<Rightarrow> io_event \<Rightarrow> pit" where
  "pit_event ch p (OutB port v) =
     (if port = 0x43 then
        (if unat v div 64 = ch \<and> unat v div 16 mod 4 = 3
         then p\<lparr>pit_low := None, pit_mode := unat v div 2 mod 8\<rparr> else p)
      else if unat port = 0x40 + ch then pit_write v p
      else p)"
| "pit_event ch p _ = p"

definition pit_of :: "nat \<Rightarrow> io_event list \<Rightarrow> pit" where
  "pit_of ch tr = foldl (pit_event ch) \<lparr>pit_low = None, pit_reload = 65536, pit_mode = 0\<rparr> tr"

lemma pit_of_append [simp]: "pit_of ch (tr @ es) = foldl (pit_event ch) (pit_of ch tr) es"
  by (simp add: pit_of_def)

lemma split_u32_low: "unat (d :: u32) < 65536 \<Longrightarrow>
    unat (ucast (drop_bit 8 d AND 0xFF) :: u8) * 256 + unat (ucast (d AND 0xFF) :: u8) = unat d"
proof -
  assume d: "unat d < 65536"
  have m: "(0xFF :: u32) = mask 8" by (simp add: mask_eq_exp_minus_1)
  have "unat (ucast (d AND 0xFF) :: u8) = unat d mod 256"
    unfolding m by (simp add: unsigned_ucast_eq unat_mod_distrib take_bit_eq_mod flip: take_bit_eq_mask)
  moreover have "unat (ucast (drop_bit 8 d AND 0xFF) :: u8) = unat d div 256"
    unfolding m using d
    by (simp add: unsigned_ucast_eq unat_mod_distrib unat_div_distrib take_bit_eq_mod drop_bit_eq_div
        flip: take_bit_eq_mask)
  ultimately show ?thesis by simp
qed

text \<open>\<^verbatim>\<open>timer_install\<close> (timer.c) programs counter 0 of the interval timer as a square wave
  with the reload value 11931, which is the 1193180 Hz input divided by the 100 Hz that the
  rest of the kernel counts on.\<close>

theorem timer_install_100Hz:
  "let p = pit_of 0 (io_trace (timer_install io))
   in pit_reload p = 11931 \<and> pit_reload p = 1193180 div 100 \<and> pit_mode p = 3 \<and> pit_low p = None"
  by (simp add: timer_install_def Let_def port_byte_out_def pit_write_def)

text \<open>C31. \<^verbatim>\<open>play_sound\<close> (timer.c) produces the requested tone for every frequency from 19 Hz to
  the input frequency of the interval timer: counter 2 is a square wave with the reload
  value 1193180 / frequency, the two gate bits of the speaker port are set and the other
  bits are those read from it. Asking again for the tone that is playing does nothing.\<close>

theorem play_sound_tone:
  assumes "19 \<le> f" and "f \<le> 1193180" and "f \<noteq> current_frequency s"
  shows "let s' = play_sound dev f s; p = pit_of 2 (io_trace s') in
     current_frequency s' = f \<and> play_sound dev f s' = s' \<and>
     pit_reload p = 1193180 div unat f \<and> pit_mode p = 3 \<and> pit_low p = None \<and>
     (\<exists>es old. io_trace s' = io_trace s @ es @ [InB 0x61 old, OutB 0x61 (old OR 3)])"
proof -
  let ?d = "1193180 div f"
  have f: "19 \<le> unat f" "unat f \<le> 1193180" using assms(1,2) by (simp_all add: word_le_nat_alt)
  have d: "unat ?d = 1193180 div unat f" by (simp add: unat_div_distrib)
  have "1193180 div unat f \<le> 1193180 div 19" using f by (intro div_le_mono2) auto
  then have small: "unat ?d < 65536" using d by simp
  have pos: "0 < 1193180 div unat f" using f by (simp add: div_greater_zero_iff)
  have "f \<noteq> 0" using f by auto
  then show ?thesis
    using assms(3) split_u32_low [OF small] d pos
    by (simp add: play_sound_def Let_def port_byte_out_def port_byte_in_def pit_write_def)
qed

theorem play_sound_tone_witness:
  "pit_reload (pit_of 2 (io_trace (play_sound pic_device 440
      (\<lparr>io_trace = [], intr_flag = True, current_frequency = 0\<rparr> :: speaker_state)))) = 2711"
  using play_sound_tone [of 440 "\<lparr>io_trace = [], intr_flag = True, current_frequency = 0\<rparr>" pic_device]
  by (simp add: Let_def)

end
