(* ===== verification/Scheduling.thy ===== *)
theory Scheduling
  imports Timer "HOL-Library.Sublist"
begin

text \<open>
  Multitasking as a whole: everything that changes a control block after start-up, as the
  events of a state machine. The events are the timer interrupt (timer.c), \<^verbatim>\<open>sleep\<close>
  (timer.c), the marking of the current task by \<^verbatim>\<open>sys_exit\<close> (syscall.c), the creation of a
  task at the end of \<^verbatim>\<open>exec_program\<close> (process.c), and the \<^verbatim>\<open>run\<close> and \<^verbatim>\<open>kill\<close> commands of the
  shell (shell.c). The software interrupt that \<^verbatim>\<open>sys_exit\<close> and \<^verbatim>\<open>run\<close> raise to give up the
  CPU is a timer interrupt event. An event whose guard does not hold cannot happen
  (\<^term>\<open>None\<close>): the idle task never calls anything, only tasks other than the idle task and
  the shell use \<^verbatim>\<open>sys_exit\<close>, and only the shell creates, awaits and reaps tasks.
\<close>

section \<open>Events\<close>

definition mark_exit :: "'a proc_state_scheme \<Rightarrow> 'a proc_state_scheme option" where
  "mark_exit s =
     do {
       task_to_exit \<leftarrow> current_task s;
       let s = (if state (process_table s ! 1) = TASK_STATE_WAITING
                then update_task 1 (\<lambda>t. t\<lparr>state := TASK_STATE_RUNNING\<rparr>) s else s);
       Some (update_task task_to_exit (\<lambda>t. t\<lparr>state := TASK_STATE_ZOMBIE\<rparr>) s)
     }"

definition create_task ::
    "bytes \<Rightarrow> u32 \<Rightarrow> u32 \<Rightarrow> u32 \<Rightarrow> u32 \<Rightarrow> 'a proc_state_scheme \<Rightarrow> (nat \<times> 'a proc_state_scheme) option" where
  "create_task filename kstack new_dir entry user_stack_ptr s =
     do {
       i \<leftarrow> find_unused (process_table s) 0 MAX_PROCESSES;
       t \<leftarrow> user_task i filename kstack new_dir entry user_stack_ptr (process_table s ! i);
       Some (i, update_task i (\<lambda>_. t) s)
     }"

definition mark_waiting :: "'a proc_state_scheme \<Rightarrow> 'a proc_state_scheme option" where
  "mark_waiting s =
     map_option (\<lambda>cur. update_task cur (\<lambda>t. t\<lparr>state := TASK_STATE_WAITING\<rparr>) s) (current_task s)"

text \<open>The guards and the effect of \<^verbatim>\<open>kill\<close> on the process table.\<close>

definition kill_task :: "int \<Rightarrow> 'a proc_state_scheme \<Rightarrow> 'a proc_state_scheme option" where
  "kill_task pid_to_kill s =
     (if 0 < pid_to_kill \<and> pid_to_kill < int MAX_PROCESSES then
        (if state (process_table s ! nat pid_to_kill) = TASK_STATE_ZOMBIE
         then Some (reap_task (nat pid_to_kill) s) else None)
      else None)"

datatype sched_event =
    Tick registers_t
  | Sleep u32
  | Exit
  | Exec bytes u32 u32 u32 u32
  | Wait
  | Kill int

type_synonym sched_config = "timer_state \<times> io_state"

fun sched_exec :: "sched_event \<Rightarrow> sched_config \<Rightarrow> sched_config option" where
  "sched_exec (Tick r) (s, io) = map_option (\<lambda>(_, _, s', io'). (s', io')) (timer_handler r s io)"
| "sched_exec (Sleep ms) (s, io) =
     (if current_task s \<noteq> Some 0 then sleep ms s io else None)"
| "sched_exec Exit (s, io) =
     (if current_task s \<notin> {Some 0, Some 1} then map_option (\<lambda>s'. (s', io)) (mark_exit s) else None)"
| "sched_exec (Exec filename kstack new_dir entry sp) (s, io) =
     (if current_task s = Some 1
      then map_option (\<lambda>(_, s'). (s', io)) (create_task filename kstack new_dir entry sp s) else None)"
| "sched_exec Wait (s, io) =
     (if current_task s = Some 1 then map_option (\<lambda>s'. (s', io)) (mark_waiting s) else None)"
| "sched_exec (Kill p) (s, io) =
     (if current_task s = Some 1 then map_option (\<lambda>s'. (s', io)) (kill_task p s) else None)"

fun sched_run :: "sched_event list \<Rightarrow> sched_config \<Rightarrow> sched_config option" where
  "sched_run [] x = Some x"
| "sched_run (e # es) x = Option.bind (sched_exec e x) (sched_run es)"

inductive sched_reachable :: "sched_config \<Rightarrow> sched_config \<Rightarrow> bool" where
  start: "sched_reachable x x"
| step: "sched_reachable x y \<Longrightarrow> sched_exec e y = Some z \<Longrightarrow> sched_reachable x z"

inductive_cases sched_reachableE: "sched_reachable x y"

definition is_tick :: "sched_event \<Rightarrow> bool" where
  "is_tick e = (case e of Tick _ \<Rightarrow> True | _ \<Rightarrow> False)"

section \<open>What one event does to a control block\<close>

lemma find_unused_Some:
  "find_unused tbl i n = Some j \<Longrightarrow> i \<le> j \<and> j < i + n \<and> state (tbl ! j) = TASK_STATE_UNUSED"
  by (induction tbl i n rule: find_unused.induct) (auto split: if_splits)

lemma user_task_fields:
  "user_task i f k d e sp t = Some t' \<Longrightarrow> pid t' = int i \<and> state t' = TASK_STATE_RUNNING"
  by (auto simp: user_task_def set_name_def)

lemma create_taskE:
  assumes "create_task f k d e sp s = Some (i, s')"
  obtains t where "i < 16" "state (process_table s ! i) = TASK_STATE_UNUSED"
    "pid t = int i" "state t = TASK_STATE_RUNNING" "s' = update_task i (\<lambda>_. t) s"
  using assms find_unused_Some user_task_fields that
  by (fastforce simp: create_task_def MAX_PROCESSES_def bind_eq_Some_conv)

lemma kill_taskE:
  assumes "kill_task p s = Some s'"
  obtains i where "0 < i" "i < 16" "p = int i" "state (process_table s ! i) = TASK_STATE_ZOMBIE"
    "s' = reap_task i s"
  using assms that [of "nat p"] by (auto simp: kill_task_def MAX_PROCESSES_def split: if_splits)

lemma update_task_tick [kernel_frame]: "tick (update_task i f s) = tick s"
  by (simp add: update_task_def)

text \<open>
  The invariant of multitasking: besides the scheduler's own invariant, the shell in slot 1
  is alive.
\<close>

definition sched_inv :: "'a proc_state_scheme \<Rightarrow> bool" where
  "sched_inv s \<longleftrightarrow> proc_inv s \<and>
     state (process_table s ! 1) \<notin> {TASK_STATE_UNUSED, TASK_STATE_ZOMBIE}"

lemma sched_invD: "sched_inv s \<Longrightarrow> proc_inv s" by (simp add: sched_inv_def)

lemma tick_table:
  assumes "proc_inv s" and "current_task s = Some c" and "sched_exec (Tick r) (s, io) = Some (s', io')"
  shows "process_table s' =
       (if multitasking_enabled s then saved_table r c (process_table (woken s)) else process_table (woken s))"
    and "tick s' = tick s + 1" and "multitasking_enabled s' = multitasking_enabled s" and "proc_inv s'"
    and "\<not> multitasking_enabled s \<Longrightarrow> current_task s' = Some c"
    and "multitasking_enabled s \<Longrightarrow> \<exists>k. 1 \<le> k \<and> k \<le> 16 \<and> current_task s' = Some ((c + k) mod 16) \<and>
       runnable s' ((c + k) mod 16) \<and> (\<forall>j. 1 \<le> j \<and> j < k \<longrightarrow> \<not> runnable s' ((c + j) mod 16))"
proof -
  have len: "length (process_table s) = 16" using assms(1) by (auto elim: proc_invE)
  have off: "s' = woken s" if "\<not> multitasking_enabled s"
    using assms(3) that by (simp add: timer_handler_eq [OF len])
  have on: "process_table s' = saved_table r c (process_table (woken s)) \<and> tick s' = tick s + 1 \<and>
      multitasking_enabled s' \<and> proc_inv s' \<and> (\<exists>k. 1 \<le> k \<and> k \<le> 16 \<and> current_task s' = Some ((c + k) mod 16) \<and>
       runnable s' ((c + k) mod 16) \<and> (\<forall>j. 1 \<le> j \<and> j < k \<longrightarrow> \<not> runnable s' ((c + j) mod 16)))"
    if m: "multitasking_enabled s"
  proof -
    from timer_handler_switch [OF assms(1,2) m, of r io] obtain k s'' where
      k: "1 \<le> k" "k \<le> 16" "current_task s'' = Some ((c + k) mod 16)" "runnable (woken s) ((c + k) mod 16)"
        "\<forall>j. 1 \<le> j \<and> j < k \<longrightarrow> \<not> runnable (woken s) ((c + j) mod 16)"
        "process_table s'' = saved_table r c (process_table (woken s))"
        "tick s'' = tick s + 1" "multitasking_enabled s''" "proc_inv s''"
      and run: "timer_handler r s io =
         Some (load_context (cpu_state (process_table s'' ! ((c + k) mod 16))) r,
           Some (c_cr3 (cpu_state (process_table s'' ! ((c + k) mod 16)))), s'',
           io\<lparr>io_trace := io_trace io @ [OutB 0xA0 0x20, OutB 0x20 0x20]\<rparr>)" .
    from run assms(3) have "s' = s''" by simp
    moreover have "runnable s'' i = runnable (woken s) i" for i by (simp add: runnable_def k(6))
    ultimately show ?thesis using k by auto
  qed
  show "process_table s' =
       (if multitasking_enabled s then saved_table r c (process_table (woken s)) else process_table (woken s))"
    using on off by auto
  show "tick s' = tick s + 1" "multitasking_enabled s' = multitasking_enabled s" "proc_inv s'"
    using on off woken_inv [OF assms(1)] by (cases "multitasking_enabled s"; simp)+
  show "\<not> multitasking_enabled s \<Longrightarrow> current_task s' = Some c" using off assms(2) by simp
  show "multitasking_enabled s \<Longrightarrow> \<exists>k. 1 \<le> k \<and> k \<le> 16 \<and> current_task s' = Some ((c + k) mod 16) \<and>
       runnable s' ((c + k) mod 16) \<and> (\<forall>j. 1 \<le> j \<and> j < k \<longrightarrow> \<not> runnable s' ((c + j) mod 16))"
    using on by auto
qed

text \<open>One event other than the timer interrupt, seen from a control block \<^verbatim>\<open>i\<close>.\<close>

lemma sched_exec_other:
  assumes "sched_inv s" and "sched_exec e (s, io) = Some (s', io')" and "\<not> is_tick e" and "i < 16"
  shows "sched_inv s'" and "current_task s' = current_task s" and "tick s' = tick s"
    and "multitasking_enabled s' = multitasking_enabled s"
    and "current_task s \<noteq> Some i \<Longrightarrow> state (process_table s ! i) \<in> {TASK_STATE_RUNNING, TASK_STATE_SLEEPING}
       \<Longrightarrow> process_table s' ! i = process_table s ! i"
    and "current_task s \<noteq> Some i \<Longrightarrow> state (process_table s ! i) \<noteq> TASK_STATE_UNUSED \<Longrightarrow>
       state (process_table s ! i) \<noteq> TASK_STATE_ZOMBIE \<Longrightarrow>
       cpu_state (process_table s' ! i) = cpu_state (process_table s ! i) \<and>
       state (process_table s' ! i) \<noteq> TASK_STATE_UNUSED \<and> state (process_table s' ! i) \<noteq> TASK_STATE_ZOMBIE"
proof -
  from assms(1) obtain c where c: "c < 16" "current_task s = Some c" "length (process_table s) = 16"
    "pid (process_table s ! c) = int c" "state (process_table s ! c) \<noteq> TASK_STATE_UNUSED" "runnable s 0"
    and shell: "state (process_table s ! 1) \<noteq> TASK_STATE_UNUSED" "state (process_table s ! 1) \<noteq> TASK_STATE_ZOMBIE"
    by (auto simp: sched_inv_def elim!: proc_invE)
  have inv: "proc_inv s" using assms(1) by (rule sched_invD)
  have "sched_inv s' \<and> current_task s' = current_task s \<and> tick s' = tick s \<and>
      multitasking_enabled s' = multitasking_enabled s \<and>
      (current_task s \<noteq> Some i \<longrightarrow> state (process_table s ! i) \<in> {TASK_STATE_RUNNING, TASK_STATE_SLEEPING}
         \<longrightarrow> process_table s' ! i = process_table s ! i) \<and>
      (current_task s \<noteq> Some i \<longrightarrow> state (process_table s ! i) \<noteq> TASK_STATE_UNUSED \<longrightarrow>
         state (process_table s ! i) \<noteq> TASK_STATE_ZOMBIE \<longrightarrow>
         cpu_state (process_table s' ! i) = cpu_state (process_table s ! i) \<and>
         state (process_table s' ! i) \<noteq> TASK_STATE_UNUSED \<and> state (process_table s' ! i) \<noteq> TASK_STATE_ZOMBIE)"
  proof (cases e)
    case (Tick r)
    with assms(3) show ?thesis by (simp add: is_tick_def)
  next
    case (Sleep ms)
    with assms inv c shell show ?thesis
      by (auto simp: sched_inv_def proc_inv_def runnable_def update_task_nth sleep_def Let_def update_task_tick
          split: if_splits)
  next
    case Exit
    with assms inv c shell show ?thesis
      by (auto simp: sched_inv_def proc_inv_def runnable_def update_task_nth mark_exit_def Let_def update_task_tick
          split: if_splits)
  next
    case (Exec f k d en sp)
    with assms(2) obtain j where "create_task f k d en sp s = Some (j, s')" by (auto split: if_splits)
    then obtain t where t: "j < 16" "state (process_table s ! j) = TASK_STATE_UNUSED"
      "pid t = int j" "state t = TASK_STATE_RUNNING" "s' = update_task j (\<lambda>_. t) s"
      by (rule create_taskE)
    with inv c shell show ?thesis
      by (auto simp: sched_inv_def proc_inv_def runnable_def update_task_nth update_task_tick)
  next
    case Wait
    with assms inv c shell show ?thesis
      by (auto simp: sched_inv_def proc_inv_def runnable_def update_task_nth mark_waiting_def update_task_tick
          split: if_splits)
  next
    case (Kill p)
    with assms(2) c have cur: "current_task s = Some 1" and "kill_task p s = Some s'"
      by (auto split: if_splits)
    from this(2) obtain j where "0 < j" "j < 16" "state (process_table s ! j) = TASK_STATE_ZOMBIE"
      "s' = reap_task j s" by (rule kill_taskE)
    moreover from this(3) shell(2) have "j \<noteq> 1" by auto
    ultimately show ?thesis using inv c shell cur
      by (auto simp: sched_inv_def proc_inv_def runnable_def update_task_nth reap_task_def update_task_tick)
  qed
  then show "sched_inv s'" and "current_task s' = current_task s" and "tick s' = tick s"
    and "multitasking_enabled s' = multitasking_enabled s"
    and "current_task s \<noteq> Some i \<Longrightarrow> state (process_table s ! i) \<in> {TASK_STATE_RUNNING, TASK_STATE_SLEEPING}
       \<Longrightarrow> process_table s' ! i = process_table s ! i"
    and "current_task s \<noteq> Some i \<Longrightarrow> state (process_table s ! i) \<noteq> TASK_STATE_UNUSED \<Longrightarrow>
       state (process_table s ! i) \<noteq> TASK_STATE_ZOMBIE \<Longrightarrow>
       cpu_state (process_table s' ! i) = cpu_state (process_table s ! i) \<and>
       state (process_table s' ! i) \<noteq> TASK_STATE_UNUSED \<and> state (process_table s' ! i) \<noteq> TASK_STATE_ZOMBIE"
    by blast+
qed

lemma tick_state:
  assumes "proc_inv s" and "current_task s = Some c" and "sched_exec (Tick r) (s, io) = Some (s', io')"
    and "i < 16"
  shows "state (process_table s' ! i) = state (wake_task (tick s + 1) (process_table s ! i))"
    and "i \<noteq> c \<Longrightarrow> process_table s' ! i = wake_task (tick s + 1) (process_table s ! i)"
proof -
  have "length (process_table s) = 16" using assms(1) by (auto elim: proc_invE)
  then show "state (process_table s' ! i) = state (wake_task (tick s + 1) (process_table s ! i))"
    and "i \<noteq> c \<Longrightarrow> process_table s' ! i = wake_task (tick s + 1) (process_table s ! i)"
    using assms(4) by (simp_all add: tick_table(1) [OF assms(1-3)])
qed

lemma sched_exec_inv [kernel_inv]:
  assumes "sched_inv s" and "sched_exec e (s, io) = Some (s', io')"
  shows "sched_inv s'"
proof (cases "is_tick e")
  case True
  then obtain r where e: "e = Tick r" by (auto simp: is_tick_def split: sched_event.splits)
  from assms(1) obtain c where c: "current_task s = Some c" by (auto simp: sched_inv_def elim: proc_invE)
  note tick = sched_invD [OF assms(1)] c assms(2) [unfolded e]
  have "proc_inv s'" using tick by (rule tick_table(4))
  moreover have "state (process_table s' ! 1) = state (wake_task (tick s + 1) (process_table s ! 1))"
    by (rule tick_state(1) [OF tick]) simp
  ultimately show ?thesis using assms(1) wake_task_state(2,3) by (simp add: sched_inv_def)
next
  case False
  show ?thesis by (rule sched_exec_other(1) [OF assms False, of 0]) simp
qed

lemma sched_exec_multitasking:
  assumes "sched_inv s" and "sched_exec e (s, io) = Some (s', io')"
  shows "multitasking_enabled s' = multitasking_enabled s"
proof (cases "is_tick e")
  case True
  then obtain r where e: "e = Tick r" by (auto simp: is_tick_def split: sched_event.splits)
  from assms(1) obtain c where c: "current_task s = Some c" by (auto simp: sched_inv_def elim: proc_invE)
  show ?thesis using tick_table(3) [OF sched_invD [OF assms(1)] c assms(2) [unfolded e]] .
next
  case False
  with sched_exec_other(4) [OF assms False, of 0] show ?thesis by simp
qed

text \<open>C3. In every state that multitasking can reach from start-up, through any interleaving of
  timer interrupts, sleeping, exiting, creating, awaiting and reaping tasks, the table is
  well formed: the current task is a task in use, every task in use carries the number of
  its slot, the idle task can run and the shell is alive. (\<^verbatim>\<open>process_init\<close> establishes it.)\<close>

theorem sched_reachable_inv:
  assumes "sched_reachable (s, io) (s', io')" and "sched_inv s"
  shows "sched_inv s' \<and> proc_inv s'"
  using assms
proof (induction "(s, io)" "(s', io')" arbitrary: s' io' rule: sched_reachable.induct)
  case start
  then show ?case by (simp add: sched_inv_def)
next
  case (step y e)
  obtain t io1 where y: "y = (t, io1)" by (cases y)
  with step have "sched_inv t" by simp
  with step(3) y have "sched_inv s'" by (auto intro: sched_exec_inv)
  then show ?case by (simp add: sched_inv_def)
qed

section \<open>Fairness\<close>

text \<open>How many slots after the current one slot \<^verbatim>\<open>i\<close> comes, from 1 to 16.\<close>

definition slot_distance :: "nat \<Rightarrow> nat \<Rightarrow> nat" where
  "slot_distance c i = (if c < i then i - c else i + 16 - c)"

lemma slot_distance:
  assumes "c < 16" and "i < 16"
  shows "1 \<le> slot_distance c i" "slot_distance c i \<le> 16" "(c + slot_distance c i) mod 16 = i"
  using assms by (auto simp: slot_distance_def mod_if)

lemma slot_distance_step:
  assumes "c < 16" and "i < 16" and "1 \<le> k" and "k < slot_distance c i"
  shows "slot_distance ((c + k) mod 16) i + k = slot_distance c i"
proof -
  have "(c + k) mod 16 = (if c + k < 16 then c + k else c + k - 16)"
    using assms slot_distance(2) [OF assms(1,2)] by (auto simp: mod_if)
  with assms show ?thesis by (auto simp: slot_distance_def split: if_splits)
qed

lemma sched_inv_current:
  assumes "sched_inv s"
  obtains c where "c < 16" "current_task s = Some c" "length (process_table s) = 16"
  using assms by (auto simp: sched_inv_def elim: proc_invE)

lemma is_tickE: "is_tick e \<Longrightarrow> (\<And>r. e = Tick r \<Longrightarrow> P) \<Longrightarrow> P"
  by (auto simp: is_tick_def split: sched_event.splits)

text \<open>Each timer interrupt that does not choose task \<^verbatim>\<open>i\<close> brings the scheduler closer to it.\<close>

lemma tick_progress:
  assumes "sched_inv s" and "multitasking_enabled s" and "current_task s = Some c" and "c < 16" and "i < 16"
    and "sched_exec (Tick r) (s, io) = Some (s', io')" and "runnable s' i" and "current_task s' \<noteq> Some i"
  obtains c' where "c' < 16" "current_task s' = Some c'" "slot_distance c' i < slot_distance c i"
proof -
  from tick_table(6) [OF sched_invD [OF assms(1)] assms(3,6,2)] obtain k where
    k: "1 \<le> k" "k \<le> 16" "current_task s' = Some ((c + k) mod 16)"
      "\<forall>j. 1 \<le> j \<and> j < k \<longrightarrow> \<not> runnable s' ((c + j) mod 16)" by auto
  note d = slot_distance [OF assms(4,5)]
  have "\<not> slot_distance c i < k" using k(4) d assms(7) by auto
  moreover have "k \<noteq> slot_distance c i" using k(3) d(3) assms(8) by auto
  ultimately have "k < slot_distance c i" by simp
  from slot_distance_step [OF assms(4,5) k(1) this] k(1) that [of "(c + k) mod 16"] k(3)
  show thesis by simp
qed

lemma schedule_fair_distance:
  assumes "sched_inv s" and "multitasking_enabled s" and "current_task s = Some c" and "c < 16" and "i < 16"
    and "slot_distance c i \<le> length (filter is_tick es)"
    and "\<And>p. prefix p es \<Longrightarrow> \<exists>t io'. sched_run p (s, io) = Some (t, io') \<and> runnable t i"
  shows "\<exists>p r t io'. prefix (p @ [Tick r]) es \<and> sched_run (p @ [Tick r]) (s, io) = Some (t, io') \<and>
     current_task t = Some i"
  using assms
proof (induction es arbitrary: s io c)
  case Nil
  then show ?case using slot_distance(1) [of c i] by simp
next
  case (Cons e es)
  have "prefix [e] (e # es)" by simp
  from Cons.prems(7) [OF this] obtain s1 io1 where
    s1: "sched_exec e (s, io) = Some (s1, io1)" "runnable s1 i" by (auto simp: bind_eq_Some_conv)
  have inv: "sched_inv s1" "multitasking_enabled s1"
    using sched_exec_inv [OF Cons.prems(1) s1(1)] sched_exec_multitasking [OF Cons.prems(1) s1(1)]
      Cons.prems(2) by auto
  have pre: "\<exists>t io'. sched_run p (s1, io1) = Some (t, io') \<and> runnable t i" if "prefix p es" for p
    using Cons.prems(7) [of "e # p"] that s1(1) by simp
  have lift: ?case if "\<exists>p r t io'. prefix (p @ [Tick r]) es \<and>
      sched_run (p @ [Tick r]) (s1, io1) = Some (t, io') \<and> current_task t = Some i"
  proof -
    from that obtain p r t io' where "prefix (p @ [Tick r]) es"
      "sched_run (p @ [Tick r]) (s1, io1) = Some (t, io')" "current_task t = Some i" by auto
    then show ?thesis using s1(1) by (intro exI [of _ "e # p"] exI [of _ r]) auto
  qed
  show ?case
  proof (cases "is_tick e")
    case False
    have "current_task s1 = Some c"
      using sched_exec_other(2) [OF Cons.prems(1) s1(1) False Cons.prems(5)] Cons.prems(3) by simp
    with Cons.IH [OF inv _ Cons.prems(4,5) _ pre] Cons.prems(6) False show ?thesis by (intro lift) auto
  next
    case True
    then obtain r where e: "e = Tick r" by (rule is_tickE)
    show ?thesis
    proof (cases "current_task s1 = Some i")
      case True
      with s1(1) e show ?thesis
        by (intro exI [of _ "[]"] exI [of _ r] exI [of _ s1] exI [of _ io1]) auto
    next
      case False
      from tick_progress [OF Cons.prems(1-5) s1(1) [unfolded e] s1(2) False] obtain c' where
        "c' < 16" "current_task s1 = Some c'" "slot_distance c' i < slot_distance c i" .
      with Cons.IH [OF inv _ _ Cons.prems(5) _ pre] Cons.prems(6) True show ?thesis by (intro lift) auto
    qed
  qed
qed

text \<open>C2. The scheduler is fair: in any run of the system with at least sixteen timer interrupts
  in it (and anything else in between: tasks sleeping, exiting, being created and reaped) a
  task that stays runnable is given the CPU by one of those interrupts.\<close>

theorem schedule_fair:
  assumes "sched_inv s" and "multitasking_enabled s" and "i < 16"
    and "16 \<le> length (filter is_tick es)"
    and "\<And>p. prefix p es \<Longrightarrow> \<exists>t io'. sched_run p (s, io) = Some (t, io') \<and> runnable t i"
  shows "\<exists>p r t io'. prefix (p @ [Tick r]) es \<and> sched_run (p @ [Tick r]) (s, io) = Some (t, io') \<and>
     current_task t = Some i"
proof -
  from assms(1) obtain c where c: "c < 16" "current_task s = Some c" by (rule sched_inv_current)
  have "slot_distance c i \<le> length (filter is_tick es)"
    using slot_distance(2) [OF c(1) assms(3)] assms(4) by simp
  from schedule_fair_distance [OF assms(1,2) c(2,1) assms(3) this assms(5)] show ?thesis .
qed

section \<open>Sleeping\<close>

lemma sleeping_step:
  assumes "sched_inv s" and "sched_exec e (s, io) = Some (s', io')" and "i < 16"
    and "current_task s \<noteq> Some i" and "state (process_table s ! i) = TASK_STATE_SLEEPING"
    and "is_tick e \<Longrightarrow> tick s + 1 < wakeup_time (process_table s ! i)"
  shows "process_table s' ! i = process_table s ! i" "current_task s' \<noteq> Some i" "sched_inv s'"
    "tick s' = (if is_tick e then tick s + 1 else tick s)"
proof -
  show "sched_inv s'" using assms(1,2) by (rule sched_exec_inv)
  from assms(1) obtain c where c: "current_task s = Some c" by (rule sched_inv_current)
  have "process_table s' ! i = process_table s ! i \<and> current_task s' \<noteq> Some i \<and>
      tick s' = (if is_tick e then tick s + 1 else tick s)"
  proof (cases "is_tick e")
    case False
    with sched_exec_other(2,3,5) [OF assms(1,2) False assms(3)] assms(4,5) show ?thesis by simp
  next
    case True
    then obtain r where e: "e = Tick r" by (rule is_tickE)
    note tick = sched_invD [OF assms(1)] c assms(2) [unfolded e]
    have "process_table s' ! i = wake_task (tick s + 1) (process_table s ! i)"
      by (rule tick_state(2) [OF tick assms(3)]) (use c assms(4) in auto)
    then have same: "process_table s' ! i = process_table s ! i"
      using assms(6) [OF True] by (simp add: wake_task_def flip: not_less)
    then have "\<not> runnable s' i" using assms(5) by (simp add: runnable_def)
    with tick_table(5,6) [OF tick] c assms(4) have "current_task s' \<noteq> Some i"
      by (cases "multitasking_enabled s") auto
    with same tick_table(2) [OF tick] True show ?thesis by simp
  qed
  then show "process_table s' ! i = process_table s ! i" "current_task s' \<noteq> Some i"
    "tick s' = (if is_tick e then tick s + 1 else tick s)" by simp_all
qed

lemma sleeping_run:
  assumes "sched_inv s" and "sched_run es (s, io) = Some (s', io')" and "i < 16"
    and "current_task s \<noteq> Some i" and "state (process_table s ! i) = TASK_STATE_SLEEPING"
    and "unat (tick s) + length (filter is_tick es) < unat (wakeup_time (process_table s ! i))"
  shows "process_table s' ! i = process_table s ! i \<and> current_task s' \<noteq> Some i \<and> sched_inv s' \<and>
     unat (tick s') = unat (tick s) + length (filter is_tick es)"
  using assms
proof (induction es arbitrary: s io)
  case Nil
  then show ?case by simp
next
  case (Cons e es)
  from Cons.prems(2) obtain s1 io1 where
    s1: "sched_exec e (s, io) = Some (s1, io1)" "sched_run es (s1, io1) = Some (s', io')"
    by (auto simp: bind_eq_Some_conv)
  let ?w = "wakeup_time (process_table s ! i)"
  have t: "unat (tick s + 1) = unat (tick s) + 1"
    by (rule tick_step [of _ ?w]) (use Cons.prems(6) in \<open>simp add: word_less_nat_alt\<close>)
  have "is_tick e \<Longrightarrow> tick s + 1 < ?w" using Cons.prems(6) t by (simp add: word_less_nat_alt)
  note step = sleeping_step [OF Cons.prems(1) s1(1) Cons.prems(3-5) this]
  have "unat (tick s1) + length (filter is_tick es) = unat (tick s) + length (filter is_tick (e # es))"
    using step(4) t by simp
  with Cons.IH [OF step(3) s1(2) Cons.prems(3) step(2)] step(1) Cons.prems(5,6) show ?case by simp
qed

text \<open>C11. A task that sleeps and has been switched out (\<^verbatim>\<open>sleep\<close>, timer.c) is neither resumed nor
  altered before its time, whatever the other tasks do: through any run with fewer timer
  interrupts than remain until its wake-up tick, its control block stays the same and it is
  not the current task; and the timer interrupt at which the clock reaches the wake-up tick
  makes it runnable.\<close>

theorem sleep_until_wakeup:
  assumes "sched_inv s" and "i < 16" and "current_task s \<noteq> Some i"
    and "state (process_table s ! i) = TASK_STATE_SLEEPING"
    and "sched_run es (s, io) = Some (s', io')"
    and "unat (tick s) + length (filter is_tick es) < unat (wakeup_time (process_table s ! i))"
  shows "process_table s' ! i = process_table s ! i \<and> current_task s' \<noteq> Some i \<and>
     (unat (tick s) + length (filter is_tick es) + 1 = unat (wakeup_time (process_table s ! i)) \<longrightarrow>
        (\<forall>r s'' io''. sched_exec (Tick r) (s', io') = Some (s'', io'') \<longrightarrow> runnable s'' i))"
proof -
  note run = sleeping_run [OF assms(1,5,2,3,4,6)]
  have "runnable s'' i" if w: "unat (tick s) + length (filter is_tick es) + 1 = unat (wakeup_time (process_table s ! i))"
    and ex: "sched_exec (Tick r) (s', io') = Some (s'', io'')" for r s'' io''
  proof -
    from run have inv: "sched_inv s'" by simp
    then obtain c where c: "current_task s' = Some c" by (rule sched_inv_current)
    have "tick s' < wakeup_time (process_table s ! i)" using run w by (simp add: word_less_nat_alt)
    then have "unat (tick s' + 1) = unat (tick s') + 1" by (rule tick_step)
    with run w have "wakeup_time (process_table s' ! i) \<le> tick s' + 1" by (simp add: word_le_nat_alt)
    moreover have "state (process_table s'' ! i) = state (wake_task (tick s' + 1) (process_table s' ! i))"
      by (rule tick_state(1) [OF sched_invD [OF inv] c ex assms(2)])
    ultimately show ?thesis using run assms(4) by (simp add: runnable_def wake_task_def)
  qed
  with run show ?thesis by blast
qed

section \<open>Context switches are transparent\<close>

lemma context_kept_step:
  assumes "sched_inv s" and "sched_exec e (s, io) = Some (s', io')" and "i < 16" and "current_task s \<noteq> Some i"
    and "state (process_table s ! i) \<noteq> TASK_STATE_UNUSED" "state (process_table s ! i) \<noteq> TASK_STATE_ZOMBIE"
  shows "cpu_state (process_table s' ! i) = cpu_state (process_table s ! i) \<and>
     state (process_table s' ! i) \<noteq> TASK_STATE_UNUSED \<and> state (process_table s' ! i) \<noteq> TASK_STATE_ZOMBIE"
proof (cases "is_tick e")
  case False
  from sched_exec_other(6) [OF assms(1,2) False assms(3-6)] show ?thesis .
next
  case True
  then obtain r where e: "e = Tick r" by (rule is_tickE)
  from assms(1) obtain c where c: "current_task s = Some c" by (rule sched_inv_current)
  with assms(4) have "i \<noteq> c" by auto
  from tick_state(2) [OF sched_invD [OF assms(1)] c assms(2) [unfolded e] assms(3) this]
  show ?thesis using assms(5,6) by (simp add: wake_task_state)
qed

lemma context_kept:
  assumes "sched_inv s" and "sched_run es (s, io) = Some (s', io')" and "i < 16"
    and "state (process_table s ! i) \<noteq> TASK_STATE_UNUSED" "state (process_table s ! i) \<noteq> TASK_STATE_ZOMBIE"
    and "\<And>p t io1. prefix p es \<Longrightarrow> sched_run p (s, io) = Some (t, io1) \<Longrightarrow> current_task t \<noteq> Some i"
  shows "sched_inv s' \<and> cpu_state (process_table s' ! i) = cpu_state (process_table s ! i)"
  using assms
proof (induction es arbitrary: s io)
  case Nil
  then show ?case by simp
next
  case (Cons e es)
  from Cons.prems(2) obtain s1 io1 where
    s1: "sched_exec e (s, io) = Some (s1, io1)" "sched_run es (s1, io1) = Some (s', io')"
    by (auto simp: bind_eq_Some_conv)
  have "current_task s \<noteq> Some i" using Cons.prems(6) [of "[]" s io] by simp
  note step = context_kept_step [OF Cons.prems(1) s1(1) Cons.prems(3) this Cons.prems(4,5)]
  have "current_task t \<noteq> Some i" if "prefix p es" "sched_run p (s1, io1) = Some (t, io2)" for p t io2
    using Cons.prems(6) [of "e # p" t io2] that s1(1) by simp
  with Cons.IH [OF sched_exec_inv [OF Cons.prems(1) s1(1)] s1(2) Cons.prems(3)] step show ?case by auto
qed

lemma timer_frame:
  assumes "proc_inv s" and "multitasking_enabled s" and "timer_handler r s io = Some (fr, cr, s', io')"
    and "current_task s' = Some i"
  shows "fr = load_context (cpu_state (process_table s' ! i)) r \<and>
     cr = Some (c_cr3 (cpu_state (process_table s' ! i)))"
proof -
  from assms(1) obtain c where c: "current_task s = Some c" by (auto elim: proc_invE)
  from timer_handler_switch [OF assms(1) c assms(2), of r io] assms(3,4) show ?thesis by fastforce
qed

lemma sched_run_multitasking:
  "sched_inv s \<Longrightarrow> sched_run es (s, io) = Some (s', io') \<Longrightarrow>
     multitasking_enabled s' = multitasking_enabled s"
  by (induction es arbitrary: s io)
    (auto simp: bind_eq_Some_conv dest: sched_exec_inv sched_exec_multitasking)

text \<open>C1. Multitasking is transparent to a user task: when a timer interrupt takes the CPU from
  task \<^verbatim>\<open>i\<close> and, after an arbitrary run in which other tasks execute, a later timer interrupt
  gives it back, the frame through which that interrupt returns holds exactly the
  registers (general registers, instruction pointer, code and stack segment, flags, stack
  pointer) with which the task was interrupted, and CR3 is loaded with its page directory.\<close>

theorem context_switch_transparent:
  assumes "sched_inv s" and "multitasking_enabled s" and "i < 16" and "current_task s = Some i"
    and "state (process_table s ! i) \<noteq> TASK_STATE_ZOMBIE" and "r_cs r = 0x1B"
    and "timer_handler r s io = Some (fr1, cr1, s1, io1)"
    and "sched_run es (s1, io1) = Some (s2, io2)"
    and "\<And>p t io'. prefix p es \<Longrightarrow> sched_run p (s1, io1) = Some (t, io') \<Longrightarrow> current_task t \<noteq> Some i"
    and "timer_handler r2 s2 io2 = Some (fr, cr, s3, io3)" and "current_task s3 = Some i"
  shows "fr = r\<lparr>r_gs := r_gs r2, r_fs := r_fs r2, r_es := r_es r2, r_ds := r_ds r2,
       r_esp := r_esp r2, r_int_no := r_int_no r2, r_err_code := r_err_code r2\<rparr> \<and>
     cr = Some (page_directory (process_table s ! i))"
proof -
  have len: "length (process_table s) = 16" using assms(1) by (rule sched_inv_current)
  have ex1: "sched_exec (Tick r) (s, io) = Some (s1, io1)" using assms(7) by simp
  have inv1: "sched_inv s1" using assms(1) ex1 by (rule sched_exec_inv)
  note tick1 = sched_invD [OF assms(1)] assms(4) ex1
  have saved: "process_table s1 ! i = save_context r (wake_task (tick s + 1) (process_table s ! i))"
    using tick_table(1) [OF tick1] assms(2,3,5) len wake_task_state(2)
    by (simp add: saved_table_def)
  have alive: "state (process_table s1 ! i) \<noteq> TASK_STATE_UNUSED" "state (process_table s1 ! i) \<noteq> TASK_STATE_ZOMBIE"
    using assms(1,3,4,5) by (auto simp: saved wake_task_state sched_inv_def proc_inv_def)
  from context_kept [OF inv1 assms(8,3) alive assms(9)]
  have inv2: "sched_inv s2" and keep: "cpu_state (process_table s2 ! i) = cpu_state (process_table s1 ! i)"
    by simp_all
  have m: "multitasking_enabled s1" using sched_exec_multitasking [OF assms(1) ex1] assms(2) by simp
  then have m2: "multitasking_enabled s2"
    using sched_run_multitasking [OF inv1 assms(8)] by simp
  have "prefix es es" by simp
  from assms(9) [OF this assms(8)] have "current_task s2 \<noteq> Some i" .
  moreover obtain c where c: "current_task s2 = Some c" using inv2 by (rule sched_inv_current)
  moreover have ex3: "sched_exec (Tick r2) (s2, io2) = Some (s3, io3)" using assms(10) by simp
  ultimately have "cpu_state (process_table s3 ! i) = cpu_state (process_table s2 ! i)"
    using tick_state(2) [OF sched_invD [OF inv2] c ex3 assms(3)] by auto
  then have "cpu_state (process_table s3 ! i) =
      cpu_state (save_context r (wake_task (tick s + 1) (process_table s ! i)))"
    using keep saved by simp
  with timer_frame [OF sched_invD [OF inv2] m2 assms(10,11)] load_saved_context [OF assms(6)]
  show ?thesis by simp
qed

section \<open>A concrete system\<close>

text \<open>Idle task, shell waiting for its child, and a user task in slot 2 that has the CPU.\<close>

definition quiet_io :: io_state where "quiet_io = \<lparr>io_trace = [], intr_flag = False\<rparr>"

definition user_timer :: timer_state where
  "user_timer = boot_timer\<lparr>current_task := Some 2,
     process_table := [boot_idle, boot_shell\<lparr>state := TASK_STATE_WAITING\<rparr>,
       boot_shell\<lparr>pid := 2, page_directory := 0x50000\<rparr>] @ replicate 13 zero_task\<rparr>"

text \<open>The same with the user task asleep until tick 43 and the idle task running.\<close>

definition sleepy_timer :: timer_state where
  "sleepy_timer = user_timer\<lparr>current_task := Some 0,
     process_table := (process_table user_timer)
       [2 := (process_table user_timer ! 2)\<lparr>state := TASK_STATE_SLEEPING, wakeup_time := 43\<rparr>]\<rparr>"

lemma all_less_16: "(\<forall>i < 16. P i) \<longleftrightarrow> list_all P [0 ..< 16]" for P :: "nat \<Rightarrow> bool"
  by (auto simp: list_all_iff)

lemma user_timer_inv: "sched_inv user_timer" "sched_inv sleepy_timer" "sched_inv boot_timer"
proof -
  have c: "current_task user_timer = Some 2" "current_task sleepy_timer = Some 0"
      "current_task boot_timer = Some 0"
    by (simp_all add: user_timer_def sleepy_timer_def boot_timer_def)
  show "sched_inv user_timer"
    unfolding sched_inv_def proc_inv_def all_less_16 c by (intro conjI exI [of _ 2]) code_simp+
  show "sched_inv sleepy_timer"
    unfolding sched_inv_def proc_inv_def all_less_16 c by (intro conjI exI [of _ 0]) code_simp+
  show "sched_inv boot_timer"
    unfolding sched_inv_def proc_inv_def all_less_16 c by (intro conjI exI [of _ 0]) code_simp+
qed

theorem sched_reachable_inv_witness:
  "\<exists>s' io'. sched_exec (Tick sample_registers) (user_timer, quiet_io) = Some (s', io') \<and>
     sched_inv s' \<and> proc_inv s'"
proof -
  have "sched_exec (Tick sample_registers) (user_timer, quiet_io) \<noteq> None" by code_simp
  then obtain s' io' where x: "sched_exec (Tick sample_registers) (user_timer, quiet_io) = Some (s', io')"
    by auto
  from sched_reachable.step [OF sched_reachable.start x] have "sched_reachable (user_timer, quiet_io) (s', io')" .
  from sched_reachable_inv [OF this user_timer_inv(1)] x show ?thesis by auto
qed

lemma ticks_run:
  assumes "sched_inv s" and "multitasking_enabled s" and "i < 16" and "runnable s i"
  shows "\<exists>t io'. sched_run (replicate n (Tick r)) (s, io) = Some (t, io') \<and> runnable t i"
  using assms
proof (induction n arbitrary: s io)
  case 0
  then show ?case by simp
next
  case (Suc n)
  from Suc.prems(1) obtain c where c: "current_task s = Some c" by (rule sched_inv_current)
  from timer_handler_switch [OF sched_invD [OF Suc.prems(1)] c Suc.prems(2), of r io] obtain s1 io1 where
    ex: "sched_exec (Tick r) (s, io) = Some (s1, io1)" by fastforce
  have "runnable s1 i"
    using tick_state(1) [OF sched_invD [OF Suc.prems(1)] c ex Suc.prems(3)] Suc.prems(4)
    by (simp add: runnable_def wake_task_state)
  with Suc.IH [OF sched_exec_inv [OF Suc.prems(1) ex]] sched_exec_multitasking [OF Suc.prems(1) ex] Suc.prems
  have "\<exists>t io'. sched_run (replicate n (Tick r)) (s1, io1) = Some (t, io') \<and> runnable t i" by simp
  then show ?case by (simp only: replicate_Suc sched_run.simps ex Option.bind.bind_lunit)
qed

theorem schedule_fair_witness:
  "\<exists>p r t io'. prefix (p @ [Tick r]) (replicate 16 (Tick sample_registers)) \<and>
     sched_run (p @ [Tick r]) (boot_timer, quiet_io) = Some (t, io') \<and> current_task t = Some 1"
proof (rule schedule_fair)
  show "sched_inv boot_timer" by (rule user_timer_inv)
  show m: "multitasking_enabled boot_timer" by (simp add: boot_timer_def)
  show "\<exists>t io'. sched_run p (boot_timer, quiet_io) = Some (t, io') \<and> runnable t 1"
    if "prefix p (replicate 16 (Tick sample_registers))" for p
  proof -
    from that have "p = replicate (length p) (Tick sample_registers)"
      by (auto simp: prefix_def in_set_conv_decomp intro!: replicate_length_same [symmetric]
          dest!: arg_cong [where f = set] split: if_splits)
    moreover have "runnable boot_timer 1" by (simp add: runnable_def) code_simp
    ultimately show ?thesis using ticks_run [OF user_timer_inv(3) m, of 1 "length p" sample_registers quiet_io]
      by simp
  qed
qed (simp_all add: is_tick_def)

theorem sleep_until_wakeup_witness:
  "\<exists>s' io'. sched_run [Tick sample_registers] (sleepy_timer, quiet_io) = Some (s', io') \<and>
     process_table s' ! 2 = process_table sleepy_timer ! 2 \<and> current_task s' \<noteq> Some 2"
proof -
  have "sched_run [Tick sample_registers] (sleepy_timer, quiet_io) \<noteq> None" by code_simp
  then obtain s' io' where x: "sched_run [Tick sample_registers] (sleepy_timer, quiet_io) = Some (s', io')"
    by auto
  have t: "current_task sleepy_timer \<noteq> Some 2" "tick sleepy_timer = 41"
    "state (process_table sleepy_timer ! 2) = TASK_STATE_SLEEPING"
    "wakeup_time (process_table sleepy_timer ! 2) = 43"
    by code_simp+
  then show ?thesis using sleep_until_wakeup [OF user_timer_inv(2) _ t(1,3) x] x by (auto simp: is_tick_def)
qed

theorem context_switch_transparent_witness:
  "\<exists>s1 io1 fr cr s3 io3 fr1 cr1.
     timer_handler sample_registers user_timer quiet_io = Some (fr1, cr1, s1, io1) \<and>
     timer_handler (sample_registers\<lparr>r_eip := 0x10100, r_cs := 0x08\<rparr>) s1 io1 = Some (fr, cr, s3, io3) \<and>
     r_eip fr = 0x400000 \<and> r_cs fr = 0x1B \<and> r_useresp fr = 0xBFFFFFF0 \<and> cr = Some 0x50000"
proof -
  let ?r2 = "sample_registers\<lparr>r_eip := 0x10100, r_cs := 0x08\<rparr>"
  let ?x = "timer_handler sample_registers user_timer quiet_io"
  have "?x \<noteq> None" by code_simp
  then obtain fr1 cr1 s1 io1 where x: "?x = Some (fr1, cr1, s1, io1)" by auto
  have "current_task (fst (snd (snd (the ?x)))) = Some 0" by code_simp
  then have c1: "current_task s1 = Some 0" by (simp add: x)
  have "sched_run [Tick sample_registers, Tick ?r2] (user_timer, quiet_io) \<noteq> None" by code_simp
  then obtain fr cr s3 io3 where y: "timer_handler ?r2 s1 io1 = Some (fr, cr, s3, io3)"
    by (cases "timer_handler ?r2 s1 io1") (auto simp: x)
  have "current_task (fst (the (sched_run [Tick sample_registers, Tick ?r2] (user_timer, quiet_io)))) = Some 2"
    by code_simp
  then have c3: "current_task s3 = Some 2" by (simp add: x y)
  have t: "multitasking_enabled user_timer" "current_task user_timer = Some 2"
    "state (process_table user_timer ! 2) \<noteq> TASK_STATE_ZOMBIE" "r_cs sample_registers = 0x1B"
    "page_directory (process_table user_timer ! 2) = 0x50000"
    by code_simp+
  have "fr = sample_registers\<lparr>r_gs := r_gs ?r2, r_fs := r_fs ?r2, r_es := r_es ?r2, r_ds := r_ds ?r2,
       r_esp := r_esp ?r2, r_int_no := r_int_no ?r2, r_err_code := r_err_code ?r2\<rparr> \<and>
     cr = Some (page_directory (process_table user_timer ! 2))"
    by (rule context_switch_transparent [OF user_timer_inv(1) t(1) _ t(2-4) x _ _ y c3, of "[]"])
      (use c1 in auto)
  with x y t(5) show ?thesis by (simp add: sample_registers_def)
qed

end
