(* ===== verification/Machine.thy ===== *)
theory Machine
  imports Pmm
begin

text \<open>
  The memory the kernel runs on: byte-addressed physical memory and the paging unit of the
  x86 (two-level page tables with 4 KB pages), as \<^verbatim>\<open>kernel/mm/paging.c\<close> and
  \<^verbatim>\<open>kernel/cpu/paging_asm.asm\<close> use them. An access to an address that is not mapped is a page
  fault, \<^term>\<open>None\<close>. The translation cache is taken to be coherent: the source invalidates
  every entry it changes. Supervisor accesses ignore the write-protection bit because the
  kernel never sets CR0.WP.
\<close>

section \<open>Bytes and words\<close>

type_synonym memory = "u32 \<Rightarrow> u8"

definition load32 :: "memory \<Rightarrow> u32 \<Rightarrow> u32" where
  "load32 m a = ucast (m a) OR push_bit 8 (ucast (m (a + 1))) OR
     push_bit 16 (ucast (m (a + 2))) OR push_bit 24 (ucast (m (a + 3)))"

definition store32 :: "memory \<Rightarrow> u32 \<Rightarrow> u32 \<Rightarrow> memory" where
  "store32 m a v = m(a := ucast v, a + 1 := ucast (drop_bit 8 v),
     a + 2 := ucast (drop_bit 16 v), a + 3 := ucast (drop_bit 24 v))"

section \<open>The paging unit\<close>

record machine_state = pmm_state +
  phys :: memory
  cr3 :: u32
  cr0_pg :: bool
  kernel_directory :: u32

definition pd_index :: "u32 \<Rightarrow> u32" where "pd_index va = drop_bit 22 va"
definition pt_index :: "u32 \<Rightarrow> u32" where "pt_index va = drop_bit 12 va AND 0x3FF"
definition page_offset :: "u32 \<Rightarrow> u32" where "page_offset va = va AND 0xFFF"
definition frame_of :: "u32 \<Rightarrow> u32" where "frame_of entry = entry AND NOT 0xFFF"
definition present :: "u32 \<Rightarrow> bool" where "present entry \<longleftrightarrow> bit entry 0"

definition read_pde :: "'a machine_state_scheme \<Rightarrow> u32 \<Rightarrow> u32" where
  "read_pde s i = load32 (phys s) (frame_of (cr3 s) + 4 * i)"

text \<open>The page table entry for an address, when the directory has a table for it.\<close>

definition lookup_pte :: "'a machine_state_scheme \<Rightarrow> u32 \<Rightarrow> u32 option" where
  "lookup_pte s va =
     (let pde = read_pde s (pd_index va)
      in if present pde then Some (load32 (phys s) (frame_of pde + 4 * pt_index va)) else None)"

definition translate :: "'a machine_state_scheme \<Rightarrow> u32 \<Rightarrow> u32 option" where
  "translate s va =
     (if cr0_pg s then
        (case lookup_pte s va of
           None \<Rightarrow> None
         | Some pte \<Rightarrow> if present pte then Some (frame_of pte + page_offset va) else None)
      else Some va)"

text \<open>Whether user mode may read the address: both levels must have the user flag (bit 2).\<close>

definition user_accessible :: "'a machine_state_scheme \<Rightarrow> u32 \<Rightarrow> bool" where
  "user_accessible s va \<longleftrightarrow>
     (case lookup_pte s va of
        None \<Rightarrow> False
      | Some pte \<Rightarrow> present pte \<and> bit pte 2 \<and> bit (read_pde s (pd_index va)) 2)"

text \<open>Accesses through virtual addresses. A word that crosses a page is accessed by bytes.\<close>

definition vload8 :: "'a machine_state_scheme \<Rightarrow> u32 \<Rightarrow> u8 option" where
  "vload8 s va = map_option (phys s) (translate s va)"

definition vstore8 :: "u32 \<Rightarrow> u8 \<Rightarrow> 'a machine_state_scheme \<Rightarrow> 'a machine_state_scheme option" where
  "vstore8 va v s = map_option (\<lambda>pa. s\<lparr>phys := (phys s)(pa := v)\<rparr>) (translate s va)"

definition vload32 :: "'a machine_state_scheme \<Rightarrow> u32 \<Rightarrow> u32 option" where
  "vload32 s va =
     (if page_offset va \<le> 0xFFC then map_option (load32 (phys s)) (translate s va)
      else do {
        b0 \<leftarrow> vload8 s va; b1 \<leftarrow> vload8 s (va + 1);
        b2 \<leftarrow> vload8 s (va + 2); b3 \<leftarrow> vload8 s (va + 3);
        Some (ucast b0 OR push_bit 8 (ucast b1) OR push_bit 16 (ucast b2) OR push_bit 24 (ucast b3))
      })"

definition vstore32 :: "u32 \<Rightarrow> u32 \<Rightarrow> 'a machine_state_scheme \<Rightarrow> 'a machine_state_scheme option" where
  "vstore32 va v s =
     (if page_offset va \<le> 0xFFC
      then map_option (\<lambda>pa. s\<lparr>phys := store32 (phys s) pa v\<rparr>) (translate s va)
      else do {
        p0 \<leftarrow> translate s va; p1 \<leftarrow> translate s (va + 1);
        p2 \<leftarrow> translate s (va + 2); p3 \<leftarrow> translate s (va + 3);
        Some (s\<lparr>phys := (phys s)(p0 := ucast v, p1 := ucast (drop_bit 8 v),
                p2 := ucast (drop_bit 16 v), p3 := ucast (drop_bit 24 v))\<rparr>)
      })"

text \<open>\<^verbatim>\<open>memset\<close> and \<^verbatim>\<open>memcpy\<close> (string.c) on virtual addresses, \<^verbatim>\<open>n\<close> bytes to go.\<close>

fun vmemset :: "nat \<Rightarrow> u32 \<Rightarrow> u8 \<Rightarrow> 'a machine_state_scheme \<Rightarrow> 'a machine_state_scheme option" where
  "vmemset 0 va v s = Some s"
| "vmemset (Suc n) va v s = vstore8 va v s \<bind> vmemset n (va + 1) v"

fun vmemcpy :: "nat \<Rightarrow> u32 \<Rightarrow> u32 \<Rightarrow> 'a machine_state_scheme \<Rightarrow> 'a machine_state_scheme option" where
  "vmemcpy 0 dst src s = Some s"
| "vmemcpy (Suc n) dst src s =
     vload8 s src \<bind> (\<lambda>b. vstore8 dst b s \<bind> vmemcpy n (dst + 1) (src + 1))"

definition load_page_directory :: "u32 \<Rightarrow> 'a machine_state_scheme \<Rightarrow> 'a machine_state_scheme" where
  "load_page_directory dir s = s\<lparr>cr3 := dir\<rparr>"

definition enable_paging :: "'a machine_state_scheme \<Rightarrow> 'a machine_state_scheme" where
  "enable_paging s = s\<lparr>cr0_pg := True\<rparr>"

text \<open>The allocator does not depend on the memory it manages.\<close>

lemma pmm_machine_fields [kernel_frame, simp]:
  "free_frames (s\<lparr>phys := m\<rparr>) = free_frames s" "pmm_inv (s\<lparr>phys := m\<rparr>) = pmm_inv s"
  "free_frames (s\<lparr>cr3 := c\<rparr>) = free_frames s" "pmm_inv (s\<lparr>cr3 := c\<rparr>) = pmm_inv s"
  "free_frames (s\<lparr>kernel_directory := d\<rparr>) = free_frames s" "pmm_inv (s\<lparr>kernel_directory := d\<rparr>) = pmm_inv s"
  "managed_frames (s\<lparr>phys := m\<rparr>) = managed_frames s" "managed_frames (s\<lparr>cr3 := c\<rparr>) = managed_frames s"
  by (simp_all add: free_frames_def managed_frames_def pmm_inv_def)

section \<open>Word arithmetic on addresses\<close>

lemma mask_12: "(0xFFF :: u32) = mask 12" by (simp add: mask_eq_exp_minus_1)
lemma mask_10: "(0x3FF :: u32) = mask 10" by (simp add: mask_eq_exp_minus_1)

lemma unat_page_offset: "unat (page_offset a) = unat a mod 4096"
  by (simp add: page_offset_def mask_12 unat_mod_distrib take_bit_eq_mod flip: take_bit_eq_mask)

lemma unat_pd_index: "unat (pd_index a) = unat a div 4194304"
  by (simp add: pd_index_def drop_bit_eq_div unat_div_distrib)

lemma unat_pt_index: "unat (pt_index a) = unat a div 4096 mod 1024"
  by (simp add: pt_index_def mask_10 drop_bit_eq_div unat_div_distrib unat_mod_distrib take_bit_eq_mod
      flip: take_bit_eq_mask)

lemma unat_frame_of: "unat (frame_of a) = unat a div 4096 * 4096"
proof -
  have "frame_of a = push_bit 12 (drop_bit 12 a)"
    by (rule bit_word_eqI) (auto simp: frame_of_def mask_12 bit_simps)
  moreover have "unat a div 4096 * 4096 < 4294967296"
    using unat_u32_bound [of a] by (meson div_times_less_eq_dividend order_le_less_trans)
  ultimately show ?thesis
    by (simp add: push_bit_eq_mult drop_bit_eq_div unat_word_ariths unat_div_distrib)
qed


text \<open>The two indices determine the page.\<close>

lemma frame_of_indices:
  assumes "pd_index a = pd_index b" and "pt_index a = pt_index b"
  shows "frame_of a = frame_of b"
proof -
  have split: "unat x div 4096 = unat (pd_index x) * 1024 + unat (pt_index x)" for x
    using div_mult_mod_eq [of "unat x div 4096" 1024]
    by (simp add: unat_pd_index unat_pt_index div_mult2_eq [symmetric])
  show ?thesis using split [of a] split [of b] assms by (simp add: word_unat_eq_iff unat_frame_of)
qed

text \<open>Page-aligned addresses.\<close>

definition page_aligned :: "u32 \<Rightarrow> bool" where
  "page_aligned a \<longleftrightarrow> 4096 dvd unat a"

lemma page_aligned_frame_of [simp]: "page_aligned (frame_of a)"
  by (simp add: page_aligned_def unat_frame_of)

lemma unat_offset:
  assumes "page_aligned a" and "n < 4096"
  shows "unat (a + of_nat n) = unat a + n"
proof -
  obtain q where q: "unat a = 4096 * q" using assms(1) unfolding page_aligned_def by (elim dvdE)
  moreover have "q < 1048576" using unat_u32_bound [of a] unfolding q by simp
  ultimately have "unat a + n < 4294967296" using assms(2) by simp
  moreover have "unat (of_nat n :: u32) = n" using assms(2) by (simp add: unat_of_nat_u32)
  ultimately show ?thesis by (simp add: unat_plus_u32_small)
qed

lemma offset_inj:
  assumes "page_aligned a" "page_aligned b" "n < 4096" "m < 4096" "a + of_nat n = b + of_nat m"
  shows "a = b \<and> n = m"
proof -
  have eq: "unat a + n = unat b + m" using assms unat_offset by metis
  moreover have "(unat a + n) mod 4096 = n" "(unat b + m) mod 4096 = m"
    using assms(1-4) unfolding page_aligned_def by (auto elim!: dvdE)
  ultimately have "unat a = unat b \<and> n = m" by simp
  then show ?thesis by (simp add: word_unat_eq_iff)
qed

lemma frame_of_aligned: "page_aligned a \<Longrightarrow> frame_of a = a"
  by (simp add: word_unat_eq_iff unat_frame_of page_aligned_def)

lemma frame_of_offset: "page_aligned a \<Longrightarrow> n < 4096 \<Longrightarrow> frame_of (a + of_nat n) = a"
  by (auto simp: word_unat_eq_iff unat_frame_of unat_offset page_aligned_def elim!: dvdE)

lemma offset_of_frame: "\<exists>k < 4096. a = frame_of a + of_nat k"
proof (intro exI conjI)
  show "unat a mod 4096 < 4096" by simp
  then have "unat (frame_of a + of_nat (unat a mod 4096)) = unat a div 4096 * 4096 + unat a mod 4096"
    by (simp add: unat_offset unat_frame_of)
  then show "a = frame_of a + of_nat (unat a mod 4096)" by (simp add: word_unat_eq_iff)
qed

lemma page_aligned_bits: "page_aligned a \<longleftrightarrow> a AND 0xFFF = 0"
proof -
  have "page_aligned a \<longleftrightarrow> unat (page_offset a) = 0"
    by (simp add: page_aligned_def unat_page_offset dvd_eq_mod_eq_0)
  also have "\<dots> \<longleftrightarrow> page_offset a = 0" by (simp only: unat_eq_0)
  finally show ?thesis by (simp add: page_offset_def)
qed

lemma frame_of_or:
  assumes "page_aligned a" and "fl AND 0xFFF = fl"
  shows "frame_of (a OR fl) = a"
proof (rule bit_word_eqI)
  fix n assume n: "n < LENGTH(32)"
  have "bit (a AND mask 12) n = bit (0 :: u32) n" "bit (fl AND mask 12) n = bit fl n"
    using assms by (simp_all add: page_aligned_bits mask_12)
  then show "bit (frame_of (a OR fl)) n = bit a n"
    using n by (auto simp: frame_of_def mask_12 bit_simps)
qed

lemma present_or: "page_aligned a \<Longrightarrow> present (a OR fl) = bit fl 0"
proof -
  assume "page_aligned a"
  then have "bit (a AND mask 12) 0 = bit (0 :: u32) 0" by (simp add: page_aligned_bits mask_12)
  then show ?thesis by (simp add: present_def bit_or_iff bit_and_iff bit_mask_iff)
qed

section \<open>Words in memory\<close>

lemma bytes_of_word:
  "(ucast (ucast v :: u8) :: u32) OR push_bit 8 (ucast (ucast (drop_bit 8 v) :: u8)) OR
     push_bit 16 (ucast (ucast (drop_bit 16 v) :: u8)) OR push_bit 24 (ucast (ucast (drop_bit 24 v) :: u8)) = v"
  for v :: u32
proof (rule bit_word_eqI)
  fix n assume "n < LENGTH(32)"
  then have "n < 8 \<or> 8 \<le> n \<and> n < 16 \<or> 16 \<le> n \<and> n < 24 \<or> 24 \<le> n \<and> n < 32" by auto
  then show "bit ((ucast (ucast v :: u8) :: u32) OR push_bit 8 (ucast (ucast (drop_bit 8 v) :: u8)) OR
     push_bit 16 (ucast (ucast (drop_bit 16 v) :: u8)) OR push_bit 24 (ucast (ucast (drop_bit 24 v) :: u8))) n
     = bit v n"
    by (elim disjE) (auto simp: bit_simps)
qed

lemma load32_store32_same: "load32 (store32 m a v) a = v"
  using bytes_of_word [of v] by (simp add: load32_def store32_def)

lemma store32_apply:
  "store32 m a v b =
     (if b = a + 3 then ucast (drop_bit 24 v) else if b = a + 2 then ucast (drop_bit 16 v)
      else if b = a + 1 then ucast (drop_bit 8 v) else if b = a then ucast v else m b)"
  by (simp add: store32_def)

lemma load32_cong:
  assumes "\<And>k. k < 4 \<Longrightarrow> m (a + of_nat k) = m' (a + of_nat k)"
  shows "load32 m a = load32 m' a"
  using assms [of 0] assms [of 1] assms [of 2] assms [of 3] by (simp add: load32_def)

lemma unat_word_offset: "4 dvd unat (a :: u32) \<Longrightarrow> n < 4 \<Longrightarrow> unat (a + of_nat n) = unat a + n"
proof -
  assume "4 dvd unat a" and n: "n < 4"
  then obtain q where q: "unat a = 4 * q" by (elim dvdE)
  moreover have "q < 1073741824" using unat_u32_bound [of a] unfolding q by simp
  ultimately have "unat a + n < 4294967296" using n by simp
  then show ?thesis using n by (simp add: unat_plus_u32_small unat_of_nat_u32)
qed

lemma load32_store32_other:
  assumes "4 dvd unat a" and "4 dvd unat b" and "a \<noteq> b"
  shows "load32 (store32 m a v) b = load32 m b"
proof (rule load32_cong)
  fix k :: nat assume k: "k < 4"
  have "b + of_nat k \<noteq> a + of_nat j" if "j < 4" for j :: nat
  proof
    assume eq: "b + of_nat k = a + of_nat j"
    have "unat b + k = unat a + j" using eq unat_word_offset assms k that by metis
    then have "unat a = unat b" using assms k that by presburger
    with assms(3) show False by (simp add: word_unat_eq_iff)
  qed
  from this [of 0] this [of 1] this [of 2] this [of 3]
  show "store32 m a v (b + of_nat k) = m (b + of_nat k)" by (simp add: store32_apply)
qed

end
