(* ===== verification/Paging.thy ===== *)
theory Paging
  imports Machine
begin

text \<open>
  Address spaces: \<^verbatim>\<open>kernel/mm/paging.c\<close>. The kernel reaches the page directory and the page
  tables that are in use through the recursive entry 1023 of the directory. The functions
  below make every access through the paging unit of the theory \<^verbatim>\<open>Machine\<close>, so that a wrong
  or missing mapping shows up as a page fault (\<^term>\<open>None\<close>) or as a store to the wrong frame.
  A pointer result of 0 is NULL.
\<close>

section \<open>Operations\<close>

definition TEMP_PAGETABLE_ADDR :: u32 where "TEMP_PAGETABLE_ADDR = 0xFFBFF000"
definition TEMP_PAGEDIR_ADDR :: u32 where "TEMP_PAGEDIR_ADDR = 0xFFBFE000"
definition CURRENT_PAGE_TABLES :: u32 where "CURRENT_PAGE_TABLES = 0xFFC00000"
definition CURRENT_PAGE_DIR :: u32 where "CURRENT_PAGE_DIR = 0xFFFFF000"
definition PAGING_FLAG_PRESENT :: u32 where "PAGING_FLAG_PRESENT = 0x1"
definition PAGING_FLAG_RW :: u32 where "PAGING_FLAG_RW = 0x2"
definition PAGING_FLAG_USER :: u32 where "PAGING_FLAG_USER = 0x4"

lemmas paging_flags = PAGING_FLAG_PRESENT_def PAGING_FLAG_RW_def PAGING_FLAG_USER_def

definition paging_get_page ::
    "u32 \<Rightarrow> u32 \<Rightarrow> bool \<Rightarrow> u32 \<Rightarrow> 'a machine_state_scheme \<Rightarrow> (u32 \<times> 'a machine_state_scheme) option" where
  "paging_get_page dir virt_addr create flags s =
     (let pd_idx = drop_bit 22 virt_addr; pt_idx = drop_bit 12 virt_addr AND 0x3FF;
          table = CURRENT_PAGE_TABLES + 4096 * pd_idx
      in do {
        pde \<leftarrow> vload32 s (CURRENT_PAGE_DIR + 4 * pd_idx);
        if pde AND PAGING_FLAG_PRESENT = 0 then
          (if create then do {
             (new_table_phys, s) \<leftarrow> pmm_alloc_frame s;
             if new_table_phys = 0 then Some (0, s)
             else do {
               s \<leftarrow> vmemset 4096 new_table_phys 0 s;
               s \<leftarrow> vstore32 (CURRENT_PAGE_DIR + 4 * pd_idx) (new_table_phys OR (flags AND 0x7)) s;
               Some (table + 4 * pt_idx, s)
             }
           }
           else Some (0, s))
        else Some (table + 4 * pt_idx, s)
      })"

definition paging_map_page ::
    "u32 \<Rightarrow> u32 \<Rightarrow> u32 \<Rightarrow> u32 \<Rightarrow> 'a machine_state_scheme \<Rightarrow> 'a machine_state_scheme option" where
  "paging_map_page dir virt_addr phys_addr flags s =
     do {
       (pte, s) \<leftarrow> paging_get_page dir virt_addr True flags s;
       if pte \<noteq> 0 then vstore32 pte (phys_addr OR flags) s else Some s
     }"

definition paging_switch_directory :: "u32 \<Rightarrow> 'a machine_state_scheme \<Rightarrow> 'a machine_state_scheme" where
  "paging_switch_directory dir s = load_page_directory dir s"

text \<open>The loop of \<^verbatim>\<open>paging_init\<close> that fills the first page table, \<^verbatim>\<open>n\<close> entries from \<^verbatim>\<open>i\<close> on.\<close>

fun identity_entries :: "nat \<Rightarrow> u32 \<Rightarrow> u32 \<Rightarrow> 'a machine_state_scheme \<Rightarrow> 'a machine_state_scheme option" where
  "identity_entries 0 i first_pt s = Some s"
| "identity_entries (Suc n) i first_pt s =
     vstore32 (first_pt + 4 * i) (i * 0x1000 OR PAGING_FLAG_PRESENT OR PAGING_FLAG_RW) s \<bind>
     identity_entries n (i + 1) first_pt"

definition paging_init :: "'a machine_state_scheme \<Rightarrow> 'a machine_state_scheme option" where
  "paging_init s =
     do {
       (dir, s) \<leftarrow> pmm_alloc_frame s;
       let s = s\<lparr>kernel_directory := dir\<rparr>;
       if dir = 0 then Some s
       else do {
         s \<leftarrow> vmemset 4096 dir 0 s;
         (first_pt, s) \<leftarrow> pmm_alloc_frame s;
         if first_pt = 0 then Some s
         else do {
           s \<leftarrow> vmemset 4096 first_pt 0 s;
           s \<leftarrow> identity_entries 1024 0 first_pt s;
           s \<leftarrow> vstore32 dir (first_pt OR PAGING_FLAG_PRESENT OR PAGING_FLAG_RW) s;
           s \<leftarrow> vstore32 (dir + 4 * 1023) (dir OR PAGING_FLAG_PRESENT OR PAGING_FLAG_RW) s;
           Some (enable_paging (load_page_directory dir s))
         }
       }
     }"

text \<open>The loop of \<^verbatim>\<open>paging_clone_directory\<close> over the kernel's entries, \<^verbatim>\<open>n\<close> of them from \<^verbatim>\<open>i\<close> on.\<close>

fun clone_entries :: "nat \<Rightarrow> u32 \<Rightarrow> 'a machine_state_scheme \<Rightarrow> 'a machine_state_scheme option" where
  "clone_entries 0 i s = Some s"
| "clone_entries (Suc n) i s =
     do {
       e \<leftarrow> vload32 s (CURRENT_PAGE_DIR + 4 * i);
       s \<leftarrow> (if e AND PAGING_FLAG_PRESENT \<noteq> 0 then vstore32 (TEMP_PAGEDIR_ADDR + 4 * i) e s else Some s);
       clone_entries n (i + 1) s
     }"

definition paging_clone_directory ::
    "u32 \<Rightarrow> 'a machine_state_scheme \<Rightarrow> (u32 \<times> 'a machine_state_scheme) option" where
  "paging_clone_directory src_phys s =
     do {
       (new_dir_phys, s) \<leftarrow> pmm_alloc_frame s;
       if new_dir_phys = 0 then Some (0, s)
       else do {
         s \<leftarrow> paging_map_page CURRENT_PAGE_DIR TEMP_PAGEDIR_ADDR new_dir_phys
                (PAGING_FLAG_PRESENT OR PAGING_FLAG_RW) s;
         s \<leftarrow> vmemset 4096 TEMP_PAGEDIR_ADDR 0 s;
         e0 \<leftarrow> vload32 s CURRENT_PAGE_DIR;
         s \<leftarrow> vstore32 TEMP_PAGEDIR_ADDR e0 s;
         s \<leftarrow> clone_entries 255 768 s;
         s \<leftarrow> vstore32 (TEMP_PAGEDIR_ADDR + 4 * 1023)
                (new_dir_phys OR PAGING_FLAG_PRESENT OR PAGING_FLAG_RW) s;
         s \<leftarrow> paging_map_page CURRENT_PAGE_DIR TEMP_PAGEDIR_ADDR 0 0 s;
         Some (new_dir_phys, s)
       }
     }"

text \<open>The two loops of \<^verbatim>\<open>paging_free_directory\<close>.\<close>

fun free_table_entries :: "nat \<Rightarrow> u32 \<Rightarrow> 'a machine_state_scheme \<Rightarrow> 'a machine_state_scheme option" where
  "free_table_entries 0 j s = Some s"
| "free_table_entries (Suc n) j s =
     do {
       e \<leftarrow> vload32 s (TEMP_PAGETABLE_ADDR + 4 * j);
       s \<leftarrow> (if e AND PAGING_FLAG_PRESENT \<noteq> 0 then pmm_free_frame (e AND NOT 0xFFF) s else Some s);
       free_table_entries n (j + 1) s
     }"

fun free_directory_entries :: "nat \<Rightarrow> u32 \<Rightarrow> 'a machine_state_scheme \<Rightarrow> 'a machine_state_scheme option" where
  "free_directory_entries 0 i s = Some s"
| "free_directory_entries (Suc n) i s =
     do {
       pde \<leftarrow> vload32 s (TEMP_PAGEDIR_ADDR + 4 * i);
       s \<leftarrow> (if pde AND PAGING_FLAG_PRESENT \<noteq> 0 then
               do {
                 let pt_phys = pde AND NOT 0xFFF;
                 s \<leftarrow> paging_map_page (kernel_directory s) TEMP_PAGETABLE_ADDR pt_phys
                        (PAGING_FLAG_PRESENT OR PAGING_FLAG_RW) s;
                 s \<leftarrow> free_table_entries 1024 0 s;
                 s \<leftarrow> paging_map_page (kernel_directory s) TEMP_PAGETABLE_ADDR 0 0 s;
                 pmm_free_frame pt_phys s
               }
             else Some s);
       free_directory_entries n (i + 1) s
     }"

definition paging_free_directory :: "u32 \<Rightarrow> 'a machine_state_scheme \<Rightarrow> 'a machine_state_scheme option" where
  "paging_free_directory dir_phys s =
     (if dir_phys = 0 then Some s
      else do {
        s \<leftarrow> paging_map_page CURRENT_PAGE_DIR TEMP_PAGEDIR_ADDR dir_phys
               (PAGING_FLAG_PRESENT OR PAGING_FLAG_RW) s;
        s \<leftarrow> free_directory_entries 767 1 s;
        s \<leftarrow> paging_map_page CURRENT_PAGE_DIR TEMP_PAGEDIR_ADDR 0 0 s;
        pmm_free_frame dir_phys s
      })"

section \<open>Well-formed address spaces\<close>

text \<open>
  Paging is on, entry 1023 of the directory maps the directory itself, and no two present
  entries share a frame, so that no page table is used twice or is the directory.
\<close>

definition paging_wf :: "'a machine_state_scheme \<Rightarrow> bool" where
  "paging_wf s \<longleftrightarrow>
     cr0_pg s \<and> page_aligned (cr3 s) \<and> present (read_pde s 1023) \<and> frame_of (read_pde s 1023) = cr3 s \<and>
     (\<forall>i j. i < 1024 \<longrightarrow> j < 1024 \<longrightarrow> i \<noteq> j \<longrightarrow> present (read_pde s i) \<longrightarrow> present (read_pde s j) \<longrightarrow>
        frame_of (read_pde s i) \<noteq> frame_of (read_pde s j))"

text \<open>The frames that hold the directory and its page tables.\<close>

definition table_frames :: "'a machine_state_scheme \<Rightarrow> u32 set" where
  "table_frames s = {frame_of (read_pde s i) | i. i < 1024 \<and> present (read_pde s i)}"

lemma paging_wfD:
  assumes "paging_wf s"
  shows "cr0_pg s" "page_aligned (cr3 s)" "present (read_pde s 1023)" "frame_of (read_pde s 1023) = cr3 s"
    "frame_of (cr3 s) = cr3 s"
    "\<And>i. i < 1024 \<Longrightarrow> present (read_pde s i) \<Longrightarrow> i \<noteq> 1023 \<Longrightarrow> frame_of (read_pde s i) \<noteq> cr3 s"
proof -
  show "cr0_pg s" "page_aligned (cr3 s)" "present (read_pde s 1023)" "frame_of (read_pde s 1023) = cr3 s"
    using assms by (simp_all add: paging_wf_def)
  then show "frame_of (cr3 s) = cr3 s" by (simp add: frame_of_aligned)
  show "\<And>i. i < 1024 \<Longrightarrow> present (read_pde s i) \<Longrightarrow> i \<noteq> 1023 \<Longrightarrow> frame_of (read_pde s i) \<noteq> cr3 s"
  proof -
    fix i assume "i < 1024" "present (read_pde s i)" "i \<noteq> 1023"
    moreover have "(1023 :: u32) < 1024" by simp
    ultimately show "frame_of (read_pde s i) \<noteq> cr3 s"
      using assms unfolding paging_wf_def by metis
  qed
qed

lemma pd_index_less: "pd_index va < 1024"
proof -
  have "unat va div 4194304 < 1024" using unat_u32_bound [of va] by (simp add: less_mult_imp_div_less)
  then show ?thesis by (simp add: word_less_nat_alt unat_pd_index)
qed

lemma pt_index_less: "pt_index va < 1024"
  by (simp add: word_less_nat_alt unat_pt_index)

lemma present_and: "e AND PAGING_FLAG_PRESENT = 0 \<longleftrightarrow> \<not> present e"
  using test_bit_zero_iff [of e 0] by (simp add: paging_flags present_def)

lemma less_1024: "(i :: u32) < 1024 \<longleftrightarrow> unat i < 1024"
  by (simp add: word_less_nat_alt)

lemma word_offset: "(i :: u32) < 1024 \<Longrightarrow> 4 * i = of_nat (4 * unat i) \<and> 4 * unat i < 4096"
  by (simp add: less_1024)

lemma unat_word_index: "page_aligned a \<Longrightarrow> i < 1024 \<Longrightarrow> unat (a + 4 * i) = unat a + 4 * unat i"
  using unat_offset [of a "4 * unat i"] by (simp add: less_1024)

lemma word_index_dvd: "page_aligned a \<Longrightarrow> i < 1024 \<Longrightarrow> 4 dvd unat (a + 4 * i)"
proof -
  assume a: "page_aligned a" "i < 1024"
  have "4 dvd (4096 :: nat)" by simp
  then have "4 dvd unat a" using a(1) unfolding page_aligned_def by (rule dvd_trans)
  then show ?thesis unfolding unat_word_index [OF a] by (rule dvd_add) (rule dvd_triv_left)
qed

lemma word_index_inj:
  assumes "page_aligned a" "page_aligned b" "i < 1024" "j < 1024" "a + 4 * i = b + 4 * j"
  shows "a = b \<and> i = j"
proof -
  have "a + of_nat (4 * unat i) = b + of_nat (4 * unat j)"
    using assms(5) word_offset [OF assms(3)] word_offset [OF assms(4)] by metis
  from offset_inj [OF assms(1,2) _ _ this] have "a = b \<and> 4 * unat i = 4 * unat j"
    using word_offset [OF assms(3)] word_offset [OF assms(4)] by metis
  then show ?thesis by (auto simp: word_unat_eq_iff)
qed

lemma load32_index:
  assumes "page_aligned a" "page_aligned b" "i < 1024" "j < 1024"
  shows "load32 (store32 m (a + 4 * i) v) (b + 4 * j) =
     (if a = b \<and> i = j then v else load32 m (b + 4 * j))"
proof (cases "a = b \<and> i = j")
  case True
  then show ?thesis by (simp add: load32_store32_same)
next
  case False
  with word_index_inj [OF assms] have "a + 4 * i \<noteq> b + 4 * j" by blast
  with False show ?thesis
    using load32_store32_other [OF word_index_dvd word_index_dvd] assms by auto
qed

section \<open>The recursive window\<close>

text \<open>
  The address 0xFFC00000 + 4096 i + 4 j is entry \<^verbatim>\<open>j\<close> of page table \<^verbatim>\<open>i\<close>; for \<^verbatim>\<open>i\<close> = 1023 it is
  entry \<^verbatim>\<open>j\<close> of the page directory.
\<close>

definition window :: "u32 \<Rightarrow> u32 \<Rightarrow> u32" where
  "window i j = CURRENT_PAGE_TABLES + 4096 * i + 4 * j"

lemma unat_window:
  assumes "i < 1024" and "j < 1024"
  shows "unat (window i j) = 4290772992 + 4096 * unat i + 4 * unat j"
proof -
  have b: "unat i < 1024" "unat j < 1024" using assms by (simp_all add: less_1024)
  have "unat (4096 * i) = 4096 * unat i" "unat (4 * j) = 4 * unat j"
    using b by (simp_all add: unat_word_ariths)
  moreover from this b have "unat (CURRENT_PAGE_TABLES + 4096 * i) = 4290772992 + 4096 * unat i"
    by (simp add: unat_plus_u32_small CURRENT_PAGE_TABLES_def)
  ultimately show ?thesis using b by (simp add: window_def unat_plus_u32_small)
qed

lemma window_index:
  assumes "i < 1024" and "j < 1024"
  shows "pd_index (window i j) = 1023" "pt_index (window i j) = i" "page_offset (window i j) = 4 * j"
proof -
  have b: "unat i < 1024" "unat j < 1024" using assms by (simp_all add: less_1024)
  note w = unat_window [OF assms]
  have w': "unat (window i j) = 4096 * (1047552 + unat i) + 4 * unat j" using w by simp
  have j: "4 * unat j < 4096" using b by simp
  have q: "unat (window i j) div 4096 = 1047552 + unat i" unfolding w' using j by simp
  have "unat (window i j) div 4194304 = 1023"
  proof -
    have "unat (window i j) div 4194304 = unat (window i j) div 4096 div 1024"
      by (simp add: div_mult2_eq [symmetric])
    also have "\<dots> = 1023" unfolding q using b by simp
    finally show ?thesis .
  qed
  then show "pd_index (window i j) = 1023" by (simp add: word_unat_eq_iff unat_pd_index)
  have "unat (window i j) div 4096 mod 1024 = unat i" unfolding q using b by (simp add: mod_if [of "_ + _"])
  then show "pt_index (window i j) = i" by (simp add: word_unat_eq_iff unat_pt_index)
  have "unat (window i j) mod 4096 = 4 * unat j"
    using j mod_mult_self4 [of 4096 "1047552 + unat i" "4 * unat j"] unfolding w' by simp
  moreover have "unat (4 * j) = 4 * unat j" using b by (simp add: unat_word_ariths)
  ultimately show "page_offset (window i j) = 4 * j" by (simp add: word_unat_eq_iff unat_page_offset)
qed


text \<open>What the kernel reads and writes through the window.\<close>

lemma page_offset_window:
  assumes "i < 1024" and "j < 1024"
  shows "page_offset (window i j) \<le> 0xFFC"
proof -
  have "unat (4 * j) = 4 * unat j" "unat j < 1024"
    using assms by (simp_all add: unat_word_ariths less_1024)
  then show ?thesis unfolding window_index(3) [OF assms] by (simp add: word_le_nat_alt)
qed

lemma translate_window:
  assumes "paging_wf s" and "i < 1024" and "j < 1024"
  shows "translate s (window i j) =
     (if present (read_pde s i) then Some (frame_of (read_pde s i) + 4 * j) else None)"
proof -
  have "lookup_pte s (window i j) = Some (read_pde s i)"
    using paging_wfD [OF assms(1)] window_index [OF assms(2,3)]
    by (simp add: lookup_pte_def Let_def read_pde_def)
  then show ?thesis
    using paging_wfD(1) [OF assms(1)] window_index(3) [OF assms(2,3)] by (simp add: translate_def)
qed

lemma window_directory: "CURRENT_PAGE_DIR + 4 * i = window 1023 i"
  by (simp add: window_def CURRENT_PAGE_DIR_def CURRENT_PAGE_TABLES_def)

lemma vload32_directory:
  assumes "paging_wf s" and "i < 1024"
  shows "vload32 s (CURRENT_PAGE_DIR + 4 * i) = Some (read_pde s i)"
proof -
  have m: "(1023 :: u32) < 1024" by simp
  have "translate s (window 1023 i) = Some (cr3 s + 4 * i)"
    using translate_window [OF assms(1) m assms(2)] paging_wfD [OF assms(1)] by simp
  then show ?thesis
    using page_offset_window [OF m assms(2)] paging_wfD(5) [OF assms(1)]
    by (simp add: window_directory vload32_def read_pde_def)
qed

lemma vstore32_directory:
  assumes "paging_wf s" and "i < 1024"
  shows "vstore32 (CURRENT_PAGE_DIR + 4 * i) v s =
     Some (s\<lparr>phys := store32 (phys s) (cr3 s + 4 * i) v\<rparr>)"
proof -
  have m: "(1023 :: u32) < 1024" by simp
  have "translate s (window 1023 i) = Some (cr3 s + 4 * i)"
    using translate_window [OF assms(1) m assms(2)] paging_wfD [OF assms(1)] by simp
  then show ?thesis
    using page_offset_window [OF m assms(2)] by (simp add: window_directory vstore32_def)
qed

lemma vstore32_window:
  assumes "paging_wf s" and "i < 1024" and "j < 1024" and "present (read_pde s i)"
  shows "vstore32 (window i j) v s =
     Some (s\<lparr>phys := store32 (phys s) (frame_of (read_pde s i) + 4 * j) v\<rparr>)"
  using translate_window [OF assms(1-3)] page_offset_window [OF assms(2,3)] assms(4)
  by (simp add: vstore32_def)

lemma window_nonzero: "i < 1024 \<Longrightarrow> j < 1024 \<Longrightarrow> window i j \<noteq> 0"
  using unat_window [of i j] by auto

text \<open>\<^verbatim>\<open>paging_map_page\<close> when the page table exists: one store.\<close>

lemma map_page_present:
  assumes "paging_wf s" and "present (read_pde s (pd_index va))"
  shows "paging_map_page dir va pa fl s =
     Some (s\<lparr>phys := store32 (phys s) (frame_of (read_pde s (pd_index va)) + 4 * pt_index va) (pa OR fl)\<rparr>)"
proof -
  note idx = pd_index_less [of va] pt_index_less [of va]
  have "paging_get_page dir va True fl s = Some (window (pd_index va) (pt_index va), s)"
    using vload32_directory [OF assms(1) idx(1)] assms(2)
    by (simp add: paging_get_page_def Let_def present_and window_def flip: pd_index_def pt_index_def)
  then show ?thesis
    using vstore32_window [OF assms(1) idx assms(2)] window_nonzero [OF idx]
    by (simp add: paging_map_page_def)
qed

section \<open>Stores that do not touch the page tables\<close>

lemma load32_outside:
  assumes "page_aligned b" and "j < 1024" and "b \<noteq> f" and "\<And>a. frame_of a \<noteq> f \<Longrightarrow> m a = m' a"
  shows "load32 m (b + 4 * j) = load32 m' (b + 4 * j)"
proof (rule load32_cong)
  fix k :: nat assume k: "k < 4"
  have j: "4 * unat j + k < 4096" using assms(2) k by (simp add: less_1024)
  have "b + 4 * j + of_nat k = b + of_nat (4 * unat j + k)" by simp
  moreover have "frame_of (b + of_nat (4 * unat j + k)) = b"
    using frame_of_offset [OF assms(1) j] .
  ultimately show "m (b + 4 * j + of_nat k) = m' (b + 4 * j + of_nat k)"
    using assms(3,4) by metis
qed

definition same_outside :: "u32 \<Rightarrow> memory \<Rightarrow> memory \<Rightarrow> bool" where
  "same_outside f m m' \<longleftrightarrow> (\<forall>a. frame_of a \<noteq> f \<longrightarrow> m a = m' a)"

lemma table_frames_directory: "paging_wf s \<Longrightarrow> cr3 s \<in> table_frames s"
proof -
  assume "paging_wf s"
  note wf = paging_wfD [OF this]
  have "(1023 :: u32) < 1024" by simp
  with wf show ?thesis unfolding table_frames_def by (auto intro!: exI [of _ 1023])
qed

lemma outside_tables:
  assumes "paging_wf s" and "f \<notin> table_frames s" and "same_outside f (phys s) m"
  shows "i < 1024 \<Longrightarrow> read_pde (s\<lparr>phys := m\<rparr>) i = read_pde s i"
    and "lookup_pte (s\<lparr>phys := m\<rparr>) va = lookup_pte s va"
    and "translate (s\<lparr>phys := m\<rparr>) va = translate s va"
    and "paging_wf (s\<lparr>phys := m\<rparr>)"
proof -
  note wf = paging_wfD [OF assms(1)]
  have f: "cr3 s \<noteq> f" using table_frames_directory [OF assms(1)] assms(2) by auto
  have pde: "read_pde (s\<lparr>phys := m\<rparr>) i = read_pde s i" if "i < 1024" for i
    using load32_outside [OF wf(2) that f, of m "phys s"] assms(3) wf(5)
    by (simp add: read_pde_def same_outside_def)
  show "i < 1024 \<Longrightarrow> read_pde (s\<lparr>phys := m\<rparr>) i = read_pde s i" by (rule pde)
  have look: "lookup_pte (s\<lparr>phys := m\<rparr>) va = lookup_pte s va" for va
  proof (cases "present (read_pde s (pd_index va))")
    case True
    then have "frame_of (read_pde s (pd_index va)) \<in> table_frames s"
      using pd_index_less [of va] by (auto simp: table_frames_def)
    with assms(2) have "frame_of (read_pde s (pd_index va)) \<noteq> f" by auto
    from load32_outside [OF page_aligned_frame_of pt_index_less this, of m "phys s"] assms(3) True
    show ?thesis by (simp add: lookup_pte_def Let_def pde [OF pd_index_less] same_outside_def)
  qed (simp add: lookup_pte_def Let_def pde [OF pd_index_less])
  then show "lookup_pte (s\<lparr>phys := m\<rparr>) va = lookup_pte s va" .
  show "translate (s\<lparr>phys := m\<rparr>) va = translate s va" by (simp add: translate_def look)
  have "(1023 :: u32) < 1024" by simp
  from pde [OF this] pde show "paging_wf (s\<lparr>phys := m\<rparr>)"
    using assms(1) unfolding paging_wf_def by auto
qed

text \<open>\<^verbatim>\<open>memset\<close> of a page whose mapping the stores do not change.\<close>

definition zero_page :: "memory \<Rightarrow> u32 \<Rightarrow> memory" where
  "zero_page m f = (\<lambda>a. if frame_of a = f then 0 else m a)"

lemma vmemset_run:
  assumes "\<And>k m. k < n \<Longrightarrow> same_outside f (phys s) m \<Longrightarrow>
      translate (s\<lparr>phys := m\<rparr>) (va + of_nat k) = Some (pa + of_nat k)"
    and "\<And>k. k < n \<Longrightarrow> frame_of (pa + of_nat k) = f"
  shows "vmemset n va v s =
     Some (s\<lparr>phys := (\<lambda>a. if \<exists>k < n. a = pa + of_nat k then v else phys s a)\<rparr>)"
  using assms
proof (induction n arbitrary: va pa s)
  case 0
  then show ?case by simp
next
  case (Suc n)
  let ?s = "s\<lparr>phys := (phys s)(pa := v)\<rparr>"
  have f: "frame_of pa = f" using Suc.prems(2) [of 0] by simp
  have "translate s va = Some pa" using Suc.prems(1) [of 0 "phys s"] by (simp add: same_outside_def)
  then have step: "vstore8 va v s = Some ?s" by (simp add: vstore8_def)
  have shift: "c + 1 + of_nat k = c + of_nat (Suc k)" for c :: u32 and k by (simp add: add.assoc)
  have "vmemset n (va + 1) v ?s =
      Some (?s\<lparr>phys := (\<lambda>a. if \<exists>k < n. a = pa + 1 + of_nat k then v else phys ?s a)\<rparr>)"
  proof (rule Suc.IH)
    fix k m assume k: "k < n" and m: "same_outside f (phys ?s) m"
    from m f have "same_outside f (phys s) m" by (auto simp: same_outside_def split: if_splits)
    then show "translate (?s\<lparr>phys := m\<rparr>) (va + 1 + of_nat k) = Some (pa + 1 + of_nat k)"
      using Suc.prems(1) [of "Suc k" m] k unfolding shift by simp
  next
    fix k assume "k < n"
    then show "frame_of (pa + 1 + of_nat k) = f" using Suc.prems(2) [of "Suc k"] unfolding shift by simp
  qed
  moreover have "(\<lambda>a. if \<exists>k < n. a = pa + 1 + of_nat k then v else phys ?s a) =
      (\<lambda>a. if \<exists>k < Suc n. a = pa + of_nat k then v else phys s a)"
    unfolding shift by (rule ext) (auto simp: Ex_less_Suc2)
  ultimately show ?case using step by simp
qed

lemma vmemset_page:
  assumes "page_aligned f"
    and "\<And>k m. k < 4096 \<Longrightarrow> same_outside f (phys s) m \<Longrightarrow>
      translate (s\<lparr>phys := m\<rparr>) (va + of_nat k) = Some (f + of_nat k)"
  shows "vmemset 4096 va 0 s = Some (s\<lparr>phys := zero_page (phys s) f\<rparr>)"
proof -
  have "(\<exists>k < 4096. a = f + of_nat k) \<longleftrightarrow> frame_of a = f" for a
    using frame_of_offset [OF assms(1)] offset_of_frame [of a] by metis
  then show ?thesis
    using vmemset_run [of 4096 f s va f 0] assms frame_of_offset [OF assms(1)]
    by (simp add: zero_page_def)
qed

lemma same_outside_zero_page: "same_outside f m (zero_page m f)"
  by (simp add: same_outside_def zero_page_def)

lemma load32_zero_page:
  assumes "page_aligned f" and "j < 1024"
  shows "load32 (zero_page m f) (f + 4 * j) = 0"
proof -
  have "frame_of (f + 4 * j + of_nat k) = f" if "k < 4" for k
  proof -
    have "4 * unat j + k < 4096" using assms(2) that by (simp add: less_1024)
    from frame_of_offset [OF assms(1) this] show ?thesis by (simp add: add.assoc)
  qed
  from this [of 0] this [of 1] this [of 2] this [of 3] show ?thesis
    by (simp add: load32_def zero_page_def)
qed

section \<open>Stores to the page tables\<close>

lemma store32_outside:
  assumes "page_aligned a" and "i < 1024"
  shows "same_outside a m (store32 m (a + 4 * i) v)"
proof -
  have in_page: "frame_of (a + 4 * i + of_nat k) = a" if "k < 4" for k
  proof -
    have "4 * unat i + k < 4096" using assms(2) that by (simp add: less_1024)
    from frame_of_offset [OF assms(1) this] show ?thesis by (simp add: add.assoc)
  qed
  show ?thesis
    using in_page [of 0] in_page [of 1] in_page [of 2] in_page [of 3]
    by (auto simp: same_outside_def store32_apply)
qed

lemma store_table:
  assumes "paging_wf s" and "i < 1024" and "j < 1024" and "i \<noteq> 1023" and "present (read_pde s i)"
    and "s' = s\<lparr>phys := store32 (phys s) (frame_of (read_pde s i) + 4 * j) v\<rparr>"
  shows "k < 1024 \<Longrightarrow> read_pde s' k = read_pde s k"
    and "lookup_pte s' va = (if pd_index va = i \<and> pt_index va = j then Some v else lookup_pte s va)"
    and "paging_wf s'" and "cr3 s' = cr3 s"
proof -
  note wf = paging_wfD [OF assms(1)]
  have ne: "frame_of (read_pde s i) \<noteq> cr3 s" using wf(6) [OF assms(2,5,4)] .
  show cr: "cr3 s' = cr3 s" by (simp add: assms(6))
  have pde: "read_pde s' k = read_pde s k" if "k < 1024" for k
    using load32_index [OF page_aligned_frame_of [of "read_pde s i"] wf(2) assms(3) that] ne wf(5)
    by (simp add: assms(6) read_pde_def)
  then show "k < 1024 \<Longrightarrow> read_pde s' k = read_pde s k" .
  have inj: "frame_of (read_pde s i) = frame_of (read_pde s k) \<Longrightarrow> k = i" if "k < 1024" "present (read_pde s k)" for k
    using assms(1,2,5) that unfolding paging_wf_def by blast
  show "lookup_pte s' va = (if pd_index va = i \<and> pt_index va = j then Some v else lookup_pte s va)"
  proof (cases "present (read_pde s (pd_index va))")
    case True
    have "load32 (phys s') (frame_of (read_pde s (pd_index va)) + 4 * pt_index va) =
        (if frame_of (read_pde s i) = frame_of (read_pde s (pd_index va)) \<and> j = pt_index va then v
         else load32 (phys s) (frame_of (read_pde s (pd_index va)) + 4 * pt_index va))"
      using load32_index [OF page_aligned_frame_of page_aligned_frame_of assms(3) pt_index_less]
      by (simp add: assms(6))
    with True inj [OF pd_index_less True] show ?thesis
      by (auto simp: lookup_pte_def Let_def pde [OF pd_index_less])
  qed (use assms(5) in \<open>auto simp: lookup_pte_def Let_def pde [OF pd_index_less]\<close>)
  have "(1023 :: u32) < 1024" by simp
  from pde [OF this] pde show "paging_wf s'"
    using assms(1) cr unfolding paging_wf_def assms(6) by auto
qed

lemma store_directory:
  assumes "paging_wf s" and "i < 1024" and "i \<noteq> 1023" and "\<not> present (read_pde s i)"
    and "f \<notin> table_frames s" and "frame_of v = f" and "present v"
    and "s' = s\<lparr>phys := store32 (phys s) (cr3 s + 4 * i) v\<rparr>"
  shows "k < 1024 \<Longrightarrow> read_pde s' k = (if k = i then v else read_pde s k)"
    and "pd_index va = i \<Longrightarrow> lookup_pte s' va = Some (load32 (phys s) (f + 4 * pt_index va))"
    and "pd_index va \<notin> {i, 1023} \<Longrightarrow> lookup_pte s' va = lookup_pte s va"
    and "paging_wf s'"
proof -
  note wf = paging_wfD [OF assms(1)]
  have f: "page_aligned f" "cr3 s \<noteq> f"
    using assms(5,6) page_aligned_frame_of table_frames_directory [OF assms(1)] by auto
  have pde: "read_pde s' k = (if k = i then v else read_pde s k)" if "k < 1024" for k
    using load32_index [OF wf(2) wf(2) assms(2) that] wf(5) by (auto simp: assms(8) read_pde_def)
  then show "k < 1024 \<Longrightarrow> read_pde s' k = (if k = i then v else read_pde s k)" .
  have other: "load32 (phys s') (b + 4 * pt_index va) = load32 (phys s) (b + 4 * pt_index va)"
    if "page_aligned b" "b \<noteq> cr3 s" for b
    using load32_index [OF wf(2) that(1) assms(2) pt_index_less] that(2) by (simp add: assms(8))
  show "pd_index va = i \<Longrightarrow> lookup_pte s' va = Some (load32 (phys s) (f + 4 * pt_index va))"
    using other [OF f(1)] f(2) assms(6,7) pde [OF pd_index_less, of va]
    by (simp add: lookup_pte_def Let_def)
  show "pd_index va \<notin> {i, 1023} \<Longrightarrow> lookup_pte s' va = lookup_pte s va"
    using pde [OF pd_index_less, of va] other [OF page_aligned_frame_of] wf(6) [OF pd_index_less, of va]
    by (simp add: lookup_pte_def Let_def)
  have new: "frame_of (read_pde s k) \<noteq> f" if "k < 1024" "present (read_pde s k)" for k
    using assms(5) that unfolding table_frames_def by blast
  have "(1023 :: u32) < 1024" by simp
  then have rec: "read_pde s' 1023 = read_pde s 1023" using pde assms(3) by simp
  have "frame_of (read_pde s' k) \<noteq> frame_of (read_pde s' l)"
    if "k < 1024" "l < 1024" "k \<noteq> l" "present (read_pde s' k)" "present (read_pde s' l)" for k l
    using that assms(1,6) new [of k] new [of l] unfolding paging_wf_def
    by (cases "k = i"; cases "l = i") (simp_all add: pde)
  then show "paging_wf s'"
    using assms(1) rec unfolding paging_wf_def by (simp add: assms(8))
qed

text \<open>
  \<^verbatim>\<open>paging_map_page\<close> when the directory has no table for the address: a frame is taken from
  the physical memory manager, cleared through its identity mapping and entered.
\<close>

definition identity_mapped :: "'a machine_state_scheme \<Rightarrow> u32 \<Rightarrow> bool" where
  "identity_mapped s f \<longleftrightarrow> (\<forall>k < 4096. translate s (f + of_nat k) = Some (f + of_nat k))"

lemma pmm_alloc_frame_machine:
  assumes "pmm_alloc_frame s = Some (f, s1)"
  shows "phys s1 = phys s" "cr3 s1 = cr3 s" "cr0_pg s1 = cr0_pg s" "kernel_directory s1 = kernel_directory s"
  using assms
  by (auto simp: pmm_alloc_frame_def pmm_set_bit_def Let_def split: option.splits if_splits)

lemma read_pde_cong: "phys s1 = phys s \<Longrightarrow> cr3 s1 = cr3 s \<Longrightarrow> read_pde s1 = read_pde s"
  by (rule ext) (simp add: read_pde_def)

lemma paging_cong:
  assumes "phys s1 = phys s" "cr3 s1 = cr3 s" "cr0_pg s1 = cr0_pg s"
  shows "lookup_pte s1 va = lookup_pte s va" "translate s1 va = translate s va"
    "paging_wf s1 = paging_wf s" "table_frames s1 = table_frames s"
    "user_accessible s1 va = user_accessible s va"
proof -
  note pde = read_pde_cong [OF assms(1,2)]
  show look: "lookup_pte s1 va = lookup_pte s va" for va by (simp add: lookup_pte_def pde assms(1) Let_def)
  show "translate s1 va = translate s va" by (simp add: translate_def look assms(3))
  show "paging_wf s1 = paging_wf s" by (simp add: paging_wf_def pde assms)
  show "table_frames s1 = table_frames s" by (simp add: table_frames_def pde)
  show "user_accessible s1 va = user_accessible s va" by (simp add: user_accessible_def look pde split: option.splits)
qed

lemma frame_addr_aligned: "i < 1048576 \<Longrightarrow> page_aligned (frame_addr i)"
  by (simp add: page_aligned_def unat_frame_addr)

lemma vmemset_identity:
  assumes "paging_wf s" and "page_aligned f" and "f \<notin> table_frames s" and "identity_mapped s f"
  shows "vmemset 4096 f 0 s = Some (s\<lparr>phys := zero_page (phys s) f\<rparr>)"
proof (rule vmemset_page [OF assms(2)])
  fix k :: nat and m assume "k < 4096" and "same_outside f (phys s) m"
  then show "translate (s\<lparr>phys := m\<rparr>) (f + of_nat k) = Some (f + of_nat k)"
    using outside_tables(3) [OF assms(1,3)] assms(4) by (simp add: identity_mapped_def)
qed

lemma low_flags: "frame_of (f OR (fl AND 7)) = f" "present (f OR (fl AND 7)) = bit fl 0" if "page_aligned f"
proof -
  have "(fl AND 7) AND 0xFFF = fl AND (7 :: u32)" by (simp add: and.assoc)
  then show "frame_of (f OR (fl AND 7)) = f" by (rule frame_of_or [OF that])
  have "bit (7 :: u32) 0" by simp
  then show "present (f OR (fl AND 7)) = bit fl 0" using present_or [OF that] by (simp add: bit_and_iff)
qed

lemma get_page_absent:
  assumes "paging_wf s" and "pmm_inv s" and "\<not> present (read_pde s (pd_index va))" and "bit fl 0"
    and "free_frames s \<noteq> {}" and "f = frame_addr (Min (free_frames s))"
    and "f \<notin> table_frames s" and "identity_mapped s f"
  obtains s1 where "paging_get_page dir va True fl s = Some (window (pd_index va) (pt_index va), s1)"
    "paging_wf s1" "read_pde s1 (pd_index va) = f OR (fl AND 7)"
    "\<forall>va'. pd_index va' = pd_index va \<longrightarrow> lookup_pte s1 va' = Some 0"
    "\<forall>va'. pd_index va' \<notin> {pd_index va, 1023} \<longrightarrow>
       lookup_pte s1 va' = lookup_pte s va' \<and> read_pde s1 (pd_index va') = read_pde s (pd_index va')"
    "cr3 s1 = cr3 s" "pmm_inv s1" "free_frames s1 = free_frames s - {Min (free_frames s)}"
    "\<forall>a. frame_of a \<notin> insert f (table_frames s) \<longrightarrow> phys s1 a = phys s a"
proof -
  let ?i = "pd_index va" and ?v = "f OR (fl AND 7)"
  from pmm_alloc_frame_least [OF assms(2,5)] obtain bm where
    bm: "pmm_alloc_frame s = Some (f, s\<lparr>pmm_bitmap := bm\<rparr>)" "length bm = length (pmm_bitmap s)"
      "free_frames (s\<lparr>pmm_bitmap := bm\<rparr>) = free_frames s - {Min (free_frames s)}"
    unfolding assms(6) .
  let ?a = "s\<lparr>pmm_bitmap := bm\<rparr>"
  have inv: "pmm_inv ?a" by (rule pmm_inv_update) (use assms(2) bm in \<open>auto simp: pmm_inv_def\<close>)
  have cong: "phys ?a = phys s" "cr3 ?a = cr3 s" "cr0_pg ?a = cr0_pg s" by simp_all
  have min: "Min (free_frames s) \<in> free_frames s" using assms(5) by (intro Min_in) auto
  have "0 \<notin> free_frames s" using assms(2) by (simp add: pmm_inv_def)
  with min have num: "Min (free_frames s) < 1048576" "Min (free_frames s) \<noteq> 0"
    using managed_bound [OF assms(2)] free_frames_managed [of s] by (blast, metis)
  have f: "page_aligned f" "f \<noteq> 0"
    unfolding assms(6) using frame_addr_aligned [OF num(1)] frame_addr_eq_0 [OF num(1)] num(2) by auto
  have wf: "paging_wf ?a" and tab: "f \<notin> table_frames ?a" and id: "identity_mapped ?a f"
    using assms(1,7,8) paging_cong [OF cong] by (simp_all add: identity_mapped_def)
  let ?z = "?a\<lparr>phys := zero_page (phys ?a) f\<rparr>"
  have set0: "vmemset 4096 f 0 ?a = Some ?z" by (rule vmemset_identity [OF wf f(1) tab id])
  note z = outside_tables [OF wf tab same_outside_zero_page]
  have zpde: "read_pde ?z i = read_pde s i" if "i < 1024" for i
    using z(1) [OF that] read_pde_cong [OF cong(1,2)] by simp
  have zwf: "paging_wf ?z" by (rule z(4))
  have ztab: "f \<notin> table_frames ?z" using tab zpde unfolding table_frames_def read_pde_cong [OF cong(1,2)] by auto
  have i: "?i \<noteq> 1023" using assms(3) paging_wfD(3) [OF assms(1)] by metis
  let ?s1 = "?z\<lparr>phys := store32 (phys ?z) (cr3 ?z + 4 * ?i) ?v\<rparr>"
  have absent: "\<not> present (read_pde ?z ?i)" using assms(3) zpde [OF pd_index_less] by simp
  note d = store_directory [OF zwf pd_index_less i absent ztab low_flags(1) [OF f(1)]
      _ refl, unfolded low_flags(2) [OF f(1)], OF assms(4)]
  have pde0: "vload32 s (CURRENT_PAGE_DIR + 4 * ?i) = Some (read_pde s ?i)"
    by (rule vload32_directory [OF assms(1) pd_index_less])
  have get: "paging_get_page dir va True fl s = Some (window ?i (pt_index va), ?s1)"
    using pde0 assms(3) bm(1) f(2) set0 vstore32_directory [OF zwf pd_index_less, of va ?v]
    by (simp add: paging_get_page_def Let_def present_and window_def flip: pd_index_def pt_index_def)
  have zero: "lookup_pte ?s1 va' = Some 0" if "pd_index va' = ?i" for va'
    using d(2) [OF that] load32_zero_page [OF f(1) pt_index_less] by simp
  have other: "lookup_pte ?s1 va' = lookup_pte s va' \<and> read_pde ?s1 (pd_index va') = read_pde s (pd_index va')"
    if "pd_index va' \<notin> {?i, 1023}" for va'
  proof -
    have "lookup_pte ?s1 va' = lookup_pte s va'"
      using d(3) [OF that] z(2) [of va'] paging_cong(1) [OF cong] by simp
    moreover have "read_pde ?s1 (pd_index va') = read_pde s (pd_index va')"
      using d(1) [OF pd_index_less, of va'] that zpde [OF pd_index_less, of va'] by simp
    ultimately show ?thesis ..
  qed
  show thesis
  proof (rule that [OF get d(4)])
    show "read_pde ?s1 ?i = ?v" using d(1) [OF pd_index_less, of va] by simp
    have "cr3 s \<in> table_frames s" 
      using paging_wfD(3,4) [OF assms(1)] unfolding table_frames_def by (intro CollectI exI [of _ 1023]) simp
    moreover have "same_outside (cr3 s) (phys ?z) (phys ?s1)"
      using store32_outside [OF paging_wfD(2) [OF zwf] pd_index_less [of va], of "phys ?z" ?v] by simp
    moreover have "same_outside f (phys s) (phys ?z)" using same_outside_zero_page [of f "phys s"] by simp
    ultimately show "\<forall>a. frame_of a \<notin> insert f (table_frames s) \<longrightarrow> phys ?s1 a = phys s a"
      unfolding same_outside_def by (metis insertCI)
    show "pmm_inv ?s1" using inv by (auto simp: pmm_inv_def free_frames_def managed_frames_def)
    show "free_frames ?s1 = free_frames s - {Min (free_frames s)}"
      using bm(3) by (simp add: free_frames_def managed_frames_def)
  qed (use zero other in auto)
qed

text \<open>
  The table that \<^verbatim>\<open>paging_map_page\<close> may have to add is available: the frame that the allocator
  hands out next is mapped at its own address and is not a page table already.
\<close>

definition table_available :: "'a machine_state_scheme \<Rightarrow> bool" where
  "table_available s \<longleftrightarrow>
     pmm_inv s \<and> free_frames s \<noteq> {} \<and> frame_addr (Min (free_frames s)) \<notin> table_frames s \<and>
     identity_mapped s (frame_addr (Min (free_frames s)))"

lemma map_page_lookup:
  assumes "paging_wf s" and "pd_index va \<noteq> 1023"
    and "present (read_pde s (pd_index va)) \<or> table_available s \<and> bit fl 0"
  obtains s' where "paging_map_page dir va pa fl s = Some s'" "paging_wf s'" "cr3 s' = cr3 s"
    "lookup_pte s' va = Some (pa OR fl)"
    "\<forall>va'. pd_index va' \<noteq> 1023 \<longrightarrow> (pd_index va', pt_index va') \<noteq> (pd_index va, pt_index va) \<longrightarrow>
       translate s' va' = translate s va' \<and> (user_accessible s' va' \<longleftrightarrow> user_accessible s va')"
    "read_pde s' (pd_index va) =
       (if present (read_pde s (pd_index va)) then read_pde s (pd_index va)
        else frame_addr (Min (free_frames s)) OR (fl AND 7))"
    "\<forall>k < 1024. k \<noteq> 1023 \<longrightarrow> k \<noteq> pd_index va \<longrightarrow> read_pde s' k = read_pde s k"
    "pmm_inv s \<longrightarrow> pmm_inv s'"
    "free_frames s' = (if present (read_pde s (pd_index va)) then free_frames s else free_frames s - {Min (free_frames s)})"
    "\<forall>a. frame_of a \<notin> table_frames s \<longrightarrow>
       (\<not> present (read_pde s (pd_index va)) \<longrightarrow> frame_of a \<noteq> frame_addr (Min (free_frames s))) \<longrightarrow> phys s' a = phys s a"
proof (cases "present (read_pde s (pd_index va))")
  case True
  let ?s = "s\<lparr>phys := store32 (phys s) (frame_of (read_pde s (pd_index va)) + 4 * pt_index va) (pa OR fl)\<rparr>"
  note st = store_table [OF assms(1) pd_index_less [of va] pt_index_less [of va] assms(2) True refl, where v = "pa OR fl"]
  have "translate ?s va' = translate s va' \<and> (user_accessible ?s va' \<longleftrightarrow> user_accessible s va')"
    if "(pd_index va', pt_index va') \<noteq> (pd_index va, pt_index va)" for va'
    using that st(1) [OF pd_index_less] st(2) by (auto simp: translate_def user_accessible_def split: option.splits)
  moreover have "same_outside (frame_of (read_pde s (pd_index va))) (phys s) (phys ?s)"
    by (simp add: store32_outside pt_index_less)
  then have "phys ?s a = phys s a" if "frame_of a \<notin> table_frames s" for a
    using that True pd_index_less [of va] by (auto simp: same_outside_def table_frames_def)
  ultimately show thesis
    using map_page_present [OF assms(1) True, of dir pa fl] st True
      st(1) [OF pd_index_less [of va]] by (intro that [of ?s]) auto
next
  case False
  with assms(3) have av: "table_available s" and fl: "bit fl 0" by auto
  from av have f: "pmm_inv s" "free_frames s \<noteq> {}" "frame_addr (Min (free_frames s)) \<notin> table_frames s"
      "identity_mapped s (frame_addr (Min (free_frames s)))" by (simp_all add: table_available_def)
  from get_page_absent [where dir = dir, OF assms(1) f(1) False fl f(2) refl f(3,4)] obtain s1 where
    get: "paging_get_page dir va True fl s = Some (window (pd_index va) (pt_index va), s1)"
    and wf1: "paging_wf s1" and pde1: "read_pde s1 (pd_index va) = frame_addr (Min (free_frames s)) OR (fl AND 7)"
    and zero: "\<forall>va'. pd_index va' = pd_index va \<longrightarrow> lookup_pte s1 va' = Some 0"
    and other: "\<forall>va'. pd_index va' \<notin> {pd_index va, 1023} \<longrightarrow>
       lookup_pte s1 va' = lookup_pte s va' \<and> read_pde s1 (pd_index va') = read_pde s (pd_index va')"
    and cr: "cr3 s1 = cr3 s" and inv1: "pmm_inv s1" and free1: "free_frames s1 = free_frames s - {Min (free_frames s)}"
    and phys1: "\<forall>a. frame_of a \<notin> insert (frame_addr (Min (free_frames s))) (table_frames s) \<longrightarrow> phys s1 a = phys s a" .
  have "Min (free_frames s) < 1048576"
    using managed_bound [OF f(1)] free_frames_managed [of s] Min_in [OF finite_free_frames f(2)] by blast
  then have al: "page_aligned (frame_addr (Min (free_frames s)))" by (rule frame_addr_aligned)
  from low_flags(2) [OF al] have pres: "present (read_pde s1 (pd_index va))"
    using pde1 fl by simp
  let ?s = "s1\<lparr>phys := store32 (phys s1) (frame_of (read_pde s1 (pd_index va)) + 4 * pt_index va) (pa OR fl)\<rparr>"
  note st = store_table [OF wf1 pd_index_less [of va] pt_index_less [of va] assms(2) pres refl, where v = "pa OR fl"]
  have map: "paging_map_page dir va pa fl s = Some ?s"
    using get vstore32_window [OF wf1 pd_index_less pt_index_less pres] window_nonzero [OF pd_index_less pt_index_less]
    by (simp add: paging_map_page_def)
  have "translate ?s va' = translate s va' \<and> (user_accessible ?s va' \<longleftrightarrow> user_accessible s va')"
    if "pd_index va' \<noteq> 1023" "(pd_index va', pt_index va') \<noteq> (pd_index va, pt_index va)" for va'
  proof (cases "pd_index va' = pd_index va")
    case True
    with False have "lookup_pte s va' = None" by (simp add: lookup_pte_def)
    moreover have "lookup_pte ?s va' = Some 0" using st(2) [of va'] zero that(2) True by auto
    ultimately show ?thesis
      using paging_wfD(1) [OF st(3)] paging_wfD(1) [OF assms(1)]
      by (simp add: translate_def user_accessible_def present_def)
  next
    case ne: False
    with that(1) other have "lookup_pte ?s va' = lookup_pte s va'"
      "read_pde ?s (pd_index va') = read_pde s (pd_index va')"
      using st(2) [of va'] st(1) [OF pd_index_less, of va'] by auto
    then show ?thesis
      using paging_wfD(1) [OF st(3)] paging_wfD(1) [OF assms(1)]
      by (simp add: translate_def user_accessible_def split: option.splits)
  qed
  moreover have "lookup_pte ?s va = Some (pa OR fl)" using st(2) [of va] by simp
  moreover have "read_pde ?s (pd_index va) = frame_addr (Min (free_frames s)) OR (fl AND 7)"
    using st(1) [OF pd_index_less, of va] pde1 by simp
  moreover have "read_pde ?s k = read_pde s k" if "k < 1024" "k \<noteq> 1023" "k \<noteq> pd_index va" for k
  proof -
    have "pd_index (push_bit 22 k) = k"
      using that(1) by (simp add: word_unat_eq_iff unat_pd_index less_1024 push_bit_eq_mult unat_word_ariths)
    then show ?thesis using other [rule_format, of "push_bit 22 k"] that st(1) [OF that(1)] by simp
  qed
  moreover have "pmm_inv ?s" "free_frames ?s = free_frames s - {Min (free_frames s)}" using inv1 free1 by simp_all
  moreover have "phys ?s a = phys s a" if "frame_of a \<notin> table_frames s" "frame_of a \<noteq> frame_addr (Min (free_frames s))" for a
  proof -
    have "same_outside (frame_of (read_pde s1 (pd_index va))) (phys s1) (phys ?s)"
      by (simp add: store32_outside pt_index_less)
    then show ?thesis using that phys1 low_flags(1) [OF al] pde1 by (simp add: same_outside_def)
  qed
  ultimately show thesis using map st(3,4) cr False by (intro that [of ?s]) auto
qed

section \<open>Properties\<close>

lemma user_or: "page_aligned a \<Longrightarrow> bit (a OR fl) 2 \<longleftrightarrow> bit fl 2"
proof -
  assume "page_aligned a"
  then have "\<not> bit (a AND 0xFFF) 2" by (simp add: page_aligned_bits)
  then have "\<not> bit a 2" by (simp add: bit_simps bit_numeral_rec)
  then show ?thesis by (simp add: bit_simps)
qed

lemma table_available_aligned: "table_available s \<Longrightarrow> page_aligned (frame_addr (Min (free_frames s)))"
proof (rule frame_addr_aligned)
  assume "table_available s"
  then have "pmm_inv s" "free_frames s \<noteq> {}" by (simp_all add: table_available_def)
  moreover from this(2) have "Min (free_frames s) \<in> managed_frames s"
    using Min_in [OF finite_free_frames] free_frames_managed [of s] by blast
  ultimately show "Min (free_frames s) < 1048576" using managed_bound by blast
qed

lemma translate_lookup:
  "cr0_pg s \<Longrightarrow> lookup_pte s va = Some (pa OR fl) \<Longrightarrow> page_aligned pa \<Longrightarrow> fl AND 0xFFF = fl \<Longrightarrow>
     translate s va = (if bit fl 0 then Some (pa + page_offset va) else None)"
  by (simp add: translate_def present_or frame_of_or)


section \<open>Building the first address space\<close>

lemma translate_off: "\<not> cr0_pg s \<Longrightarrow> translate s va = Some va"
  by (simp add: translate_def)

lemma word_index_offset:
  assumes "page_aligned a" and "i < 1024"
  shows "page_offset (a + 4 * i) \<le> 0xFFC" "frame_of (a + 4 * i) = a"
proof -
  have b: "4 * unat i \<le> 4092" using assms(2) by (simp add: less_1024)
  have "unat (a + 4 * i) mod 4096 = 4 * unat i"
    using assms(1) b unfolding unat_word_index [OF assms] page_aligned_def by (auto elim!: dvdE)
  then show "page_offset (a + 4 * i) \<le> 0xFFC" using b by (simp add: word_le_nat_alt unat_page_offset)
  have "frame_of (a + of_nat (4 * unat i)) = a" by (rule frame_of_offset [OF assms(1)]) (use b in simp)
  then show "frame_of (a + 4 * i) = a" by simp
qed

lemma vstore32_off:
  assumes "\<not> cr0_pg s" and "page_aligned a" and "i < 1024"
  shows "vstore32 (a + 4 * i) v s = Some (s\<lparr>phys := store32 (phys s) (a + 4 * i) v\<rparr>)"
  using word_index_offset(1) [OF assms(2,3)] assms(1) by (simp add: vstore32_def translate_off)

lemma same_outside_trans: "same_outside f a b \<Longrightarrow> same_outside f b c \<Longrightarrow> same_outside f a c"
  by (simp add: same_outside_def)

lemma load32_same_outside:
  "same_outside f m m' \<Longrightarrow> page_aligned b \<Longrightarrow> j < 1024 \<Longrightarrow> b \<noteq> f \<Longrightarrow>
     load32 m' (b + 4 * j) = load32 m (b + 4 * j)"
  using load32_outside [of b j f m' m] by (auto simp: same_outside_def)

lemma identity_entries_run:
  assumes "\<not> cr0_pg s" and "page_aligned pt" and "unat i + n \<le> 1024"
  shows "\<exists>m. identity_entries n i pt s = Some (s\<lparr>phys := m\<rparr>) \<and> same_outside pt (phys s) m \<and>
     (\<forall>k < 1024. load32 m (pt + 4 * k) =
        (if unat i \<le> unat k \<and> unat k < unat i + n then k * 0x1000 OR 3 else load32 (phys s) (pt + 4 * k)))"
  using assms
proof (induction n arbitrary: i s)
  case 0
  then show ?case by (intro exI [of _ "phys s"]) (auto simp: same_outside_def)
next
  case (Suc n)
  have i: "i < 1024" "unat (i + 1) = unat i + 1"
    using Suc.prems(3) by (simp_all add: less_1024 unat_plus_u32_small)
  let ?v = "i * 0x1000 OR 3 :: u32"
  let ?s = "s\<lparr>phys := store32 (phys s) (pt + 4 * i) ?v\<rparr>"
  have v: "i * 0x1000 OR PAGING_FLAG_PRESENT OR PAGING_FLAG_RW = ?v" by (simp add: paging_flags)
  have st: "vstore32 (pt + 4 * i) ?v s = Some ?s" by (rule vstore32_off [OF Suc.prems(1,2) i(1)])
  from Suc.IH [of ?s "i + 1"] Suc.prems i(2) obtain m where
    m: "identity_entries n (i + 1) pt ?s = Some (?s\<lparr>phys := m\<rparr>)" "same_outside pt (phys ?s) m"
      "\<forall>k < 1024. load32 m (pt + 4 * k) =
        (if unat i + 1 \<le> unat k \<and> unat k < unat i + 1 + n then k * 0x1000 OR 3 else load32 (phys ?s) (pt + 4 * k))"
    by auto
  have store: "load32 (phys ?s) (pt + 4 * k) = (if k = i then ?v else load32 (phys s) (pt + 4 * k))" if "k < 1024" for k
    using load32_index [OF Suc.prems(2,2) i(1) that] by auto
  have "load32 m (pt + 4 * k) =
      (if unat i \<le> unat k \<and> unat k < unat i + Suc n then k * 0x1000 OR 3 else load32 (phys s) (pt + 4 * k))"
    if k: "k < 1024" for k
  proof (cases "k = i")
    case True
    with m(3) k store show ?thesis by simp
  next
    case False
    then have "unat k \<noteq> unat i" by (simp add: word_unat_eq_iff)
    with False m(3) k store show ?thesis by auto
  qed
  moreover have "same_outside pt (phys s) m"
    using same_outside_trans [OF store32_outside [OF Suc.prems(2) i(1)]] m(2) by simp
  ultimately show ?case using st v m(1) by (intro exI [of _ m]) simp
qed

lemma vmemset_off:
  assumes "\<not> cr0_pg s" and "page_aligned f"
  shows "vmemset 4096 f 0 s = Some (s\<lparr>phys := zero_page (phys s) f\<rparr>)"
  using assms by (intro vmemset_page) (simp_all add: translate_off)

text \<open>The contents of the two frames that \<^verbatim>\<open>paging_init\<close> fills in.\<close>

definition boot_tables :: "memory \<Rightarrow> u32 \<Rightarrow> u32 \<Rightarrow> bool" where
  "boot_tables m dir pt \<longleftrightarrow>
     (\<forall>k < 1024. load32 m (dir + 4 * k) = (if k = 0 then pt OR 3 else if k = 1023 then dir OR 3 else 0)) \<and>
     (\<forall>k < 1024. load32 m (pt + 4 * k) = k * 0x1000 OR 3)"

lemma paging_init_run:
  assumes "\<not> cr0_pg s" and "pmm_inv s" and "2 \<le> card (free_frames s)"
    and "d = Min (free_frames s)" and "p = Min (free_frames s - {d})"
  obtains s' where "paging_init s = Some s'" "cr0_pg s'" "cr3 s' = frame_addr d" "kernel_directory s' = frame_addr d"
    "boot_tables (phys s') (frame_addr d) (frame_addr p)" "pmm_inv s'" "free_frames s' = free_frames s - {d, p}"
proof -
  have ne: "free_frames s \<noteq> {}" using assms(3) by auto
  have ne2: "free_frames s - {d} \<noteq> {}"
  proof
    assume "free_frames s - {d} = {}"
    then have "card (free_frames s) \<le> card {d}" by (intro card_mono) auto
    with assms(3) show False by simp
  qed
  have d: "d \<in> free_frames s" unfolding assms(4) using ne by (intro Min_in) auto
  have p: "p \<in> free_frames s - {d}" unfolding assms(5) using ne2 by (intro Min_in) auto
  have bound: "d < 1048576" "p < 1048576" and nz: "d \<noteq> 0" "p \<noteq> 0"
    using d p managed_bound [OF assms(2)] free_frames_managed [of s] assms(2) unfolding pmm_inv_def
    by (blast, blast, metis, metis Diff_iff)
  let ?d = "frame_addr d" and ?p = "frame_addr p"
  note al = frame_addr_aligned [OF bound(1)] frame_addr_aligned [OF bound(2)]
  have f: "?d \<noteq> 0" "?p \<noteq> 0" "?d \<noteq> ?p"
    using frame_addr_eq_0 [OF bound(1)] frame_addr_eq_0 [OF bound(2)] frame_addr_inj [OF bound] nz p by auto
  from pmm_alloc_frame_least [OF assms(2) ne] obtain bm1 where
    a1: "pmm_alloc_frame s = Some (?d, s\<lparr>pmm_bitmap := bm1\<rparr>)" "length bm1 = length (pmm_bitmap s)"
      "free_frames (s\<lparr>pmm_bitmap := bm1\<rparr>) = free_frames s - {d}"
    unfolding assms(4) .
  let ?s1 = "s\<lparr>pmm_bitmap := bm1, kernel_directory := ?d, phys := zero_page (phys s) ?d\<rparr>"
  have fr1: "free_frames ?s1 = free_frames s - {d}"
    using a1(3) by (simp add: free_frames_def managed_frames_def)
  have inv1: "pmm_inv ?s1" using assms(2) a1(2) fr1 by (simp add: pmm_inv_def)
  have z1: "vmemset 4096 ?d 0 (s\<lparr>pmm_bitmap := bm1, kernel_directory := ?d\<rparr>) = Some ?s1"
    using vmemset_off [of "s\<lparr>pmm_bitmap := bm1, kernel_directory := ?d\<rparr>", OF _ al(1)] assms(1) by simp
  have "free_frames ?s1 \<noteq> {}" using fr1 ne2 by simp
  from pmm_alloc_frame_least [OF inv1 this] obtain bm2 where
    a2: "pmm_alloc_frame ?s1 = Some (?p, ?s1\<lparr>pmm_bitmap := bm2\<rparr>)" "length bm2 = length (pmm_bitmap ?s1)"
      "free_frames (?s1\<lparr>pmm_bitmap := bm2\<rparr>) = free_frames s - {d} - {p}"
    unfolding fr1 assms(5) [symmetric] .
  let ?s2 = "?s1\<lparr>pmm_bitmap := bm2, phys := zero_page (zero_page (phys s) ?d) ?p\<rparr>"
  have z2: "vmemset 4096 ?p 0 (?s1\<lparr>pmm_bitmap := bm2\<rparr>) = Some ?s2"
    using vmemset_off [of "?s1\<lparr>pmm_bitmap := bm2\<rparr>", OF _ al(2)] assms(1) by simp
  have off: "\<not> cr0_pg ?s2" using assms(1) by simp
  from identity_entries_run [OF off al(2), of 0 1024] obtain m where
    m: "identity_entries 1024 0 ?p ?s2 = Some (?s2\<lparr>phys := m\<rparr>)" "same_outside ?p (phys ?s2) m"
      "\<forall>k < 1024. load32 m (?p + 4 * k) = k * 0x1000 OR 3"
    by (auto simp: less_1024)
  let ?m1 = "store32 m ?d (?p OR 3)"
  let ?m2 = "store32 ?m1 (?d + 4 * 1023) (?d OR 3)"
  have off3: "\<not> cr0_pg (?s2\<lparr>phys := x\<rparr>)" for x using assms(1) by simp
  have st1: "vstore32 ?d (?p OR PAGING_FLAG_PRESENT OR PAGING_FLAG_RW) (?s2\<lparr>phys := m\<rparr>) = Some (?s2\<lparr>phys := ?m1\<rparr>)"
    using vstore32_off [OF off3 al(1), of 0] by (simp add: paging_flags)
  have st2: "vstore32 (?d + 4 * 1023) (?d OR PAGING_FLAG_PRESENT OR PAGING_FLAG_RW) (?s2\<lparr>phys := ?m1\<rparr>) =
      Some (?s2\<lparr>phys := ?m2\<rparr>)"
    using vstore32_off [OF off3 al(1), of 1023] by (simp add: paging_flags)
  let ?s' = "enable_paging (load_page_directory ?d (?s2\<lparr>phys := ?m2\<rparr>))"
  have run: "paging_init s = Some ?s'"
    unfolding paging_init_def using a1(1) a2(1) z1 z2 m(1) st1 st2 f by simp
  have "boot_tables ?m2 ?d ?p" unfolding boot_tables_def
  proof (intro conjI allI impI)
    fix k :: u32 assume k: "k < 1024"
    have "load32 m (?d + 4 * k) = load32 (phys ?s2) (?d + 4 * k)"
      by (rule load32_same_outside [OF m(2) al(1) k f(3)])
    also have "\<dots> = load32 (zero_page (phys s) ?d) (?d + 4 * k)"
      using load32_same_outside [OF same_outside_zero_page al(1) k f(3)] by simp
    also have "\<dots> = 0" by (rule load32_zero_page [OF al(1) k])
    finally show "load32 ?m2 (?d + 4 * k) = (if k = 0 then ?p OR 3 else if k = 1023 then ?d OR 3 else 0)"
      using load32_index [OF al(1,1) _ k, of 1023 ?m1] load32_index [OF al(1,1) _ k, of 0 m] by auto
    show "load32 ?m2 (?p + 4 * k) = k * 0x1000 OR 3"
      using load32_index [OF al(1,2) _ k, of 1023 ?m1] load32_index [OF al(1,2) _ k, of 0 m] f(3) m(3) k by auto
  qed
  moreover have "free_frames ?s' = free_frames s - {d, p}"
    using a2(3) by (auto simp: free_frames_def managed_frames_def enable_paging_def load_page_directory_def)
  moreover from this have "pmm_inv ?s'"
    using inv1 a2(2) assms(2) by (auto simp: pmm_inv_def enable_paging_def load_page_directory_def)
  ultimately show thesis
    by (intro that [OF run]) (simp_all add: enable_paging_def load_page_directory_def)
qed

lemma entry_or_3: "page_aligned a \<Longrightarrow> frame_of (a OR 3) = a \<and> present (a OR 3) \<and> \<not> bit (a OR 3) 2"
proof -
  assume a: "page_aligned a"
  have "(3 :: u32) AND 0xFFF = 3" by simp
  then have "frame_of (a OR 3) = a" by (rule frame_of_or [OF a])
  moreover have "present (a OR 3)" using present_or [OF a, of 3] by simp
  moreover have "bit (a AND mask 12) 2 = bit (0 :: u32) 2" using a by (simp add: page_aligned_bits mask_12)
  then have "\<not> bit a 2" by (simp add: bit_and_iff bit_mask_iff)
  then have "\<not> bit (a OR 3) 2" by (simp add: bit_or_iff)
  ultimately show ?thesis by simp
qed

lemma boot_tables_view:
  assumes "boot_tables (phys s) (cr3 s) pt" and "cr0_pg s" and "page_aligned (cr3 s)" "page_aligned pt" and "cr3 s \<noteq> pt"
  shows "paging_wf s"
    and "pd_index va \<noteq> 1023 \<Longrightarrow> translate s va = (if va < 0x400000 then Some va else None)"
    and "\<not> user_accessible s va"
    and "k < 1024 \<Longrightarrow> read_pde s k = (if k = 0 then pt OR 3 else if k = 1023 then cr3 s OR 3 else 0)"
proof -
  have pde: "read_pde s k = (if k = 0 then pt OR 3 else if k = 1023 then cr3 s OR 3 else 0)" if "k < 1024" for k
    using assms(1,3) that by (simp add: boot_tables_def read_pde_def frame_of_aligned)
  then show "k < 1024 \<Longrightarrow> read_pde s k = (if k = 0 then pt OR 3 else if k = 1023 then cr3 s OR 3 else 0)" .
  note e = entry_or_3 [OF assms(3)] entry_or_3 [OF assms(4)]
  have not0: "\<not> present 0" by (simp add: present_def)
  have "(1023 :: u32) < 1024" by simp
  then have rec: "read_pde s 1023 = cr3 s OR 3" using pde by simp
  have two: "k = 0 \<and> frame_of (read_pde s k) = pt \<or> k = 1023 \<and> frame_of (read_pde s k) = cr3 s"
    if "k < 1024" "present (read_pde s k)" for k
    using e not0 that(2) unfolding pde [OF that(1)] by (cases "k = 0"; cases "k = 1023") simp_all
  have "frame_of (read_pde s k) \<noteq> frame_of (read_pde s l)"
    if "k < 1024" "l < 1024" "k \<noteq> l" "present (read_pde s k)" "present (read_pde s l)" for k l
    using that(3) assms(5) two [OF that(1,4)] two [OF that(2,5)] by auto
  then show "paging_wf s" unfolding paging_wf_def rec using assms(2,3) e by simp
  have pd0: "pd_index va = 0 \<longleftrightarrow> va < 0x400000"
    by (simp add: word_less_nat_alt word_unat_eq_iff unat_pd_index div_eq_0_iff)
  have look: "lookup_pte s va =
      (if pd_index va = 0 then Some (pt_index va * 0x1000 OR 3)
       else if pd_index va = 1023 then Some (read_pde s (pt_index va)) else None)"
    using pde [OF pd_index_less, of va] e not0 assms(1,3) pt_index_less [of va]
    by (auto simp: lookup_pte_def Let_def boot_tables_def read_pde_def frame_of_aligned)
  have low: "frame_of (pt_index va * 0x1000 OR 3) = pt_index va * 0x1000 \<and> present (pt_index va * 0x1000 OR 3)"
    and al: "page_aligned (pt_index va * 0x1000)"
  proof -
    have "unat (pt_index va) < 1024" using pt_index_less [of va] by (simp add: less_1024)
    then have "unat (pt_index va * 0x1000) = unat (pt_index va) * 4096" by (simp add: unat_word_ariths)
    then show "page_aligned (pt_index va * 0x1000)" by (simp add: page_aligned_def)
    then show "frame_of (pt_index va * 0x1000 OR 3) = pt_index va * 0x1000 \<and> present (pt_index va * 0x1000 OR 3)"
      using entry_or_3 by simp
  qed
  have sum: "pt_index va * 0x1000 + page_offset va = va" if "va < 0x400000"
  proof -
    have v: "unat va < 4194304" using that by (simp add: word_less_nat_alt)
    then have "unat va div 4096 < 1024" by (simp add: less_mult_imp_div_less)
    then have "unat (pt_index va) = unat va div 4096" by (simp add: unat_pt_index)
    moreover have "unat va div 4096 * 4096 + unat va mod 4096 = unat va" by simp
    ultimately show ?thesis
      using v by (simp add: word_unat_eq_iff unat_word_ariths unat_page_offset)
  qed
  show "pd_index va \<noteq> 1023 \<Longrightarrow> translate s va = (if va < 0x400000 then Some va else None)"
    using look low sum pd0 assms(2) by (simp add: translate_def)
  show "\<not> user_accessible s va"
    using look pde [OF pd_index_less, of va] pde [OF pt_index_less, of va] e not0
    by (auto simp: user_accessible_def split: if_splits)
qed

text \<open>C18. \<^verbatim>\<open>paging_init\<close> (paging.c), given two free frames, turns paging on with a well-formed
  address space in which exactly the first four megabytes are mapped, each address to
  itself, nothing at all is accessible to user mode, the directory maps itself at its last
  entry, and CR3 holds the new kernel directory. It consumes exactly two frames.\<close>

theorem paging_init_correct:
  assumes "\<not> cr0_pg s" and "pmm_inv s" and "2 \<le> card (free_frames s)"
  shows "\<exists>s'. paging_init s = Some s' \<and> paging_wf s' \<and> cr3 s' = kernel_directory s' \<and>
     (\<forall>va. pd_index va \<noteq> 1023 \<longrightarrow> translate s' va = (if va < 0x400000 then Some va else None)) \<and>
     (\<forall>va. \<not> user_accessible s' va) \<and> pmm_inv s' \<and>
     free_frames s' \<subseteq> free_frames s \<and> card (free_frames s') + 2 = card (free_frames s) \<and>
     kernel_directory s' = frame_addr (Min (free_frames s))"
proof -
  define d where "d = Min (free_frames s)"
  define p where "p = Min (free_frames s - {d})"
  from paging_init_run [OF assms d_def p_def] obtain s' where
    s': "paging_init s = Some s'" "cr0_pg s'" "cr3 s' = frame_addr d" "kernel_directory s' = frame_addr d"
    "boot_tables (phys s') (frame_addr d) (frame_addr p)" "pmm_inv s'" "free_frames s' = free_frames s - {d, p}" .
  have ne: "free_frames s \<noteq> {}" using assms(3) by auto
  have d: "d \<in> free_frames s" unfolding d_def using ne by (intro Min_in) auto
  have "card (free_frames s - {d}) + 1 = card (free_frames s)"
    using card_Suc_Diff1 [OF finite_free_frames d] by simp
  with assms(3) have "card (free_frames s - {d}) \<noteq> 0" by linarith
  then have "free_frames s - {d} \<noteq> {}" by (metis card.empty)
  then have p: "p \<in> free_frames s" "p \<noteq> d" using Min_in [of "free_frames s - {d}"] unfolding p_def by auto
  have "card {d, p} = 2" using p(2) by auto
  moreover have "card {d, p} \<le> card (free_frames s)" using d p by (intro card_mono) auto
  ultimately have card: "card (free_frames s') + 2 = card (free_frames s)"
    unfolding s'(7) using d p by (subst card_Diff_subset) auto
  have b: "d < 1048576" "p < 1048576"
    using d p managed_bound [OF assms(2)] free_frames_managed [of s] by blast+
  then have "frame_addr d \<noteq> frame_addr p" using frame_addr_inj [OF b] p(2) by auto
  note view = boot_tables_view [of s', unfolded s'(3), OF s'(5,2) frame_addr_aligned [OF b(1)]
      frame_addr_aligned [OF b(2)] this]
  show ?thesis using s' view card d_def by (intro exI [of _ s']) auto
qed

text \<open>A machine with 16 MB of memory right after \<^verbatim>\<open>pmm_init\<close>, for an image that ends at 0x40000.\<close>

definition fresh_machine :: machine_state where
  "fresh_machine =
     the (pmm_init 0x40000 16777216 \<lparr>pmm_bitmap = [], pmm_total_frames = 0, pmm_bitmap_size = 0,
       phys = (\<lambda>_. 0), cr3 = 0, cr0_pg = False, kernel_directory = 0\<rparr>)"

lemma fresh_machine:
  "pmm_inv fresh_machine" "free_frames fresh_machine = {65..<4096}" "\<not> cr0_pg fresh_machine"
  "Min (free_frames fresh_machine) = 65"
proof -
  let ?s = "\<lparr>pmm_bitmap = [], pmm_total_frames = 0, pmm_bitmap_size = 0,
       phys = (\<lambda>_. 0), cr3 = 0, cr0_pg = False, kernel_directory = 0\<rparr> :: machine_state"
  from pmm_init_run [of 16777216 "0x40000" ?s] obtain bm sz tot where
    m: "pmm_init 0x40000 16777216 ?s =
       Some (?s\<lparr>pmm_total_frames := tot, pmm_bitmap_size := sz, pmm_bitmap := bm\<rparr>)"
    "pmm_inv (?s\<lparr>pmm_total_frames := tot, pmm_bitmap_size := sz, pmm_bitmap := bm\<rparr>)"
    "free_frames (?s\<lparr>pmm_total_frames := tot, pmm_bitmap_size := sz, pmm_bitmap := bm\<rparr>) = {65..<4096}"
    by auto
  then show "pmm_inv fresh_machine" and fr: "free_frames fresh_machine = {65..<4096}" and "\<not> cr0_pg fresh_machine"
    by (simp_all add: fresh_machine_def)
  show "Min (free_frames fresh_machine) = 65" unfolding fr by (rule Min_eqI) auto
qed

theorem paging_init_correct_witness:
  "\<exists>s'. paging_init fresh_machine = Some s' \<and> paging_wf s' \<and> translate s' 0xB8000 = Some 0xB8000 \<and>
     translate s' 0x400000 = None \<and> \<not> user_accessible s' 0xB8000 \<and> card (free_frames s') = 4029"
proof -
  have i: "pd_index 0xB8000 \<noteq> 1023" "pd_index 0x400000 \<noteq> 1023" by (simp_all add: pd_index_def)
  have "2 \<le> card (free_frames fresh_machine)" by (simp add: fresh_machine)
  from paging_init_correct [OF fresh_machine(3,1) this] obtain s' where
    s': "paging_init fresh_machine = Some s'" "paging_wf s'" "\<not> user_accessible s' 0xB8000"
      "\<forall>va. pd_index va \<noteq> 1023 \<longrightarrow> translate s' va = (if va < 0x400000 then Some va else None)"
      "card (free_frames s') + 2 = card (free_frames fresh_machine)" by auto
  with i show ?thesis by (intro exI [of _ s']) (simp add: fresh_machine)
qed

definition booted_machine :: machine_state where
  "booted_machine = the (paging_init fresh_machine)"

lemma booted_machine:
  "paging_init fresh_machine = Some booted_machine" "paging_wf booted_machine" "table_available booted_machine"
  "cr3 booted_machine = 0x41000" "free_frames booted_machine = {67..<4096}"
  "k < 1024 \<Longrightarrow> read_pde booted_machine k =
     (if k = 0 then 0x42000 OR 3 else if k = 1023 then 0x41000 OR 3 else 0)"
  "pd_index va \<noteq> 1023 \<Longrightarrow> translate booted_machine va = (if va < 0x400000 then Some va else None)"
proof -
  have c: "2 \<le> card (free_frames fresh_machine)" by (simp add: fresh_machine)
  have "Min ({65..<4096} - {65}) = (66 :: nat)" by (rule Min_eqI) auto
  then have m: "66 = Min (free_frames fresh_machine - {65})" by (simp add: fresh_machine)
  from paging_init_run [OF fresh_machine(3,1) c fresh_machine(4) [symmetric] m] obtain s' where
    s': "paging_init fresh_machine = Some s'" "cr0_pg s'" "cr3 s' = frame_addr 65"
      "boot_tables (phys s') (frame_addr 65) (frame_addr 66)" "pmm_inv s'" "free_frames s' = {65..<4096} - {65, 66}"
    unfolding fresh_machine(2) .
  have fa: "frame_addr 65 = 0x41000" "frame_addr 66 = 0x42000" "frame_addr 67 = 0x43000"
    by (simp_all add: frame_addr_def PMM_FRAME_SIZE_def)
  show run: "paging_init fresh_machine = Some booted_machine" using s'(1) by (simp add: booted_machine_def)
  with s'(1) have s'_eq: "s' = booted_machine" by simp
  note b = s'(2-6) [unfolded s'_eq]
  have cr: "cr3 booted_machine = 0x41000" and on: "cr0_pg booted_machine" and inv: "pmm_inv booted_machine"
    using b by (simp_all only: fa)
  have bt: "boot_tables (phys booted_machine) (cr3 booted_machine) 0x42000"
    using b(3) unfolding fa cr .
  have "{65..<4096} - {65, 66} = {67..<4096 :: nat}"
    by (rule set_eqI) (simp only: Diff_iff atLeastLessThan_iff insert_iff empty_iff, arith)
  then have fr: "free_frames booted_machine = {67..<4096}" using b(5) by simp
  have al: "page_aligned (cr3 booted_machine)" "page_aligned 0x42000" "cr3 booted_machine \<noteq> 0x42000"
    by (simp_all add: cr page_aligned_def)
  note view = boot_tables_view [OF bt on al]
  show "cr3 booted_machine = 0x41000" "free_frames booted_machine = {67..<4096}" by (fact cr, fact fr)
  show "paging_wf booted_machine" by (rule view)
  show pde: "read_pde booted_machine k = (if k = 0 then 0x42000 OR 3 else if k = 1023 then 0x41000 OR 3 else 0)"
    if "k < 1024" for k using view(4) [OF that] by (simp add: cr)
  show tr: "translate booted_machine va = (if va < 0x400000 then Some va else None)" if "pd_index va \<noteq> 1023" for va
    using view(2) [OF that] .
  have min: "Min (free_frames booted_machine) = 67" unfolding fr by (rule Min_eqI) auto
  have "translate booted_machine (0x43000 + of_nat k) = Some (0x43000 + of_nat k)" if "k < 4096" for k
  proof -
    have u: "unat (0x43000 + of_nat k :: u32) = 0x43000 + k"
      using unat_offset [of "0x43000" k] that by (simp add: page_aligned_def)
    then have "unat (pd_index (0x43000 + of_nat k)) = 0" using that by (simp add: unat_pd_index)
    then have "pd_index (0x43000 + of_nat k) \<noteq> 1023" by (simp add: word_unat_eq_iff)
    moreover have "0x43000 + of_nat k < (0x400000 :: u32)" using u that by (simp add: word_less_nat_alt)
    ultimately show ?thesis by (simp add: tr)
  qed
  moreover have "0x43000 \<notin> table_frames booted_machine"
    using pde entry_or_3 [of "0x42000"] entry_or_3 [of "0x41000"]
    by (auto simp: table_frames_def page_aligned_def present_def split: if_splits)
  ultimately show "table_available booted_machine"
    using inv fr unfolding table_available_def min fa identity_mapped_def by simp
qed


section \<open>Cloning an address space\<close>

text \<open>
  While the frame \<^verbatim>\<open>nd\<close> of the new directory is mapped at the temporary address, the kernel
  reads the active directory and writes \<^verbatim>\<open>nd\<close>; \<^verbatim>\<open>s1\<close> is the state after the temporary mapping
  and \<^verbatim>\<open>m\<close> any memory that differs from it in \<^verbatim>\<open>nd\<close> only.
\<close>

definition temp_mapped :: "'a machine_state_scheme \<Rightarrow> u32 \<Rightarrow> bool" where
  "temp_mapped s1 nd \<longleftrightarrow> paging_wf s1 \<and> page_aligned nd \<and> nd \<notin> table_frames s1 \<and>
     (\<forall>k < 4096. translate s1 (TEMP_PAGEDIR_ADDR + of_nat k) = Some (nd + of_nat k))"

lemma temp_memory:
  assumes "temp_mapped s1 nd" and "same_outside nd (phys s1) m" and "i < 1024"
  shows "vload32 (s1\<lparr>phys := m\<rparr>) (CURRENT_PAGE_DIR + 4 * i) = Some (read_pde s1 i)"
    and "vstore32 (TEMP_PAGEDIR_ADDR + 4 * i) v (s1\<lparr>phys := m\<rparr>) = Some (s1\<lparr>phys := store32 m (nd + 4 * i) v\<rparr>)"
    and "same_outside nd (phys s1) (store32 m (nd + 4 * i) v)"
proof -
  from assms(1) have wf: "paging_wf s1" and nd: "page_aligned nd" "nd \<notin> table_frames s1"
    and tr: "\<And>k. k < 4096 \<Longrightarrow> translate s1 (TEMP_PAGEDIR_ADDR + of_nat k) = Some (nd + of_nat k)"
    by (simp_all add: temp_mapped_def)
  note out = outside_tables [OF wf nd(2) assms(2)]
  show "vload32 (s1\<lparr>phys := m\<rparr>) (CURRENT_PAGE_DIR + 4 * i) = Some (read_pde s1 i)"
    using vload32_directory [OF out(4) assms(3)] out(1) [OF assms(3)] by simp
  have temp: "page_aligned TEMP_PAGEDIR_ADDR" by (simp add: page_aligned_def TEMP_PAGEDIR_ADDR_def)
  have "translate s1 (TEMP_PAGEDIR_ADDR + 4 * i) = Some (nd + 4 * i)"
    using tr [of "4 * unat i"] assms(3) by (simp add: less_1024)
  then show "vstore32 (TEMP_PAGEDIR_ADDR + 4 * i) v (s1\<lparr>phys := m\<rparr>) = Some (s1\<lparr>phys := store32 m (nd + 4 * i) v\<rparr>)"
    using word_index_offset(1) [OF temp assms(3)] out(3) by (simp add: vstore32_def)
  show "same_outside nd (phys s1) (store32 m (nd + 4 * i) v)"
    by (rule same_outside_trans [OF assms(2) store32_outside [OF nd(1) assms(3)]])
qed

lemma clone_entries_run:
  assumes "temp_mapped s1 nd" and "same_outside nd (phys s1) m" and "unat i + n \<le> 1024"
  shows "\<exists>m'. clone_entries n i (s1\<lparr>phys := m\<rparr>) = Some (s1\<lparr>phys := m'\<rparr>) \<and> same_outside nd (phys s1) m' \<and>
     (\<forall>k < 1024. load32 m' (nd + 4 * k) =
        (if unat i \<le> unat k \<and> unat k < unat i + n \<and> present (read_pde s1 k) then read_pde s1 k
         else load32 m (nd + 4 * k)))"
  using assms(2,3)
proof (induction n arbitrary: i m)
  case 0
  then show ?case by (intro exI [of _ m]) auto
next
  case (Suc n)
  have i: "i < 1024" "unat (i + 1) = unat i + 1"
    using Suc.prems(2) by (simp_all add: less_1024 unat_plus_u32_small)
  have nd: "page_aligned nd" using assms(1) by (simp add: temp_mapped_def)
  define m1 where "m1 = (if present (read_pde s1 i) then store32 m (nd + 4 * i) (read_pde s1 i) else m)"
  note tm = temp_memory [OF assms(1) Suc.prems(1) i(1)]
  have step: "clone_entries (Suc n) i (s1\<lparr>phys := m\<rparr>) = clone_entries n (i + 1) (s1\<lparr>phys := m1\<rparr>)"
    using tm(1,2) by (simp add: present_and m1_def)
  have out: "same_outside nd (phys s1) m1" using tm(3) Suc.prems(1) by (simp add: m1_def)
  from Suc.IH [OF out, of "i + 1"] Suc.prems(2) i(2) obtain m' where
    m': "clone_entries n (i + 1) (s1\<lparr>phys := m1\<rparr>) = Some (s1\<lparr>phys := m'\<rparr>)" "same_outside nd (phys s1) m'"
      "\<forall>k < 1024. load32 m' (nd + 4 * k) =
        (if unat i + 1 \<le> unat k \<and> unat k < unat i + 1 + n \<and> present (read_pde s1 k) then read_pde s1 k
         else load32 m1 (nd + 4 * k))" by auto
  have st: "load32 m1 (nd + 4 * k) =
      (if k = i \<and> present (read_pde s1 i) then read_pde s1 i else load32 m (nd + 4 * k))" if "k < 1024" for k
    using load32_index [OF nd nd i(1) that, of m "read_pde s1 i"] by (auto simp: m1_def)
  have "load32 m' (nd + 4 * k) =
      (if unat i \<le> unat k \<and> unat k < unat i + Suc n \<and> present (read_pde s1 k) then read_pde s1 k
       else load32 m (nd + 4 * k))" if k: "k < 1024" for k
  proof (cases "k = i")
    case True
    with m'(3) k st show ?thesis by simp
  next
    case False
    then have "unat k \<noteq> unat i" by (simp add: word_unat_eq_iff)
    with False m'(3) k st show ?thesis by auto
  qed
  with step m'(1,2) show ?case by (intro exI [of _ m']) simp
qed

lemma temp_address:
  assumes "k < 4096"
  shows "pd_index (TEMP_PAGEDIR_ADDR + of_nat k) = 1022" "pt_index (TEMP_PAGEDIR_ADDR + of_nat k) = 1022"
    "page_offset (TEMP_PAGEDIR_ADDR + of_nat k) = of_nat k"
proof -
  have u: "unat (TEMP_PAGEDIR_ADDR + of_nat k) = 4096 * 1047550 + k"
    using unat_offset [of TEMP_PAGEDIR_ADDR k] assms by (simp add: page_aligned_def TEMP_PAGEDIR_ADDR_def)
  have d: "unat (TEMP_PAGEDIR_ADDR + of_nat k) div 4096 = 1047550" unfolding u using assms by simp
  have "unat (TEMP_PAGEDIR_ADDR + of_nat k) div 4194304 = 1022"
    using d div_mult2_eq [of "unat (TEMP_PAGEDIR_ADDR + of_nat k)" 4096 1024] by simp
  then show "pd_index (TEMP_PAGEDIR_ADDR + of_nat k) = 1022" by (simp add: word_unat_eq_iff unat_pd_index)
  show "pt_index (TEMP_PAGEDIR_ADDR + of_nat k) = 1022" using d by (simp add: word_unat_eq_iff unat_pt_index)
  have "unat (TEMP_PAGEDIR_ADDR + of_nat k) mod 4096 = k"
    unfolding u using assms mod_mult_self4 [of 4096 1047550 k] by simp
  then show "page_offset (TEMP_PAGEDIR_ADDR + of_nat k) = of_nat k"
    using assms by (simp add: word_unat_eq_iff unat_page_offset unat_of_nat_u32)
qed

lemma temp_indices: "pd_index TEMP_PAGEDIR_ADDR = 1022" "pt_index TEMP_PAGEDIR_ADDR = 1022"
  using temp_address [of 0] by simp_all

text \<open>The entries of a directory cloned from the active one into frame \<^verbatim>\<open>nd\<close>.\<close>

definition cloned_pde :: "'a machine_state_scheme \<Rightarrow> u32 \<Rightarrow> u32 \<Rightarrow> u32" where
  "cloned_pde s nd k =
     (if k = 0 then read_pde s 0 else if k = 1023 then nd OR 3
      else if 768 \<le> unat k \<and> present (read_pde s k) then read_pde s k else 0)"

lemma temp_map:
  assumes "paging_wf s" and "page_aligned nd" and "nd \<notin> table_frames s" and "present (read_pde s 1022)"
    and "T = frame_of (read_pde s 1022)" and "s1 = s\<lparr>phys := store32 (phys s) (T + 4 * 1022) (nd OR 3)\<rparr>"
  shows "paging_map_page dir TEMP_PAGEDIR_ADDR nd 3 s = Some s1" and "temp_mapped s1 nd"
    and "i < 1024 \<Longrightarrow> read_pde s1 i = read_pde s i" and "same_outside T (phys s) (phys s1)"
proof -
  have i: "(1022 :: u32) < 1024" "(1022 :: u32) \<noteq> 1023" by simp_all
  show "paging_map_page dir TEMP_PAGEDIR_ADDR nd 3 s = Some s1"
    using map_page_present [OF assms(1), of TEMP_PAGEDIR_ADDR dir nd 3] assms(4-6) by (simp add: temp_indices)
  note st = store_table [OF assms(1) i(1,1,2) assms(4) assms(6) [unfolded assms(5)]]
  show pde: "read_pde s1 i = read_pde s i" if "i < 1024" for i by (rule st(1) [OF that])
  have tab: "table_frames s1 = table_frames s" unfolding table_frames_def by (rule Collect_cong) (metis pde)
  have "translate s1 (TEMP_PAGEDIR_ADDR + of_nat k) = Some (nd + of_nat k)" if "k < 4096" for k
    using st(2) [of "TEMP_PAGEDIR_ADDR + of_nat k"] temp_address [OF that] entry_or_3 [OF assms(2)]
      paging_wfD(1) [OF st(3)] by (simp add: translate_def)
  with st(3) assms(2,3) tab show "temp_mapped s1 nd" by (simp add: temp_mapped_def)
  show "same_outside T (phys s) (phys s1)"
    unfolding assms(6) using store32_outside [OF page_aligned_frame_of i(1)] by (simp add: assms(5))
qed

lemma temp_fill:
  assumes "temp_mapped s1 nd"
  obtains m where
    "do { s \<leftarrow> vmemset 4096 TEMP_PAGEDIR_ADDR 0 s1;
          e0 \<leftarrow> vload32 s CURRENT_PAGE_DIR;
          s \<leftarrow> vstore32 TEMP_PAGEDIR_ADDR e0 s;
          s \<leftarrow> clone_entries 255 768 s;
          vstore32 (TEMP_PAGEDIR_ADDR + 4 * 1023) (nd OR 3) s } = Some (s1\<lparr>phys := m\<rparr>)"
    "same_outside nd (phys s1) m" "\<forall>k < 1024. load32 m (nd + 4 * k) = cloned_pde s1 nd k"
proof -
  from assms have wf: "paging_wf s1" and nd: "page_aligned nd" "nd \<notin> table_frames s1"
    and tr: "\<And>k. k < 4096 \<Longrightarrow> translate s1 (TEMP_PAGEDIR_ADDR + of_nat k) = Some (nd + of_nat k)"
    by (simp_all add: temp_mapped_def)
  let ?z = "zero_page (phys s1) nd"
  have z: "same_outside nd (phys s1) ?z" by (rule same_outside_zero_page)
  have set0: "vmemset 4096 TEMP_PAGEDIR_ADDR 0 s1 = Some (s1\<lparr>phys := ?z\<rparr>)"
    by (rule vmemset_page [OF nd(1)]) (use outside_tables(3) [OF wf nd(2)] tr in simp)
  have i: "(0 :: u32) < 1024" "(1023 :: u32) < 1024" by simp_all
  note t0 = temp_memory [OF assms z i(1)]
  let ?first = "store32 ?z (nd + 4 * 0) (read_pde s1 0)"
  note o0 = t0(3) [of "read_pde s1 0"]
  from clone_entries_run [OF assms o0, of 768 255] obtain m1 where
    m1: "clone_entries 255 768 (s1\<lparr>phys := ?first\<rparr>) = Some (s1\<lparr>phys := m1\<rparr>)" "same_outside nd (phys s1) m1"
      "\<forall>k < 1024. load32 m1 (nd + 4 * k) =
        (if 768 \<le> unat k \<and> unat k < 1023 \<and> present (read_pde s1 k) then read_pde s1 k
         else load32 ?first (nd + 4 * k))" by auto
  let ?m = "store32 m1 (nd + 4 * 1023) (nd OR 3)"
  note t1 = temp_memory [OF assms m1(2) i(2)]
  have entry: "load32 ?m (nd + 4 * k) = cloned_pde s1 nd k" if k: "k < 1024" for k
  proof -
    have l: "load32 ?m (nd + 4 * k) = (if 1023 = k then nd OR 3 else load32 m1 (nd + 4 * k))"
      using load32_index [OF nd(1,1) i(2) k] by simp
    have l0: "load32 ?first (nd + 4 * k) = (if 0 = k then read_pde s1 0 else 0)"
      using load32_index [OF nd(1,1) i(1) k] load32_zero_page [OF nd(1) k] by simp
    have lt: "k \<noteq> 1023 \<Longrightarrow> unat k < 1023"
      using k by (simp add: less_1024 word_unat_eq_iff)
    show ?thesis
    proof (cases "k = 0 \<or> k = 1023")
      case True
      then show ?thesis using l l0 m1(3) k by (auto simp: cloned_pde_def)
    next
      case False
      then show ?thesis using l l0 m1(3) k lt by (simp add: cloned_pde_def)
    qed
  qed
  show thesis
  proof (rule that)
    show "do { s \<leftarrow> vmemset 4096 TEMP_PAGEDIR_ADDR 0 s1;
          e0 \<leftarrow> vload32 s CURRENT_PAGE_DIR;
          s \<leftarrow> vstore32 TEMP_PAGEDIR_ADDR e0 s;
          s \<leftarrow> clone_entries 255 768 s;
          vstore32 (TEMP_PAGEDIR_ADDR + 4 * 1023) (nd OR 3) s } = Some (s1\<lparr>phys := ?m\<rparr>)"
      using set0 t0(1,2) m1(1) t1(2) by simp
    show "same_outside nd (phys s1) ?m" by (rule t1(3))
    show "\<forall>k < 1024. load32 ?m (nd + 4 * k) = cloned_pde s1 nd k" using entry by blast
  qed
qed

lemma temp_page: "frame_of va \<noteq> TEMP_PAGEDIR_ADDR \<Longrightarrow> \<not> (pd_index va = 1022 \<and> pt_index va = 1022)"
proof
  assume "frame_of va \<noteq> TEMP_PAGEDIR_ADDR" and "pd_index va = 1022 \<and> pt_index va = 1022"
  then have "frame_of va = frame_of TEMP_PAGEDIR_ADDR" by (intro frame_of_indices) (simp_all add: temp_indices)
  also have "\<dots> = TEMP_PAGEDIR_ADDR" by (rule frame_of_aligned) (simp add: page_aligned_def TEMP_PAGEDIR_ADDR_def)
  finally show False using \<open>frame_of va \<noteq> TEMP_PAGEDIR_ADDR\<close> by simp
qed

lemma temp_page_indices: "frame_of va = TEMP_PAGEDIR_ADDR \<Longrightarrow> pd_index va = 1022 \<and> pt_index va = 1022"
proof -
  assume "frame_of va = TEMP_PAGEDIR_ADDR"
  moreover obtain k where "k < 4096" "va = frame_of va + of_nat k" using offset_of_frame [of va] by blast
  ultimately show ?thesis using temp_address [of k] by metis
qed

lemma clone_run:
  assumes "paging_wf s" and "pmm_inv s" and "free_frames s \<noteq> {}" and "nd = frame_addr (Min (free_frames s))"
    and "nd \<notin> table_frames s" and "present (read_pde s 1022)" and "T = frame_of (read_pde s 1022)"
  obtains bm m where "paging_clone_directory src s =
      Some (nd, s\<lparr>pmm_bitmap := bm, phys := store32 m (T + 4 * 1022) 0\<rparr>)"
    "length bm = length (pmm_bitmap s)"
    "free_frames (s\<lparr>pmm_bitmap := bm\<rparr>) = free_frames s - {Min (free_frames s)}"
    "same_outside nd (store32 (phys s) (T + 4 * 1022) (nd OR 3)) m"
    "\<forall>k < 1024. load32 m (nd + 4 * k) = cloned_pde s nd k"
    "page_aligned nd" "nd \<noteq> 0"
proof -
  from pmm_alloc_frame_least [OF assms(2,3)] obtain bm where
    bm: "pmm_alloc_frame s = Some (nd, s\<lparr>pmm_bitmap := bm\<rparr>)" "length bm = length (pmm_bitmap s)"
      "free_frames (s\<lparr>pmm_bitmap := bm\<rparr>) = free_frames s - {Min (free_frames s)}"
    unfolding assms(4) .
  have min: "Min (free_frames s) \<in> free_frames s" using assms(3) by (intro Min_in) auto
  have "0 \<notin> free_frames s" using assms(2) by (simp add: pmm_inv_def)
  with min have num: "Min (free_frames s) < 1048576" "Min (free_frames s) \<noteq> 0"
    using managed_bound [OF assms(2)] free_frames_managed [of s] by (blast, metis)
  have nd: "page_aligned nd" "nd \<noteq> 0"
    unfolding assms(4) using frame_addr_aligned [OF num(1)] frame_addr_eq_0 [OF num(1)] num(2) by auto
  let ?a = "s\<lparr>pmm_bitmap := bm\<rparr>"
  have cong: "phys ?a = phys s" "cr3 ?a = cr3 s" "cr0_pg ?a = cr0_pg s" by simp_all
  have pde_a: "read_pde ?a = read_pde s" by (rule read_pde_cong [OF cong(1,2)])
  have a: "paging_wf ?a" "nd \<notin> table_frames ?a" "present (read_pde ?a 1022)" "T = frame_of (read_pde ?a 1022)"
    using assms(1,5,6,7) paging_cong(3,4) [OF cong] pde_a by auto
  let ?b = "?a\<lparr>phys := store32 (phys ?a) (T + 4 * 1022) (nd OR 3)\<rparr>"
  note tm = temp_map [OF a(1) nd(1) a(2-4) refl]
  from temp_fill [OF tm(2)] obtain m where
    fill: "do { s \<leftarrow> vmemset 4096 TEMP_PAGEDIR_ADDR 0 ?b;
          e0 \<leftarrow> vload32 s CURRENT_PAGE_DIR;
          s \<leftarrow> vstore32 TEMP_PAGEDIR_ADDR e0 s;
          s \<leftarrow> clone_entries 255 768 s;
          vstore32 (TEMP_PAGEDIR_ADDR + 4 * 1023) (nd OR 3) s } = Some (?b\<lparr>phys := m\<rparr>)"
    and out: "same_outside nd (phys ?b) m" and ent: "\<forall>k < 1024. load32 m (nd + 4 * k) = cloned_pde ?b nd k" .
  have wfb: "paging_wf ?b" "nd \<notin> table_frames ?b" using tm(2) by (simp_all add: temp_mapped_def)
  note o = outside_tables [OF wfb out]
  have k: "(1022 :: u32) < 1024" by simp
  have pde_m: "read_pde (?b\<lparr>phys := m\<rparr>) 1022 = read_pde s 1022" using o(1) [OF k] tm(3) [OF k] pde_a by simp
  have unmap: "paging_map_page CURRENT_PAGE_DIR TEMP_PAGEDIR_ADDR 0 0 (?b\<lparr>phys := m\<rparr>) =
      Some (s\<lparr>pmm_bitmap := bm, phys := store32 m (T + 4 * 1022) 0\<rparr>)"
    using map_page_present [OF o(4), of TEMP_PAGEDIR_ADDR CURRENT_PAGE_DIR 0 0] assms(6)
    unfolding temp_indices pde_m assms(7) [symmetric] by simp
  have fl: "PAGING_FLAG_PRESENT OR PAGING_FLAG_RW = 3" by (simp add: paging_flags)
  have run: "paging_clone_directory src s =
      Some (nd, s\<lparr>pmm_bitmap := bm, phys := store32 m (T + 4 * 1022) 0\<rparr>)"
  proof -
    from fill obtain s2 e0 s3 s4 where
      "vmemset 4096 TEMP_PAGEDIR_ADDR 0 ?b = Some s2" "vload32 s2 CURRENT_PAGE_DIR = Some e0"
      "vstore32 TEMP_PAGEDIR_ADDR e0 s2 = Some s3" "clone_entries 255 768 s3 = Some s4"
      "vstore32 (TEMP_PAGEDIR_ADDR + 4 * 1023) (nd OR 3) s4 = Some (?b\<lparr>phys := m\<rparr>)"
      by (auto simp only: bind_eq_Some_conv)
    with bm(1) nd(2) tm(1) [of CURRENT_PAGE_DIR] unmap show ?thesis
      by (simp only: paging_clone_directory_def fl bind.bind_lunit if_False prod.case)
  qed
  have "cloned_pde ?b nd i = cloned_pde s nd i" if "i < 1024" for i
    using tm(3) [OF that] tm(3) [of 0] pde_a by (simp add: cloned_pde_def)
  with ent have "\<forall>i < 1024. load32 m (nd + 4 * i) = cloned_pde s nd i" by simp
  then show thesis using that [OF run bm(2,3) _ _ nd] out by simp
qed

lemma clone_lookup:
  assumes "paging_wf s" and "page_aligned nd" and "nd \<notin> table_frames s" and "present (read_pde s 1022)"
    and "T = frame_of (read_pde s 1022)"
    and "same_outside nd (store32 (phys s) (T + 4 * 1022) (nd OR 3)) m"
    and "present (read_pde s (pd_index va))" and "\<not> (pd_index va = 1022 \<and> pt_index va = 1022)"
  shows "load32 (store32 m (T + 4 * 1022) 0) (frame_of (read_pde s (pd_index va)) + 4 * pt_index va) =
     load32 (phys s) (frame_of (read_pde s (pd_index va)) + 4 * pt_index va)"
proof -
  let ?F = "frame_of (read_pde s (pd_index va))"
  have i: "(1022 :: u32) < 1024" by simp
  have T: "page_aligned T" by (simp add: assms(5))
  have "?F \<in> table_frames s" using assms(7) pd_index_less [of va] by (auto simp: table_frames_def)
  with assms(3) have F: "?F \<noteq> nd" by auto
  have "T = ?F \<Longrightarrow> pd_index va = 1022"
    using assms(1,4,5,7) i pd_index_less [of va] unfolding paging_wf_def by blast
  with assms(8) have ne: "\<not> (T = ?F \<and> 1022 = pt_index va)" by auto
  have "load32 (store32 m (T + 4 * 1022) 0) (?F + 4 * pt_index va) = load32 m (?F + 4 * pt_index va)"
    using load32_index [OF T page_aligned_frame_of i pt_index_less] ne by auto
  also have "\<dots> = load32 (store32 (phys s) (T + 4 * 1022) (nd OR 3)) (?F + 4 * pt_index va)"
    by (rule load32_same_outside [OF assms(6) page_aligned_frame_of pt_index_less F])
  also have "\<dots> = load32 (phys s) (?F + 4 * pt_index va)"
    using load32_index [OF T page_aligned_frame_of i pt_index_less] ne by auto
  finally show ?thesis .
qed

lemma cloned_wf:
  assumes "paging_wf s" and "page_aligned nd" and "nd \<notin> table_frames s"
    and "cr0_pg t" and "cr3 t = nd" and "\<And>k. k < 1024 \<Longrightarrow> read_pde t k = cloned_pde s nd k"
  shows "paging_wf t"
proof -
  note e = entry_or_3 [OF assms(2)]
  have "(1023 :: u32) < 1024" by simp
  from assms(6) [OF this] have rec: "read_pde t 1023 = nd OR 3" by (simp add: cloned_pde_def)
  have cases: "k = 1023 \<and> frame_of (read_pde t k) = nd \<or>
      k \<noteq> 1023 \<and> present (read_pde s k) \<and> read_pde t k = read_pde s k \<and> frame_of (read_pde s k) \<noteq> nd"
    if "k < 1024" "present (read_pde t k)" for k
  proof (cases "k = 1023")
    case False
    have "\<not> present 0" by (simp add: present_def)
    with that False assms(6) [OF that(1)] have "present (read_pde s k) \<and> read_pde t k = read_pde s k"
      by (simp add: cloned_pde_def split: if_splits)
    moreover from this that(1) have "frame_of (read_pde s k) \<in> table_frames s" by (auto simp: table_frames_def)
    ultimately show ?thesis using assms(3) False by auto
  qed (use rec e in simp)
  have "frame_of (read_pde t k) \<noteq> frame_of (read_pde t l)"
    if "k < 1024" "l < 1024" "k \<noteq> l" "present (read_pde t k)" "present (read_pde t l)" for k l
    using cases [OF that(1,4)] cases [OF that(2,5)] that(1-3) assms(1) unfolding paging_wf_def by metis
  then show ?thesis unfolding paging_wf_def rec using assms(2,4,5) e by simp
qed

text \<open>How the old and the new directory translate after the copy.\<close>

lemma clone_view:
  fixes bm :: "u32 list"
  assumes "paging_wf s" and "page_aligned nd" and "nd \<notin> table_frames s" and "present (read_pde s 1022)"
    and T_def: "T = frame_of (read_pde s 1022)"
    and out: "same_outside nd (store32 (phys s) (T + 4 * 1022) (nd OR 3)) m"
    and ent: "\<forall>k < 1024. load32 m (nd + 4 * k) = cloned_pde s nd k"
  defines "s' \<equiv> s\<lparr>pmm_bitmap := bm, phys := store32 m (T + 4 * 1022) 0\<rparr>"
  shows "k < 1024 \<Longrightarrow> read_pde (s'\<lparr>cr3 := nd\<rparr>) k = cloned_pde s nd k"
    and "frame_of va \<noteq> TEMP_PAGEDIR_ADDR \<Longrightarrow> lookup_pte s' va = lookup_pte s va"
    and "pd_index va = 0 \<or> 768 \<le> unat (pd_index va) \<and> pd_index va \<noteq> 1023 \<Longrightarrow> frame_of va \<noteq> TEMP_PAGEDIR_ADDR \<Longrightarrow>
      lookup_pte (s'\<lparr>cr3 := nd\<rparr>) va = lookup_pte s va \<and>
      (lookup_pte s va \<noteq> None \<longrightarrow> read_pde (s'\<lparr>cr3 := nd\<rparr>) (pd_index va) = read_pde s (pd_index va))"
    and "pd_index va \<noteq> 0 \<Longrightarrow> unat (pd_index va) < 768 \<Longrightarrow> lookup_pte (s'\<lparr>cr3 := nd\<rparr>) va = None"
    and "k < 1024 \<Longrightarrow> read_pde s' k = read_pde s k"
    and "frame_of va = TEMP_PAGEDIR_ADDR \<Longrightarrow> lookup_pte s' va = Some 0 \<and> lookup_pte (s'\<lparr>cr3 := nd\<rparr>) va = Some 0"
proof -
  note wf = paging_wfD [OF assms(1)]
  have i: "(1022 :: u32) < 1024" "(1022 :: u32) \<noteq> 1023" by simp_all
  have T: "page_aligned T" "T \<noteq> nd" "T \<noteq> cr3 s"
    using assms(3,4) i wf(6) [OF i(1) assms(4) i(2)] by (auto simp: T_def table_frames_def)
  have cr: "cr3 s \<noteq> nd" using table_frames_directory [OF assms(1)] assms(3) by auto
  note look = clone_lookup [OF assms(1-4) T_def out]
  show pde_s: "read_pde s' k = read_pde s k" if "k < 1024" for k
    using load32_index [OF T(1) wf(2) i(1) that] load32_same_outside [OF out wf(2) that cr] T(3) wf(5)
    by (simp add: read_pde_def s'_def)
  show pde_t: "read_pde (s'\<lparr>cr3 := nd\<rparr>) k = cloned_pde s nd k" if "k < 1024" for k
    using load32_index [OF T(1) assms(2) i(1) that] T(2) ent that
    by (simp add: read_pde_def s'_def frame_of_aligned [OF assms(2)])
  show "lookup_pte s' va = lookup_pte s va" if "frame_of va \<noteq> TEMP_PAGEDIR_ADDR"
    using look [OF _ temp_page [OF that]] pde_s [OF pd_index_less, of va] by (simp add: lookup_pte_def Let_def s'_def)
  have absent: "\<not> present 0" by (simp add: present_def)
  show "lookup_pte (s'\<lparr>cr3 := nd\<rparr>) va = lookup_pte s va \<and>
      (lookup_pte s va \<noteq> None \<longrightarrow> read_pde (s'\<lparr>cr3 := nd\<rparr>) (pd_index va) = read_pde s (pd_index va))"
    if "pd_index va = 0 \<or> 768 \<le> unat (pd_index va) \<and> pd_index va \<noteq> 1023" "frame_of va \<noteq> TEMP_PAGEDIR_ADDR"
    using look [OF _ temp_page [OF that(2)]] pde_t [OF pd_index_less, of va] that(1) absent
    by (auto simp: lookup_pte_def Let_def cloned_pde_def s'_def)
  show "lookup_pte s' va = Some 0 \<and> lookup_pte (s'\<lparr>cr3 := nd\<rparr>) va = Some 0" if "frame_of va = TEMP_PAGEDIR_ADDR"
  proof -
    have "read_pde (s'\<lparr>cr3 := nd\<rparr>) 1022 = read_pde s 1022" using pde_t [OF i(1)] assms(4) by (simp add: cloned_pde_def)
    then show ?thesis
      using temp_page_indices [OF that] pde_s [OF i(1)] assms(4)
      by (simp add: lookup_pte_def Let_def T_def [symmetric]) (simp add: s'_def load32_store32_same)
  qed
  show "lookup_pte (s'\<lparr>cr3 := nd\<rparr>) va = None" if "pd_index va \<noteq> 0" "unat (pd_index va) < 768"
  proof -
    have "pd_index va \<noteq> 1023" using that(2) by auto
    then show ?thesis using pde_t [OF pd_index_less, of va] that
      by (simp add: lookup_pte_def Let_def cloned_pde_def present_def)
  qed
qed

text \<open>C5. \<^verbatim>\<open>paging_clone_directory\<close> (paging.c), called for the active directory, builds a separate
  address space: after switching to the directory it returns, the kernel's pages (the first
  four megabytes and everything from 3 GB up to the recursive window) translate as before
  with the same protection, no page of user space (4 MB to 3 GB) is mapped, and the address
  space is well formed. The active address space stays well formed and is left as it was,
  apart from the temporary page, which is mapped in neither of the two afterwards, and
  exactly one frame is consumed, the one of the new directory. The page table of the
  temporary page must exist already.\<close>

theorem paging_clone_directory_correct:
  assumes "paging_wf s" and "pmm_inv s" and "free_frames s \<noteq> {}" and "nd = frame_addr (Min (free_frames s))"
    and "nd \<notin> table_frames s" and "present (read_pde s 1022)" and "src = cr3 s"
  shows "\<exists>s'. paging_clone_directory src s = Some (nd, s') \<and> cr3 s' = cr3 s \<and> pmm_inv s' \<and> paging_wf s' \<and>
     free_frames s' = free_frames s - {Min (free_frames s)} \<and>
     (\<forall>va. pd_index va \<noteq> 1023 \<and> frame_of va \<noteq> TEMP_PAGEDIR_ADDR \<longrightarrow>
        translate s' va = translate s va \<and> (user_accessible s' va \<longleftrightarrow> user_accessible s va)) \<and>
     (\<forall>va. frame_of va = TEMP_PAGEDIR_ADDR \<longrightarrow> translate s' va = None) \<and>
     (let t = paging_switch_directory nd s' in
        paging_wf t \<and>
        (\<forall>va. (pd_index va = 0 \<or> 768 \<le> unat (pd_index va) \<and> pd_index va \<noteq> 1023) \<and>
           frame_of va \<noteq> TEMP_PAGEDIR_ADDR \<longrightarrow>
           translate t va = translate s va \<and> (user_accessible t va \<longleftrightarrow> user_accessible s va)) \<and>
        (\<forall>va. frame_of va = TEMP_PAGEDIR_ADDR \<longrightarrow> translate t va = None) \<and>
        (\<forall>va. pd_index va \<noteq> 0 \<and> unat (pd_index va) < 768 \<longrightarrow> translate t va = None))"
proof -
  define T where "T = frame_of (read_pde s 1022)"
  from clone_run [where src = src, OF assms(1-6) T_def] obtain bm m where
    run: "paging_clone_directory src s = Some (nd, s\<lparr>pmm_bitmap := bm, phys := store32 m (T + 4 * 1022) 0\<rparr>)"
    and len: "length bm = length (pmm_bitmap s)"
    and free: "free_frames (s\<lparr>pmm_bitmap := bm\<rparr>) = free_frames s - {Min (free_frames s)}"
    and out: "same_outside nd (store32 (phys s) (T + 4 * 1022) (nd OR 3)) m"
    and ent: "\<forall>k < 1024. load32 m (nd + 4 * k) = cloned_pde s nd k" and nd: "page_aligned nd" "nd \<noteq> 0" .
  let ?s = "s\<lparr>pmm_bitmap := bm, phys := store32 m (T + 4 * 1022) 0\<rparr>" and ?t = "\<lambda>s'. s'\<lparr>cr3 := nd\<rparr>"
  note pg = paging_wfD(1) [OF assms(1)] and view = clone_view [OF assms(1) nd(1) assms(5,6) T_def out ent, where bm = bm]
  have wft: "paging_wf (?t ?s)" using cloned_wf [OF assms(1) nd(1) assms(5), of "?t ?s"] pg view(1) by simp
  have "free_frames ?s = free_frames s - {Min (free_frames s)}"
    using free by (simp add: free_frames_def managed_frames_def)
  moreover from this have "pmm_inv ?s" using assms(2) len by (simp add: pmm_inv_def)
  moreover have "translate ?s va = translate s va \<and> (user_accessible ?s va \<longleftrightarrow> user_accessible s va)"
    if "frame_of va \<noteq> TEMP_PAGEDIR_ADDR" for va
    using view(2) [OF that] view(5) [OF pd_index_less, of va]
    by (simp add: translate_def user_accessible_def split: option.splits)
  moreover have "translate ?s va = None" "translate (?t ?s) va = None" if "frame_of va = TEMP_PAGEDIR_ADDR" for va
    using view(6) [OF that] pg by (simp_all add: translate_def present_def)
  moreover have "paging_wf ?s"
  proof -
    have "(1023 :: u32) < 1024" by simp
    from view(5) [OF this] assms(1) show ?thesis using view(5) unfolding paging_wf_def by simp
  qed
  moreover have "translate (?t ?s) va = translate s va \<and> (user_accessible (?t ?s) va \<longleftrightarrow> user_accessible s va)"
    if "pd_index va = 0 \<or> 768 \<le> unat (pd_index va) \<and> pd_index va \<noteq> 1023" "frame_of va \<noteq> TEMP_PAGEDIR_ADDR" for va
    using view(3) [OF that] by (auto simp: translate_def user_accessible_def split: option.splits)
  moreover have "translate (?t ?s) va = None" if "pd_index va \<noteq> 0" "unat (pd_index va) < 768" for va
    using view(4) [OF that] pg by (simp add: translate_def)
  ultimately show ?thesis
    using run wft unfolding Let_def paging_switch_directory_def load_page_directory_def
    by (intro exI [of _ ?s]) simp
qed

text \<open>The booted machine with a page table for the temporary pages, in a reserved frame.\<close>

definition temp_machine :: machine_state where
  "temp_machine = booted_machine\<lparr>phys :=
     store32 (phys booted_machine) (cr3 booted_machine + 4 * 1022) (0x30000 OR 3)\<rparr>"

lemma temp_machine:
  "paging_wf temp_machine" "pmm_inv temp_machine" "free_frames temp_machine = {67..<4096}"
  "0x43000 \<notin> table_frames temp_machine" "present (read_pde temp_machine 1022)"
  "translate temp_machine 0xB8000 = Some 0xB8000"
proof -
  have al: "page_aligned 0x30000" "page_aligned 0x41000" "page_aligned 0x42000" by (simp_all add: page_aligned_def)
  note e = entry_or_3 [OF al(1)] entry_or_3 [OF al(2)] entry_or_3 [OF al(3)]
  have i: "(1022 :: u32) < 1024" "(1022 :: u32) \<noteq> 1023" by simp_all
  have abs: "\<not> present (read_pde booted_machine 1022)" using booted_machine(6) [OF i(1)] by (simp add: present_def)
  have notin: "0x30000 \<notin> table_frames booted_machine"
    using booted_machine(6) e by (auto simp: table_frames_def present_def split: if_splits)
  have fr: "frame_of (0x30000 OR 3) = 0x30000" "present (0x30000 OR 3)" using e by simp_all
  note d = store_directory [OF booted_machine(2) i abs notin fr temp_machine_def]
  show "paging_wf temp_machine" by (rule d(4))
  show fre: "free_frames temp_machine = {67..<4096}"
    using booted_machine(5) by (simp add: temp_machine_def free_frames_def managed_frames_def)
  have "pmm_inv booted_machine" using booted_machine(3) by (simp add: table_available_def)
  then show "pmm_inv temp_machine" using fre by (simp add: temp_machine_def pmm_inv_def)
  show "present (read_pde temp_machine 1022)" using d(1) [OF i(1)] fr(2) by simp
  show "0x43000 \<notin> table_frames temp_machine"
    using d(1) booted_machine(6) e by (auto simp: table_frames_def present_def split: if_splits)
  have v: "pd_index 0xB8000 = 0" by (simp add: pd_index_def)
  then have "lookup_pte temp_machine 0xB8000 = lookup_pte booted_machine 0xB8000" by (intro d(3)) simp
  then have "translate temp_machine 0xB8000 = translate booted_machine 0xB8000"
    by (simp add: translate_def temp_machine_def)
  then show "translate temp_machine 0xB8000 = Some 0xB8000" using booted_machine(7) [of "0xB8000"] v by simp
qed

theorem paging_clone_directory_correct_witness:
  "\<exists>s'. paging_clone_directory 0x41000 temp_machine = Some (0x43000, s') \<and>
     translate (paging_switch_directory 0x43000 s') 0xB8000 = Some 0xB8000 \<and>
     translate (paging_switch_directory 0x43000 s') 0x400000 = None \<and> translate s' TEMP_PAGEDIR_ADDR = None"
proof -
  have i: "pd_index 0xB8000 = 0" "pd_index 0x400000 = 1" "frame_of 0xB8000 \<noteq> TEMP_PAGEDIR_ADDR"
      "frame_of TEMP_PAGEDIR_ADDR = TEMP_PAGEDIR_ADDR"
    by (simp_all add: pd_index_def frame_of_def TEMP_PAGEDIR_ADDR_def)
  have cr: "(0x41000 :: u32) = cr3 temp_machine" by (simp add: temp_machine_def booted_machine)
  have "Min (free_frames temp_machine) = 67" unfolding temp_machine(3) by (rule Min_eqI) auto
  then have nd: "0x43000 = frame_addr (Min (free_frames temp_machine))"
    by (simp add: frame_addr_def PMM_FRAME_SIZE_def)
  have ne: "free_frames temp_machine \<noteq> {}" by (simp add: temp_machine(3))
  from paging_clone_directory_correct [OF temp_machine(1,2) ne nd temp_machine(4,5) cr]
  show ?thesis using i temp_machine(6) by (auto simp: Let_def)
qed

end
