(* ===== verification/Heap.thy ===== *)
theory Heap
  imports Paging
begin

text \<open>
  The kernel heap: \<^verbatim>\<open>kernel/mm/memory.c\<close>. Blocks lie one after the other behind the kernel
  image; each starts with a header of two words, its size and the next block of the free
  list. The headers are read and written through the paging unit, and the heap grows by
  mapping frames from the physical memory manager at its end. The linker symbol
  \<^verbatim>\<open>kernel_end\<close> is an argument of \<^verbatim>\<open>init_memory\<close>.

  The search for a free block follows the list through memory, so a list that runs in a
  circle would never end: the loops are \<^verbatim>\<open>partial_function\<close>s, and that they return is part of
  what is proved.
\<close>

section \<open>State and operations\<close>

record heap_state = machine_state +
  heap_top :: u32
  heap_end :: u32
  free_list_head :: u32

definition init_memory :: "u32 \<Rightarrow> 'a heap_state_scheme \<Rightarrow> 'a heap_state_scheme option" where
  "init_memory kernel_end s =
     (let top = kernel_end + pmm_bitmap_size s;
          top = (if top mod PMM_FRAME_SIZE \<noteq> 0 then (top div PMM_FRAME_SIZE + 1) * PMM_FRAME_SIZE else top);
          s = s\<lparr>heap_top := top, heap_end := top + PMM_FRAME_SIZE\<rparr>
      in do {
        (frame, s) \<leftarrow> pmm_alloc_frame s;
        paging_map_page (kernel_directory s) (heap_top s) frame (PAGING_FLAG_PRESENT OR PAGING_FLAG_RW) s
      })"

text \<open>
  The pointer \<^verbatim>\<open>link\<close> of \<^verbatim>\<open>malloc\<close> points at the list head or at the \<^verbatim>\<open>next\<close> field of a block.
\<close>

datatype link = Head | NextOf u32

fun link_get :: "link \<Rightarrow> 'a heap_state_scheme \<Rightarrow> u32 option" where
  "link_get Head s = Some (free_list_head s)"
| "link_get (NextOf b) s = vload32 s (b + 4)"

fun link_set :: "link \<Rightarrow> u32 \<Rightarrow> 'a heap_state_scheme \<Rightarrow> 'a heap_state_scheme option" where
  "link_set Head v s = Some (s\<lparr>free_list_head := v\<rparr>)"
| "link_set (NextOf b) v s = vstore32 (b + 4) v s"

text \<open>The loop over the free list; the result 0 stands for leaving it at the end of the list.\<close>

partial_function (option) malloc_find ::
    "u32 \<Rightarrow> link \<Rightarrow> 'a heap_state_scheme \<Rightarrow> (u32 \<times> 'a heap_state_scheme) option" where
  "malloc_find sz link s =
     do {
       current \<leftarrow> link_get link s;
       if current = 0 then Some (0, s)
       else do {
         block_size \<leftarrow> vload32 s current;
         if sz \<le> block_size then do {
           nx \<leftarrow> vload32 s (current + 4);
           s \<leftarrow> link_set link nx s;
           Some (current + 8, s)
         }
         else malloc_find sz (NextOf current) s
       }
     }"

text \<open>The loop that extends the mapped heap; \<^term>\<open>False\<close>: out of physical memory.\<close>

partial_function (option) malloc_expand ::
    "u32 \<Rightarrow> 'a heap_state_scheme \<Rightarrow> (bool \<times> 'a heap_state_scheme) option" where
  "malloc_expand sz s =
     (if heap_top s + 8 + sz > heap_end s then
        do {
          (frame, s) \<leftarrow> pmm_alloc_frame s;
          if frame = 0 then Some (False, s)
          else do {
            s \<leftarrow> paging_map_page (kernel_directory s) (heap_end s) frame
                   (PAGING_FLAG_PRESENT OR PAGING_FLAG_RW) s;
            malloc_expand sz (s\<lparr>heap_end := heap_end s + PMM_FRAME_SIZE\<rparr>)
          }
        }
      else Some (True, s))"

definition malloc :: "u32 \<Rightarrow> 'a heap_state_scheme \<Rightarrow> (u32 \<times> 'a heap_state_scheme) option" where
  "malloc sz s =
     (if sz = 0 then Some (0, s)
      else do {
        (p, s) \<leftarrow> malloc_find sz Head s;
        if p \<noteq> 0 then Some (p, s)
        else do {
          let s = (if heap_top s mod 4 \<noteq> 0 then s\<lparr>heap_top := (heap_top s + 3) AND NOT 3\<rparr> else s);
          (ok, s) \<leftarrow> malloc_expand sz s;
          if \<not> ok then Some (0, s)
          else do {
            let total_size = 8 + sz;
            let new_block = heap_top s;
            let s = s\<lparr>heap_top := heap_top s + total_size\<rparr>;
            s \<leftarrow> vstore32 new_block sz s;
            s \<leftarrow> vstore32 (new_block + 4) 0 s;
            Some (new_block + 8, s)
          }
        }
      })"

definition free :: "u32 \<Rightarrow> 'a heap_state_scheme \<Rightarrow> 'a heap_state_scheme option" where
  "free ptr s =
     (if ptr = 0 then Some s
      else do {
        let header = ptr - 8;
        s \<leftarrow> vstore32 (header + 4) (free_list_head s) s;
        Some (s\<lparr>free_list_head := header\<rparr>)
      })"

section \<open>A memory of words\<close>

text \<open>
  What the heap needs from the memory below it: on a region of word addresses, reads and
  writes do not fail, a read returns what was written last, and writes do not interfere.
\<close>

locale word_memory =
  fixes rd :: "'s \<Rightarrow> u32 \<Rightarrow> u32 option"
    and wr :: "u32 \<Rightarrow> u32 \<Rightarrow> 's \<Rightarrow> 's option"
    and ok :: "'s \<Rightarrow> bool"
    and region :: "'s \<Rightarrow> u32 set"
  assumes rd_some: "ok s \<Longrightarrow> a \<in> region s \<Longrightarrow> \<exists>v. rd s a = Some v"
    and wr_some: "ok s \<Longrightarrow> a \<in> region s \<Longrightarrow> \<exists>s'. wr a v s = Some s' \<and> ok s' \<and> region s' = region s \<and>
       rd s' a = Some v \<and> (\<forall>b \<in> region s. b \<noteq> a \<longrightarrow> rd s' b = rd s b)"
begin

lemma wr_same: "ok s \<Longrightarrow> a \<in> region s \<Longrightarrow> wr a v s = Some s' \<Longrightarrow> rd s' a = Some v"
  using wr_some [of s a v] by auto

lemma wr_other: "ok s \<Longrightarrow> a \<in> region s \<Longrightarrow> b \<in> region s \<Longrightarrow> b \<noteq> a \<Longrightarrow> wr a v s = Some s' \<Longrightarrow> rd s' b = rd s b"
  using wr_some [of s a v] by auto

lemma wr_ok: "ok s \<Longrightarrow> a \<in> region s \<Longrightarrow> wr a v s = Some s' \<Longrightarrow> ok s' \<and> region s' = region s"
  using wr_some [of s a v] by auto

text \<open>Two writes, as for a block header.\<close>

lemma wr_pair:
  assumes "ok s" "a \<in> region s" "b \<in> region s" "a \<noteq> b"
  obtains s1 s2 where "wr a v s = Some s1" "wr b w s1 = Some s2" "ok s2" "region s2 = region s"
    "rd s2 a = Some v" "rd s2 b = Some w" "\<And>c. c \<in> region s \<Longrightarrow> c \<notin> {a, b} \<Longrightarrow> rd s2 c = rd s c"
proof -
  from wr_some [OF assms(1,2), of v] obtain s1 where
    s1: "wr a v s = Some s1" "ok s1" "region s1 = region s" "rd s1 a = Some v"
      "\<forall>c \<in> region s. c \<noteq> a \<longrightarrow> rd s1 c = rd s c" by auto
  from wr_some [OF s1(2), of b w] s1(3) assms(3) obtain s2 where
    s2: "wr b w s1 = Some s2" "ok s2" "region s2 = region s1" "rd s2 b = Some w"
      "\<forall>c \<in> region s1. c \<noteq> b \<longrightarrow> rd s2 c = rd s1 c" by auto
  show thesis
    by (rule that [OF s1(1) s2(1)]) (use s1 s2 assms in auto)
qed

end

section \<open>The mapped heap is such a memory\<close>

definition heap_words :: "u32 \<Rightarrow> 'a heap_state_scheme \<Rightarrow> u32 set" where
  "heap_words base s = {a. unat base \<le> unat a \<and> unat a < unat (heap_end s) \<and> 4 dvd unat a}"

text \<open>Every word of the heap is mapped, no two to the same place and none to a page table.\<close>

definition heap_mapped :: "u32 \<Rightarrow> 'a heap_state_scheme \<Rightarrow> bool" where
  "heap_mapped base s \<longleftrightarrow> paging_wf s \<and>
     (\<forall>a \<in> heap_words base s. \<exists>pa. translate s a = Some pa \<and> frame_of pa \<notin> table_frames s) \<and>
     inj_on (translate s) (heap_words base s)"

lemma word_offset_page:
  assumes "4 dvd unat a"
  shows "page_offset a \<le> 0xFFC" "4 dvd unat (page_offset a)"
proof -
  have "4 dvd unat a mod 4096" using assms by (simp add: dvd_mod)
  then show "4 dvd unat (page_offset a)" by (simp add: unat_page_offset)
  moreover have "unat (page_offset a) < 4096" by (simp add: unat_page_offset)
  ultimately have "unat (page_offset a) \<le> 4092" by presburger
  then show "page_offset a \<le> 0xFFC" by (simp add: word_le_nat_alt)
qed

lemma translate_word:
  assumes "paging_wf s" and "translate s a = Some pa" and "4 dvd unat a"
  shows "4 dvd unat pa" "vload32 s a = Some (load32 (phys s) pa)"
    "vstore32 a v s = Some (s\<lparr>phys := store32 (phys s) pa v\<rparr>)"
    "same_outside (frame_of pa) (phys s) (store32 (phys s) pa v)"
proof -
  note off = word_offset_page [OF assms(3)]
  from assms(1,2) obtain pte where pa: "pa = frame_of pte + page_offset a"
    using paging_wfD(1) [OF assms(1)] by (auto simp: translate_def split: option.splits if_splits)
  have lt: "unat (page_offset a) < 4096" by (simp add: unat_page_offset)
  have u: "unat pa = unat (frame_of pte) + unat (page_offset a)"
    using unat_offset [OF page_aligned_frame_of lt, of pte] by (simp add: pa)
  have "4 dvd (4096 :: nat)" by simp
  then have "4 dvd unat (frame_of pte)"
    using page_aligned_frame_of [of pte] unfolding page_aligned_def by (rule dvd_trans)
  then show "4 dvd unat pa" unfolding u using off(2) by (rule dvd_add)
  show "vload32 s a = Some (load32 (phys s) pa)" "vstore32 a v s = Some (s\<lparr>phys := store32 (phys s) pa v\<rparr>)"
    using off(1) assms(2) by (simp_all add: vload32_def vstore32_def)
  obtain q where q: "unat (page_offset a) = 4 * q" using off(2) by (elim dvdE)
  then have "q < 1024" using lt by simp
  then have lq: "of_nat q < (1024 :: u32)" by (simp add: less_1024 unat_of_nat_u32)
  have qo: "4 * of_nat q = page_offset a"
  proof -
    have "4 * of_nat q = (of_nat (unat (page_offset a)) :: u32)" unfolding q by simp
    then show ?thesis by simp
  qed
  have "frame_of pa = frame_of pte"
    using word_index_offset(2) [OF page_aligned_frame_of lq, of pte] by (simp add: pa qo)
  then show "same_outside (frame_of pa) (phys s) (store32 (phys s) pa v)"
    using store32_outside [OF page_aligned_frame_of lq, of pte "phys s" v] by (simp add: pa qo)
qed

lemma table_frames_outside:
  assumes "paging_wf s" and "f \<notin> table_frames s" and "same_outside f (phys s) m"
  shows "table_frames (s\<lparr>phys := m\<rparr>) = table_frames s"
  unfolding table_frames_def by (rule Collect_cong) (metis outside_tables(1) [OF assms])

lemma heap_words_phys [simp]: "heap_words base (s\<lparr>phys := m\<rparr>) = heap_words base s"
  by (simp add: heap_words_def)

lemma heap_mapped_store:
  assumes "heap_mapped base s" and "a \<in> heap_words base s"
  obtains pa where "translate s a = Some pa" "vstore32 a v s = Some (s\<lparr>phys := store32 (phys s) pa v\<rparr>)"
    "heap_mapped base (s\<lparr>phys := store32 (phys s) pa v\<rparr>)"
    "\<And>va. translate (s\<lparr>phys := store32 (phys s) pa v\<rparr>) va = translate s va" "4 dvd unat pa"
proof -
  from assms obtain pa where pa: "translate s a = Some pa" "frame_of pa \<notin> table_frames s"
    and wf: "paging_wf s" and al: "4 dvd unat a" by (auto simp: heap_mapped_def heap_words_def)
  note w = translate_word [OF wf pa(1) al]
  note out = outside_tables [OF wf pa(2) w(4)]
  note tab = table_frames_outside [OF wf pa(2) w(4)]
  have tr: "translate (s\<lparr>phys := store32 (phys s) pa v\<rparr>) = translate s" for v
    using outside_tables(3) [OF wf pa(2) w(4)] by (rule ext)
  have "heap_mapped base (s\<lparr>phys := store32 (phys s) pa v\<rparr>)"
    using assms(1) out(4) by (simp add: heap_mapped_def tr tab)
  then show thesis using that pa(1) w(1,3) tr by simp
qed

interpretation hm: word_memory vload32 vstore32 "heap_mapped base" "heap_words base"
proof (unfold_locales, goal_cases)
  case (1 s a)
  then show ?case using translate_word(2) by (fastforce simp: heap_mapped_def heap_words_def)
next
  case (2 s a v)
  then obtain pa where pa: "translate s a = Some pa" "vstore32 a v s = Some (s\<lparr>phys := store32 (phys s) pa v\<rparr>)"
    "heap_mapped base (s\<lparr>phys := store32 (phys s) pa v\<rparr>)"
    "\<And>va. translate (s\<lparr>phys := store32 (phys s) pa v\<rparr>) va = translate s va" "4 dvd unat pa"
    by (rule heap_mapped_store) blast
  let ?s = "s\<lparr>phys := store32 (phys s) pa v\<rparr>"
  have wf: "paging_wf s" "paging_wf ?s" using 2 pa(3) by (simp_all add: heap_mapped_def)
  have al: "4 dvd unat b" if "b \<in> heap_words base s" for b using that by (simp add: heap_words_def)
  have tr: "translate ?s va = translate s va" for va by (rule pa(4))
  have same: "vload32 ?s a = Some v"
    using translate_word(2) [OF wf(2) _ al [OF 2(2)]] tr pa(1) load32_store32_same by simp
  have other: "vload32 ?s b = vload32 s b" if b: "b \<in> heap_words base s" "b \<noteq> a" for b
  proof -
    from 2(1) b(1) obtain pb where pb: "translate s b = Some pb" by (auto simp: heap_mapped_def)
    have "pb \<noteq> pa" using 2 b pa(1) pb unfolding heap_mapped_def by (metis inj_onD)
    moreover have "4 dvd unat pb" using translate_word(1) [OF wf(1) pb al [OF b(1)]] .
    ultimately have "load32 (store32 (phys s) pa v) pb = load32 (phys s) pb"
      using load32_store32_other pa(5) by metis
    then show ?thesis
      using translate_word(2) [OF wf(2) _ al [OF b(1)], of pb] translate_word(2) [OF wf(1) pb al [OF b(1)]] tr pb by simp
  qed
  show ?case
    using pa(2,3) same other by (intro exI [of _ ?s]) simp
qed

section \<open>Layout, free list and invariant\<close>

definition align4 :: "nat \<Rightarrow> nat" where
  "align4 n = (n + 3) div 4 * 4"

lemma align4: "n \<le> align4 n" "align4 n < n + 4" "4 dvd align4 n"
  by (simp_all add: align4_def)

lemma align4_dvd: "4 dvd n \<Longrightarrow> align4 n = n"
  by (auto simp: align4_def elim!: dvdE)

lemma align4_le: "n \<le> m \<Longrightarrow> 4 dvd m \<Longrightarrow> align4 n \<le> m"
  by (auto simp: align4_def elim!: dvdE)

text \<open>Blocks (address and size) from \<^verbatim>\<open>p\<close> up to \<^verbatim>\<open>lim\<close>, each at the next multiple of four.\<close>

fun layout :: "nat \<Rightarrow> (u32 \<times> u32) list \<Rightarrow> nat \<Rightarrow> bool" where
  "layout p [] lim \<longleftrightarrow> lim = p"
| "layout p ((a, c) # bs) lim \<longleftrightarrow> unat a = align4 p \<and> layout (unat a + 8 + unat c) bs lim"

lemma layout_append:
  "layout p (bs @ [(a, c)]) lim \<longleftrightarrow> (\<exists>t. layout p bs t \<and> unat a = align4 t \<and> lim = unat a + 8 + unat c)"
  by (induction p bs lim rule: layout.induct) auto

lemma layout_le: "layout p bs lim \<Longrightarrow> p \<le> lim"
  by (induction p bs lim rule: layout.induct) (auto dest: order_trans [OF align4(1)] intro: order_trans [OF align4(1)])

lemma layout_block:
  assumes "layout p bs lim" and "(a, c) \<in> set bs"
  shows "p \<le> unat a" "unat a + 8 + unat c \<le> lim" "4 dvd unat a"
  using assms
  by (induction p bs lim rule: layout.induct)
    (auto dest: layout_le intro: align4 order_trans [OF align4(1)] order_trans [OF _ layout_le])

lemma layout_disjoint:
  assumes "layout p bs lim" and "(a, c) \<in> set bs" and "(b, d) \<in> set bs"
  shows "(a, c) = (b, d) \<or> unat a + 8 + unat c \<le> unat b \<or> unat b + 8 + unat d \<le> unat a"
  using assms
proof (induction p bs lim rule: layout.induct)
  case (2 p x n bs lim)
  have tail: "unat x + 8 + unat n \<le> unat y" if "(y, m) \<in> set bs" for y m
    using layout_block(1) [of "unat x + 8 + unat n" bs lim y m] 2(2) that by auto
  show ?case
    using 2 tail [of a c] tail [of b d] by auto
qed simp

text \<open>A linked list from \<^verbatim>\<open>p\<close> to \<^verbatim>\<open>q\<close> that visits the nodes \<^verbatim>\<open>xs\<close>.\<close>

fun path :: "(u32 \<Rightarrow> u32 option) \<Rightarrow> u32 \<Rightarrow> u32 list \<Rightarrow> u32 \<Rightarrow> bool" where
  "path nx p [] q \<longleftrightarrow> p = q"
| "path nx p (x # xs) q \<longleftrightarrow> p = x \<and> x \<noteq> 0 \<and> (\<exists>r. nx x = Some r \<and> path nx r xs q)"

lemma path_append: "path nx p (xs @ ys) q \<longleftrightarrow> (\<exists>r. path nx p xs r \<and> path nx r ys q)"
  by (induction xs arbitrary: p) auto

lemma path_cong: "(\<And>x. x \<in> set xs \<Longrightarrow> nx' x = nx x) \<Longrightarrow> path nx' p xs q = path nx p xs q"
  by (induction xs arbitrary: p) auto

definition next_of :: "'a heap_state_scheme \<Rightarrow> u32 \<Rightarrow> u32 option" where
  "next_of s x = vload32 s (x + 4)"

text \<open>
  The invariant. \<^verbatim>\<open>base\<close> is where the heap starts, \<^verbatim>\<open>bs\<close> are the blocks and \<^verbatim>\<open>fl\<close> is the free list.
  The heap lies in the first four megabytes, whose page table always exists.
\<close>

definition heap_bounds :: "u32 \<Rightarrow> 'a heap_state_scheme \<Rightarrow> bool" where
  "heap_bounds base s \<longleftrightarrow> page_aligned base \<and> base \<noteq> 0 \<and> page_aligned (heap_end s) \<and>
     unat base \<le> unat (heap_end s) \<and> unat (heap_end s) \<le> 0x400000"

definition heap_frames :: "u32 \<Rightarrow> 'a heap_state_scheme \<Rightarrow> bool" where
  "heap_frames base s \<longleftrightarrow> pmm_inv s \<and> present (read_pde s 0) \<and>
     (\<forall>n \<in> free_frames s. frame_addr n \<notin> table_frames s) \<and>
     (\<forall>a \<in> heap_words base s. \<forall>pa. translate s a = Some pa \<longrightarrow> unat pa div 4096 \<notin> free_frames s)"

definition heap_blocks :: "u32 \<Rightarrow> 'a heap_state_scheme \<Rightarrow> (u32 \<times> u32) list \<Rightarrow> bool" where
  "heap_blocks base s bs \<longleftrightarrow>
     (\<exists>t. layout (unat base) bs t \<and> (unat (heap_top s) = t \<or> unat (heap_top s) = align4 t)) \<and>
     unat (heap_top s) \<le> unat (heap_end s) \<and> (\<forall>(a, c) \<in> set bs. vload32 s a = Some c)"

definition heap_inv :: "u32 \<Rightarrow> 'a heap_state_scheme \<Rightarrow> (u32 \<times> u32) list \<Rightarrow> u32 list \<Rightarrow> bool" where
  "heap_inv base s bs fl \<longleftrightarrow>
     heap_mapped base s \<and> heap_bounds base s \<and> heap_frames base s \<and> heap_blocks base s bs \<and>
     path (next_of s) (free_list_head s) fl 0 \<and> distinct fl \<and> set fl \<subseteq> fst ` set bs"

definition allocated :: "(u32 \<times> u32) list \<Rightarrow> u32 list \<Rightarrow> (u32 \<times> u32) set" where
  "allocated bs fl = {(a, c) \<in> set bs. a \<notin> set fl}"

lemma heap_invD:
  assumes "heap_inv base s bs fl"
  shows "heap_mapped base s" "heap_bounds base s" "heap_frames base s" "heap_blocks base s bs"
    "path (next_of s) (free_list_head s) fl 0" "distinct fl" "set fl \<subseteq> fst ` set bs"
  using assms by (simp_all add: heap_inv_def)

text \<open>The header words of a block belong to the heap.\<close>

lemma block_words:
  assumes "heap_bounds base s" and "heap_blocks base s bs" and "(a, c) \<in> set bs"
  shows "a \<in> heap_words base s" "a + 4 \<in> heap_words base s" "unat (a + 4) = unat a + 4" "a \<noteq> 0"
    "unat a + 8 + unat c \<le> unat (heap_end s)" "unat (a + 8) = unat a + 8" "4 dvd unat a"
    "unat base \<le> unat a"
proof -
  from assms(2) obtain t where t: "layout (unat base) bs t" "t \<le> unat (heap_end s)"
    unfolding heap_blocks_def using align4(1) le_trans by metis
  note b = layout_block [OF t(1) assms(3)]
  have le: "unat a + 8 + unat c \<le> unat (heap_end s)" using b(2) t(2) by simp
  have lim: "unat (heap_end s) \<le> 0x400000" "base \<noteq> 0" using assms(1) by (simp_all add: heap_bounds_def)
  have u: "unat (a + 4) = unat a + 4" "unat (a + 8) = unat a + 8"
    using le lim by (simp_all add: unat_plus_u32_small)
  then show "unat (a + 4) = unat a + 4" "unat (a + 8) = unat a + 8" by simp_all
  show "a \<in> heap_words base s" "a + 4 \<in> heap_words base s"
    using b le u by (simp_all add: heap_words_def)
  show "4 dvd unat a" "unat base \<le> unat a" by (fact b)+
  have "0 < unat base" using lim(2) by (simp add: unat_gt_0)
  with b(1) show "a \<noteq> 0" by auto
  show "unat a + 8 + unat c \<le> unat (heap_end s)" by (fact le)
qed

lemma block_words_distinct:
  assumes "heap_bounds base s" and "heap_blocks base s bs" and "(a, c) \<in> set bs" and "(b, d) \<in> set bs"
  shows "a \<noteq> b + 4" and "a + 4 = b + 4 \<Longrightarrow> a = b" and "a = b \<Longrightarrow> c = d"
proof -
  from assms(2) obtain t where t: "layout (unat base) bs t" by (auto simp: heap_blocks_def)
  note d = layout_disjoint [OF t assms(3,4)]
  note u = block_words [OF assms(1,2,3)] block_words [OF assms(1,2,4)]
  show "a \<noteq> b + 4" using d u(3,11) by (auto simp: word_unat_eq_iff)
  show "a + 4 = b + 4 \<Longrightarrow> a = b" by simp
  show "a = b \<Longrightarrow> c = d" using d by auto
qed

section \<open>Writing a header word\<close>

lemma heap_write:
  assumes "heap_mapped base s" and "heap_bounds base s" and "heap_frames base s" and "a \<in> heap_words base s"
  obtains m where "vstore32 a v s = Some (s\<lparr>phys := m\<rparr>)" "heap_mapped base (s\<lparr>phys := m\<rparr>)"
    "heap_bounds base (s\<lparr>phys := m\<rparr>)" "heap_frames base (s\<lparr>phys := m\<rparr>)" "vload32 (s\<lparr>phys := m\<rparr>) a = Some v"
    "\<forall>b \<in> heap_words base s. b \<noteq> a \<longrightarrow> vload32 (s\<lparr>phys := m\<rparr>) b = vload32 s b"
proof -
  from assms(1,4) obtain pa where pa: "translate s a = Some pa" "frame_of pa \<notin> table_frames s"
    and wf: "paging_wf s" and al: "4 dvd unat a" by (auto simp: heap_mapped_def heap_words_def)
  let ?m = "store32 (phys s) pa v" and ?s = "s\<lparr>phys := store32 (phys s) pa v\<rparr>"
  note w = translate_word [OF wf pa(1) al]
  note out = outside_tables [OF wf pa(2) w(4)] and tab = table_frames_outside [OF wf pa(2) w(4)]
  have st: "vstore32 a v s = Some ?s" by (rule w(3))
  note law = hm.wr_same [OF assms(1,4) st] hm.wr_other [OF assms(1,4) _ _ st] hm.wr_ok [OF assms(1,4) st]
  have "heap_frames base ?s"
    using assms(3) out(1) [of 0] out(3) tab by (simp add: heap_frames_def)
  moreover have "heap_bounds base ?s" using assms(2) by (simp add: heap_bounds_def)
  ultimately show thesis using that [OF st] law by blast
qed

lemma heap_words_top [simp]:
  "heap_words base (s\<lparr>heap_top := x\<rparr>) = heap_words base s"
  "heap_words base (s\<lparr>free_list_head := y\<rparr>) = heap_words base s"
  by (simp_all add: heap_words_def)

lemma vload32_fields [simp]:
  "vload32 (s\<lparr>heap_top := x\<rparr>) a = vload32 s a" "vload32 (s\<lparr>free_list_head := y\<rparr>) a = vload32 s a"
  "vload32 (s\<lparr>heap_end := z\<rparr>) a = vload32 s a"
proof -
  have cong: "vload32 t a = vload32 s a" if "phys t = phys s" "cr3 t = cr3 s" "cr0_pg t = cr0_pg s" for t
    using paging_cong(2) [OF that] that(1) by (simp add: vload32_def vload8_def)
  show "vload32 (s\<lparr>heap_top := x\<rparr>) a = vload32 s a" "vload32 (s\<lparr>free_list_head := y\<rparr>) a = vload32 s a"
    "vload32 (s\<lparr>heap_end := z\<rparr>) a = vload32 s a" by (rule cong; simp)+
qed

lemma heap_parts_fields [simp]:
  "heap_mapped base (s\<lparr>heap_top := x\<rparr>) = heap_mapped base s"
  "heap_mapped base (s\<lparr>free_list_head := y\<rparr>) = heap_mapped base s"
  "heap_bounds base (s\<lparr>heap_top := x\<rparr>) = heap_bounds base s"
  "heap_bounds base (s\<lparr>free_list_head := y\<rparr>) = heap_bounds base s"
  "heap_frames base (s\<lparr>heap_top := x\<rparr>) = heap_frames base s"
  "heap_frames base (s\<lparr>free_list_head := y\<rparr>) = heap_frames base s"
proof -
  have c: "phys (s\<lparr>heap_top := x\<rparr>) = phys s" "cr3 (s\<lparr>heap_top := x\<rparr>) = cr3 s" "cr0_pg (s\<lparr>heap_top := x\<rparr>) = cr0_pg s"
    "phys (s\<lparr>free_list_head := y\<rparr>) = phys s" "cr3 (s\<lparr>free_list_head := y\<rparr>) = cr3 s"
    "cr0_pg (s\<lparr>free_list_head := y\<rparr>) = cr0_pg s" by simp_all
  have t: "translate (s\<lparr>heap_top := x\<rparr>) = translate s" "translate (s\<lparr>free_list_head := y\<rparr>) = translate s"
    using paging_cong(2) [OF c(1-3)] paging_cong(2) [OF c(4-6)] by auto
  note p = paging_cong(3,4) [OF c(1-3)] paging_cong(3,4) [OF c(4-6)] read_pde_cong [OF c(1,2)] read_pde_cong [OF c(4,5)]
  show "heap_mapped base (s\<lparr>heap_top := x\<rparr>) = heap_mapped base s"
    "heap_mapped base (s\<lparr>free_list_head := y\<rparr>) = heap_mapped base s"
    by (simp_all add: heap_mapped_def t p)
  show "heap_bounds base (s\<lparr>heap_top := x\<rparr>) = heap_bounds base s"
    "heap_bounds base (s\<lparr>free_list_head := y\<rparr>) = heap_bounds base s"
    by (simp_all add: heap_bounds_def)
  show "heap_frames base (s\<lparr>heap_top := x\<rparr>) = heap_frames base s"
    "heap_frames base (s\<lparr>free_list_head := y\<rparr>) = heap_frames base s"
    by (simp_all add: heap_frames_def t p pmm_inv_def free_frames_def managed_frames_def)
qed

text \<open>Changing the \<^verbatim>\<open>next\<close> field of a block keeps every block's size.\<close>

lemma heap_write_next:
  assumes "heap_inv base s bs fl" and "(b, d) \<in> set bs"
  obtains m where "vstore32 (b + 4) v s = Some (s\<lparr>phys := m\<rparr>)" "heap_mapped base (s\<lparr>phys := m\<rparr>)"
    "heap_bounds base (s\<lparr>phys := m\<rparr>)" "heap_frames base (s\<lparr>phys := m\<rparr>)" "heap_blocks base (s\<lparr>phys := m\<rparr>) bs"
    "next_of (s\<lparr>phys := m\<rparr>) b = Some v"
    "\<forall>x \<in> fst ` set bs. x \<noteq> b \<longrightarrow> next_of (s\<lparr>phys := m\<rparr>) x = next_of s x"
    "\<forall>w \<in> heap_words base s. w \<noteq> b + 4 \<longrightarrow> vload32 (s\<lparr>phys := m\<rparr>) w = vload32 s w"
proof -
  note i = heap_invD [OF assms(1)]
  note bw = block_words [OF i(2,4)]
  from heap_write [OF i(1-3) bw(2) [OF assms(2)], of v] obtain m where
    m: "vstore32 (b + 4) v s = Some (s\<lparr>phys := m\<rparr>)" "heap_mapped base (s\<lparr>phys := m\<rparr>)"
      "heap_bounds base (s\<lparr>phys := m\<rparr>)" "heap_frames base (s\<lparr>phys := m\<rparr>)" "vload32 (s\<lparr>phys := m\<rparr>) (b + 4) = Some v"
      "\<forall>w \<in> heap_words base s. w \<noteq> b + 4 \<longrightarrow> vload32 (s\<lparr>phys := m\<rparr>) w = vload32 s w" .
  have "vload32 (s\<lparr>phys := m\<rparr>) a = Some c" if "(a, c) \<in> set bs" for a c
    using m(6) bw(1) [OF that] block_words_distinct(1) [OF i(2,4) that assms(2)] i(4) that
    by (auto simp: heap_blocks_def)
  then have "heap_blocks base (s\<lparr>phys := m\<rparr>) bs" using i(4) by (auto simp: heap_blocks_def)
  moreover have "\<forall>x \<in> fst ` set bs. x \<noteq> b \<longrightarrow> next_of (s\<lparr>phys := m\<rparr>) x = next_of s x"
    using m(6) bw(2) by (auto simp: next_of_def)
  ultimately show thesis using that m by (simp add: next_of_def)
qed

section \<open>Freeing\<close>

lemma free_inv:
  assumes "heap_inv base s bs fl" and "(a, c) \<in> allocated bs fl"
  obtains s' where "free (a + 8) s = Some s'" "heap_inv base s' bs (a # fl)"
    "\<forall>w \<in> heap_words base s. w \<noteq> a + 4 \<longrightarrow> vload32 s' w = vload32 s w" "free_list_head s' = a" "heap_end s' = heap_end s"
proof -
  note i = heap_invD [OF assms(1)]
  from assms(2) have a: "(a, c) \<in> set bs" "a \<notin> set fl" by (auto simp: allocated_def)
  note bw = block_words [OF i(2,4) a(1)]
  from heap_write_next [OF assms(1) a(1), of "free_list_head s"] obtain m where
    m: "vstore32 (a + 4) (free_list_head s) s = Some (s\<lparr>phys := m\<rparr>)" "heap_mapped base (s\<lparr>phys := m\<rparr>)"
      "heap_bounds base (s\<lparr>phys := m\<rparr>)" "heap_frames base (s\<lparr>phys := m\<rparr>)" "heap_blocks base (s\<lparr>phys := m\<rparr>) bs"
      "next_of (s\<lparr>phys := m\<rparr>) a = Some (free_list_head s)"
      "\<forall>x \<in> fst ` set bs. x \<noteq> a \<longrightarrow> next_of (s\<lparr>phys := m\<rparr>) x = next_of s x"
      "\<forall>w \<in> heap_words base s. w \<noteq> a + 4 \<longrightarrow> vload32 (s\<lparr>phys := m\<rparr>) w = vload32 s w" .
  let ?s = "s\<lparr>phys := m, free_list_head := a\<rparr>"
  have nz: "a + 8 \<noteq> 0" using bw(6) by auto
  have run: "free (a + 8) s = Some ?s" using m(1) nz by (simp add: free_def)
  have nx: "next_of ?s = next_of (s\<lparr>phys := m\<rparr>)" by (simp add: next_of_def fun_eq_iff)
  have "path (next_of ?s) (free_list_head s) fl 0"
  proof -
    have "next_of ?s x = next_of s x" if "x \<in> set fl" for x
    proof -
      from that a(2) have ne: "x \<noteq> a" by auto
      from that i(7) have mem: "x \<in> fst ` set bs" by (rule rev_subsetD)
      show ?thesis unfolding nx by (rule m(7) [rule_format, OF mem ne])
    qed
    with i(5) show ?thesis using path_cong [of fl "next_of ?s" "next_of s"] by simp
  qed
  then have "path (next_of ?s) a (a # fl) 0" using m(6) bw(4) unfolding nx by simp
  moreover have "heap_blocks base ?s bs" using m(5) by (simp add: heap_blocks_def)
  ultimately have "heap_inv base ?s bs (a # fl)"
    using m(2-4) a i(6,7) by (auto simp: heap_inv_def image_iff intro!: bexI [of _ "(a, c)"])
  then show thesis using that [OF run] m(8) by simp
qed

section \<open>Searching the free list\<close>

text \<open>\<^verbatim>\<open>link\<close> after the nodes \<^verbatim>\<open>ys\<close> of the free list have been passed.\<close>

definition link_after :: "u32 list \<Rightarrow> link" where
  "link_after ys = (if ys = [] then Head else NextOf (last ys))"

lemma link_after_get:
  assumes "path (next_of s) (free_list_head s) (ys @ xs) 0"
  obtains p where "link_get (link_after ys) s = Some p" "path (next_of s) p xs 0"
proof -
  from assms obtain r where r: "path (next_of s) (free_list_head s) ys r" "path (next_of s) r xs 0"
    by (auto simp: path_append)
  have "link_get (link_after ys) s = Some r"
  proof (cases ys rule: rev_cases)
    case Nil
    with r(1) show ?thesis by (simp add: link_after_def)
  next
    case (snoc zs z)
    with r(1) show ?thesis by (auto simp: link_after_def path_append next_of_def)
  qed
  then show thesis using that r(2) by blast
qed

text \<open>Unlinking the node after \<^verbatim>\<open>ys\<close>.\<close>

lemma link_set_unlink:
  assumes "heap_inv base s bs (ys @ a # zs)" and "next_of s a = Some r"
  obtains s' where "link_set (link_after ys) r s = Some s'" "heap_inv base s' bs (ys @ zs)"
    "\<forall>w \<in> heap_words base s. w \<notin> (\<lambda>x. x + 4) ` set ys \<longrightarrow> vload32 s' w = vload32 s w"
    "heap_end s' = heap_end s" "free_frames s' = free_frames s"
proof -
  note i = heap_invD [OF assms(1)]
  from i(5) assms(2) have pr: "path (next_of s) (free_list_head s) ys a" "path (next_of s) r zs 0" "a \<noteq> 0"
    by (auto simp: path_append)
  show thesis
  proof (cases ys rule: rev_cases)
    case Nil
    let ?s = "s\<lparr>free_list_head := r\<rparr>"
    have "next_of ?s = next_of s" by (simp add: next_of_def fun_eq_iff)
    then have "heap_inv base ?s bs (ys @ zs)"
      using assms(1) pr(2) Nil by (simp add: heap_inv_def heap_blocks_def)
    with Nil that [of ?s] show thesis by (simp add: link_after_def free_frames_def managed_frames_def)
  next
    case (snoc us u)
    have "u \<in> fst ` set bs" using i(7) snoc by auto
    then obtain d where ud: "(u, d) \<in> set bs" by auto
    from heap_write_next [OF assms(1) ud, of r] obtain m where
      m: "vstore32 (u + 4) r s = Some (s\<lparr>phys := m\<rparr>)" "heap_mapped base (s\<lparr>phys := m\<rparr>)"
        "heap_bounds base (s\<lparr>phys := m\<rparr>)" "heap_frames base (s\<lparr>phys := m\<rparr>)" "heap_blocks base (s\<lparr>phys := m\<rparr>) bs"
        "next_of (s\<lparr>phys := m\<rparr>) u = Some r"
        "\<forall>x \<in> fst ` set bs. x \<noteq> u \<longrightarrow> next_of (s\<lparr>phys := m\<rparr>) x = next_of s x"
        "\<forall>w \<in> heap_words base s. w \<noteq> u + 4 \<longrightarrow> vload32 (s\<lparr>phys := m\<rparr>) w = vload32 s w" .
    let ?s = "s\<lparr>phys := m\<rparr>"
    have keep: "next_of ?s x = next_of s x" if "x \<in> set us \<union> set zs" for x
    proof -
      have ne: "x \<noteq> u" using that i(6) snoc by auto
      have mem: "x \<in> fst ` set bs" using that i(7) snoc by auto
      show ?thesis by (rule m(7) [rule_format, OF mem ne])
    qed
    have "path (next_of s) (free_list_head s) us u" using pr(1) snoc by (auto simp: path_append)
    then have p1: "path (next_of ?s) (free_list_head s) us u"
      using keep path_cong [of us "next_of ?s" "next_of s"] by simp
    have p2: "path (next_of ?s) r zs 0"
      using pr(2) keep path_cong [of zs "next_of ?s" "next_of s"] by simp
    have "u \<noteq> 0" using block_words(4) [OF i(2,4) ud] .
    with p1 p2 m(6) have "path (next_of ?s) (free_list_head ?s) (ys @ zs) 0"
      unfolding snoc by (auto simp: path_append)
    then have "heap_inv base ?s bs (ys @ zs)"
      using m(2-5) i(6,7) by (auto simp: heap_inv_def)
    with m(1,8) that [of ?s] snoc show thesis by (simp add: link_after_def)
  qed
qed

lemma malloc_find_run:
  assumes "heap_inv base s bs (ys @ xs)"
  shows "(\<forall>x \<in> set xs. \<exists>c. (x, c) \<in> set bs \<and> c < sz) \<and> malloc_find sz (link_after ys) s = Some (0, s) \<or>
     (\<exists>us a zs c s'. xs = us @ a # zs \<and> (\<forall>x \<in> set us. \<exists>c. (x, c) \<in> set bs \<and> c < sz) \<and>
        (a, c) \<in> set bs \<and> sz \<le> c \<and> malloc_find sz (link_after ys) s = Some (a + 8, s') \<and>
        heap_inv base s' bs (ys @ us @ zs) \<and>
        (\<forall>w \<in> heap_words base s. w \<notin> (\<lambda>x. x + 4) ` set (ys @ us) \<longrightarrow> vload32 s' w = vload32 s w) \<and>
        heap_end s' = heap_end s \<and> free_frames s' = free_frames s)"
  using assms
proof (induction xs arbitrary: ys)
  case Nil
  note i = heap_invD [OF Nil]
  from link_after_get [OF i(5)] obtain p where "link_get (link_after ys) s = Some p" "path (next_of s) p [] 0" .
  then show ?case by (subst malloc_find.simps) simp
next
  case (Cons x xs)
  note i = heap_invD [OF Cons.prems]
  from link_after_get [OF i(5)] obtain p where
    p: "link_get (link_after ys) s = Some p" "path (next_of s) p (x # xs) 0" .
  have "x \<in> fst ` set bs" using i(7) by auto
  then obtain c where c: "(x, c) \<in> set bs" by auto
  then have sz: "vload32 s x = Some c" using i(4) by (auto simp: heap_blocks_def)
  from p(2) obtain r where r: "p = x" "x \<noteq> 0" "next_of s x = Some r" by auto
  have unf: "malloc_find sz (link_after ys) s =
      (if sz \<le> c then link_set (link_after ys) r s \<bind> (\<lambda>s. Some (x + 8, s)) else malloc_find sz (NextOf x) s)"
    using p(1) r sz by (subst malloc_find.simps) (simp add: next_of_def)
  show ?case
  proof (cases "sz \<le> c")
    case True
    from link_set_unlink [OF Cons.prems r(3)] obtain s' where
      "link_set (link_after ys) r s = Some s'" "heap_inv base s' bs (ys @ xs)"
      "\<forall>w \<in> heap_words base s. w \<notin> (\<lambda>x. x + 4) ` set ys \<longrightarrow> vload32 s' w = vload32 s w"
      "heap_end s' = heap_end s" "free_frames s' = free_frames s" .
    then show ?thesis using True unf c
      by (intro disjI2 exI [of _ "[]"] exI [of _ x] exI [of _ xs] exI [of _ c] exI [of _ s']) simp
  next
    case False
    have la: "NextOf x = link_after (ys @ [x])" by (simp add: link_after_def)
    have "heap_inv base s bs ((ys @ [x]) @ xs)" using Cons.prems by simp
    from Cons.IH [OF this] show ?thesis
    proof (elim disjE exE conjE, goal_cases)
      case 1
      then show ?case using False unf la c by auto
    next
      case (2 us a zs d s')
      then show ?case using False unf la c
        by (intro disjI2 exI [of _ "x # us"] exI [of _ a] exI [of _ zs] exI [of _ d] exI [of _ s']) auto
    qed
  qed
qed

section \<open>Extending the heap\<close>

lemma heap_page_word:
  assumes "page_aligned he" and "unat he + 4096 \<le> 0x400000"
  shows "pd_index he = 0" "unat w < unat he \<Longrightarrow> \<not> (pd_index w = pd_index he \<and> pt_index w = pt_index he)"
    "unat he \<le> unat w \<Longrightarrow> unat w < unat he + 4096 \<Longrightarrow>
       pd_index w = 0 \<and> pt_index w = pt_index he \<and> he + page_offset w = w"
proof -
  show pd: "pd_index he = 0" using assms(2) by (simp add: word_unat_eq_iff unat_pd_index)
  show "\<not> (pd_index w = pd_index he \<and> pt_index w = pt_index he)" if "unat w < unat he"
  proof
    assume "pd_index w = pd_index he \<and> pt_index w = pt_index he"
    then have "frame_of w = frame_of he" using frame_of_indices by blast
    then have "unat (frame_of w) = unat he" using assms(1) by (simp add: frame_of_aligned)
    then have "unat he \<le> unat w" unfolding unat_frame_of by (metis div_times_less_eq_dividend)
    with that show False by simp
  qed
  assume w: "unat he \<le> unat w" "unat w < unat he + 4096"
  then obtain k where k: "unat w = unat he + k" "k < 4096" by (metis add_less_cancel_left le_Suc_ex)
  have wk: "w = he + of_nat k" using unat_offset [OF assms(1) k(2)] k(1) by (simp add: word_unat_eq_iff)
  have fr: "frame_of w = he" using frame_of_offset [OF assms(1) k(2)] wk by simp
  have "unat w div 4096 = unat he div 4096"
    using fr unat_frame_of [of w] assms(1) unfolding page_aligned_def by (metis dvd_div_mult_self mult_cancel2 zero_neq_numeral)
  then have "pt_index w = pt_index he" by (simp add: word_unat_eq_iff unat_pt_index)
  moreover have "pd_index w = 0" using w assms(2) by (simp add: word_unat_eq_iff unat_pd_index)
  moreover have "page_offset w = of_nat k"
    using k assms(1) by (auto simp: word_unat_eq_iff unat_page_offset unat_of_nat_u32 page_aligned_def elim!: dvdE)
  ultimately show "pd_index w = 0 \<and> pt_index w = pt_index he \<and> he + page_offset w = w" using wk by simp
qed

lemma unat_frame_div: "page_aligned f \<Longrightarrow> n < 4096 \<Longrightarrow> unat (f + of_nat n) div 4096 = unat f div 4096"
  by (simp add: unat_offset) (auto simp: page_aligned_def elim!: dvdE)

lemma page_offset_nat: "\<exists>n < 4096. page_offset w = of_nat n"
  by (intro exI [of _ "unat w mod 4096"]) (simp add: word_unat_eq_iff unat_page_offset unat_of_nat_u32)

lemma expand_step:
  assumes "heap_mapped base s" and "heap_bounds base s" and "heap_frames base s"
    and "unat (heap_end s) + 4096 \<le> 0x400000" and "free_frames s \<noteq> {}"
  obtains f s1 s2 where "pmm_alloc_frame s = Some (f, s1)" "f \<noteq> 0" "heap_end s1 = heap_end s"
    "paging_map_page (kernel_directory s1) (heap_end s1) f 3 s1 = Some s2"
    "heap_end s2 = heap_end s" "heap_top s2 = heap_top s" "free_list_head s2 = free_list_head s"
    "heap_mapped base (s2\<lparr>heap_end := heap_end s + 4096\<rparr>)" "heap_bounds base (s2\<lparr>heap_end := heap_end s + 4096\<rparr>)"
    "heap_frames base (s2\<lparr>heap_end := heap_end s + 4096\<rparr>)"
    "\<forall>w \<in> heap_words base s. vload32 s2 w = vload32 s w"
    "free_frames s2 = free_frames s - {Min (free_frames s)}"
    "\<forall>d e. paging_map_page d (heap_end s) f 3 (s1\<lparr>heap_end := e\<rparr>) = Some (s2\<lparr>heap_end := e\<rparr>)"
proof -
  let ?he = "heap_end s" and ?n = "Min (free_frames s)"
  define f where "f = frame_addr ?n"
  define T where "T = frame_of (read_pde s 0)"
  from assms(3) have inv: "pmm_inv s" and pde0: "present (read_pde s 0)"
    and free_tab: "\<forall>n \<in> free_frames s. frame_addr n \<notin> table_frames s"
    and used: "\<forall>a \<in> heap_words base s. \<forall>pa. translate s a = Some pa \<longrightarrow> unat pa div 4096 \<notin> free_frames s"
    by (simp_all add: heap_frames_def)
  have wf: "paging_wf s" using assms(1) by (simp add: heap_mapped_def)
  have b: "page_aligned ?he" "base \<noteq> 0" "unat base \<le> unat ?he" "page_aligned base"
    using assms(2) by (simp_all add: heap_bounds_def)
  have mem: "?n \<in> free_frames s" using assms(5) by (intro Min_in) auto
  have "0 \<notin> free_frames s" using inv by (simp add: pmm_inv_def)
  with mem have n: "?n < 1048576" "?n \<noteq> 0"
    using managed_bound [OF inv] free_frames_managed [of s] by (blast, metis)
  have f: "page_aligned f" "f \<noteq> 0" "f \<notin> table_frames s" "unat f div 4096 = ?n"
    unfolding f_def using frame_addr_aligned [OF n(1)] frame_addr_eq_0 [OF n(1)] n(2) free_tab mem unat_frame_addr [OF n(1)]
    by auto
  from pmm_alloc_frame_least [OF inv assms(5)] obtain bm where
    bm: "pmm_alloc_frame s = Some (f, s\<lparr>pmm_bitmap := bm\<rparr>)" "length bm = length (pmm_bitmap s)"
      "free_frames (s\<lparr>pmm_bitmap := bm\<rparr>) = free_frames s - {?n}"
    unfolding f_def .
  let ?a = "s\<lparr>pmm_bitmap := bm\<rparr>"
  let ?b = "?a\<lparr>phys := store32 (phys s) (T + 4 * pt_index ?he) (f OR 3)\<rparr>"
  let ?c = "?b\<lparr>heap_end := ?he + 4096\<rparr>"
  have cong: "phys ?a = phys s" "cr3 ?a = cr3 s" "cr0_pg ?a = cr0_pg s" by simp_all
  note pa = paging_cong [OF cong] and pde_a = read_pde_cong [OF cong(1,2)]
  have pd: "pd_index ?he = 0" using heap_page_word(1) [OF b(1) assms(4)] .
  have z: "(0 :: u32) < 1024" "(0 :: u32) \<noteq> 1023" by simp_all
  have wfa: "paging_wf ?a" "present (read_pde ?a 0)" using wf pa(3) pde0 pde_a by simp_all
  have map: "paging_map_page d ?he f 3 ?a = Some ?b" for d
    using map_page_present [OF wfa(1), of ?he d f 3] wfa(2) by (simp add: pd pde_a T_def)
  have map_e: "paging_map_page d ?he f 3 (?a\<lparr>heap_end := e\<rparr>) = Some (?b\<lparr>heap_end := e\<rparr>)" for d e
  proof -
    have ce: "phys (?a\<lparr>heap_end := e\<rparr>) = phys ?a" "cr3 (?a\<lparr>heap_end := e\<rparr>) = cr3 ?a"
      "cr0_pg (?a\<lparr>heap_end := e\<rparr>) = cr0_pg ?a" by simp_all
    note pde_e = read_pde_cong [OF ce(1,2)]
    have "paging_wf (?a\<lparr>heap_end := e\<rparr>)" "present (read_pde (?a\<lparr>heap_end := e\<rparr>) 0)"
      using wfa paging_cong(3) [OF ce] pde_e by simp_all
    from map_page_present [OF this(1), of ?he d f 3] this(2) show ?thesis by (simp add: pd pde_e pde_a T_def)
  qed
  have bdef: "?b = ?a\<lparr>phys := store32 (phys ?a) (frame_of (read_pde ?a 0) + 4 * pt_index ?he) (f OR 3)\<rparr>"
    by (simp add: pde_a T_def)
  note st = store_table [OF wfa(1) z(1) pt_index_less z(2) wfa(2) bdef]
  have cc: "phys ?c = phys ?b" "cr3 ?c = cr3 ?b" "cr0_pg ?c = cr0_pg ?b" by simp_all
  note pc = paging_cong [OF cc]
  have tabb: "table_frames ?b = table_frames s"
    unfolding table_frames_def by (rule Collect_cong) (metis st(1) pde_a)
  have look: "lookup_pte ?b w = (if pd_index w = 0 \<and> pt_index w = pt_index ?he then Some (f OR 3) else lookup_pte s w)" for w
    using st(2) [of w] pa(1) [of w] by simp
  have old: "translate ?b w = translate s w" if "unat w < unat ?he" for w
    using look [of w] heap_page_word(2) [OF b(1) assms(4) that] pd by (auto simp: translate_def)
  have new: "translate ?b w = Some (f + page_offset w)" if "unat ?he \<le> unat w" "unat w < unat ?he + 4096" for w
    using look [of w] heap_page_word(3) [OF b(1) assms(4) that] entry_or_3 [OF f(1)] paging_wfD(1) [OF st(3)]
    by (simp add: translate_def)
  have he': "unat (?he + 4096) = unat ?he + 4096" using assms(4) by (simp add: unat_plus_u32_small)
  have words: "w \<in> heap_words base ?c \<longleftrightarrow> w \<in> heap_words base s \<or>
      unat ?he \<le> unat w \<and> unat w < unat ?he + 4096 \<and> 4 dvd unat w" for w
    using b(3) by (auto simp: heap_words_def he')
  have newdiv: "unat (f + page_offset w) div 4096 = ?n" "frame_of (f + page_offset w) = f" for w
    using page_offset_nat [of w] unat_frame_div [OF f(1)] frame_of_offset [OF f(1)] f(4) by auto
  have trc: "translate ?c w = translate ?b w" for w by (rule pc(2))
  have oldw: "translate ?c w = translate s w" if "w \<in> heap_words base s" for w
    using old [of w] that trc [of w] by (simp add: heap_words_def)
  have inj: "inj_on (translate ?c) (heap_words base ?c)"
  proof (rule inj_onI)
    fix v w assume v: "v \<in> heap_words base ?c" and w: "w \<in> heap_words base ?c" and eq: "translate ?c v = translate ?c w"
    have mixed: False if "x \<in> heap_words base s" "unat ?he \<le> unat y" "unat y < unat ?he + 4096"
      "translate ?c x = translate ?c y" for x y
      using used that(1) oldw [OF that(1)] new [OF that(2,3)] trc [of y] that(4) newdiv(1) [of y] mem by metis
    consider "v \<in> heap_words base s" "w \<in> heap_words base s"
      | "unat ?he \<le> unat v" "unat v < unat ?he + 4096" "unat ?he \<le> unat w" "unat w < unat ?he + 4096"
      using v w eq mixed [of v w] mixed [of w v] unfolding words by metis
    then show "v = w"
    proof cases
      case 1
      then show ?thesis using eq oldw assms(1) unfolding heap_mapped_def by (metis inj_onD)
    next
      case 2
      then have "page_offset v = page_offset w" using eq new trc by simp
      then show ?thesis
        using heap_page_word(3) [OF b(1) assms(4) 2(1,2)] heap_page_word(3) [OF b(1) assms(4) 2(3,4)] by metis
    qed
  qed
  have mapped: "heap_mapped base ?c"
    unfolding heap_mapped_def
  proof (intro conjI ballI inj)
    show "paging_wf ?c" using st(3) pc(3) by simp
    fix w assume "w \<in> heap_words base ?c"
    then consider "w \<in> heap_words base s" | "unat ?he \<le> unat w" "unat w < unat ?he + 4096" unfolding words by blast
    then show "\<exists>pa. translate ?c w = Some pa \<and> frame_of pa \<notin> table_frames ?c"
    proof cases
      case 1
      then show ?thesis using oldw assms(1) tabb pc(4) by (simp add: heap_mapped_def)
    next
      case 2
      then show ?thesis using new trc newdiv(2) f(3) tabb pc(4) by simp
    qed
  qed
  have ff: "free_frames ?c = free_frames s - {?n}" using bm(3) by (simp add: free_frames_def managed_frames_def)
  then have invc: "pmm_inv ?c" using inv bm(2) by (simp add: pmm_inv_def)
  have "unat pa div 4096 \<notin> free_frames ?c" if "w \<in> heap_words base ?c" "translate ?c w = Some pa" for w pa
  proof (cases "w \<in> heap_words base s")
    case True
    then show ?thesis using used oldw that(2) ff by simp
  next
    case False
    with that(1) have "unat ?he \<le> unat w" "unat w < unat ?he + 4096" unfolding words by auto
    then show ?thesis using new trc that(2) newdiv(1) ff by auto
  qed
  moreover have "present (read_pde ?c 0)" using st(1) [OF z(1)] pde0 pde_a read_pde_cong [OF cc(1,2)] by simp
  ultimately have frames: "heap_frames base ?c"
    using invc free_tab ff tabb pc(4) by (auto simp: heap_frames_def)
  have bounds: "heap_bounds base ?c"
    using b assms(4) he' by (auto simp: heap_bounds_def page_aligned_def)
  have data: "vload32 ?b w = vload32 s w" if "w \<in> heap_words base s" for w
  proof -
    from assms(1) that obtain q where q: "translate s w = Some q" "frame_of q \<notin> table_frames s" "4 dvd unat w"
      by (auto simp: heap_mapped_def heap_words_def)
    have tq: "translate ?b w = Some q" using old [of w] that q(1) by (simp add: heap_words_def)
    have "T \<in> table_frames s" using pde0 by (auto simp: table_frames_def T_def intro!: exI [of _ 0])
    with q(2) have "frame_of q \<noteq> T" by auto
    then have "q \<noteq> T + 4 * pt_index ?he" using word_index_offset(2) [OF page_aligned_frame_of pt_index_less] T_def by metis
    moreover have "4 dvd unat (T + 4 * pt_index ?he)" unfolding T_def by (rule word_index_dvd [OF page_aligned_frame_of pt_index_less])
    ultimately have "load32 (phys ?b) q = load32 (phys s) q"
      using load32_store32_other translate_word(1) [OF wf q(1,3)] by simp
    then show ?thesis using translate_word(2) [OF st(3) tq q(3)] translate_word(2) [OF wf q(1,3)] by simp
  qed
  show thesis
    by (rule that [of f ?a ?b]) (use bm(1) f(2) map map_e mapped bounds frames data ff in \<open>auto simp: free_frames_def managed_frames_def\<close>)
qed

text \<open>Where the heap would end if it got all the free memory; no operation of the heap changes it.\<close>

definition heap_room :: "'a heap_state_scheme \<Rightarrow> nat" where
  "heap_room s = unat (heap_end s) + 4096 * card (free_frames s)"

lemma malloc_expand_run:
  assumes "heap_mapped base s" and "heap_bounds base s" and "heap_frames base s"
    and "unat (heap_top s) + 8 + unat sz \<le> 0x400000"
  shows "\<exists>ok s'. malloc_expand sz s = Some (ok, s') \<and> heap_mapped base s' \<and> heap_bounds base s' \<and>
     heap_frames base s' \<and> heap_top s' = heap_top s \<and> free_list_head s' = free_list_head s \<and>
     (\<forall>w \<in> heap_words base s. vload32 s' w = vload32 s w) \<and> unat (heap_end s) \<le> unat (heap_end s') \<and>
     (if ok then unat (heap_top s) + 8 + unat sz \<le> unat (heap_end s')
      else free_frames s' = {} \<and> unat (heap_end s') < unat (heap_top s) + 8 + unat sz) \<and> heap_room s' = heap_room s"
  using assms
proof (induction "card (free_frames s)" arbitrary: s rule: less_induct)
  case less
  have need: "unat (heap_top s + 8 + sz) = unat (heap_top s) + 8 + unat sz"
    using less.prems(4) by (simp add: unat_plus_u32_small)
  show ?case
  proof (cases "heap_top s + 8 + sz > heap_end s")
    case False
    then have "malloc_expand sz s = Some (True, s)" by (subst malloc_expand.simps) simp
    moreover have "unat (heap_top s) + 8 + unat sz \<le> unat (heap_end s)"
      using False need by (simp add: word_less_nat_alt)
    ultimately show ?thesis using less.prems by (intro exI [of _ True] exI [of _ s]) simp
  next
    case more: True
    show ?thesis
    proof (cases "free_frames s = {}")
      case True
      have "pmm_inv s" using less.prems(3) by (simp add: heap_frames_def)
      from pmm_alloc_frame_full [OF this True] more have "malloc_expand sz s = Some (False, s)"
        by (subst malloc_expand.simps) simp
      moreover have "unat (heap_end s) < unat (heap_top s) + 8 + unat sz" using more need by (simp add: word_less_nat_alt)
      ultimately show ?thesis using less.prems True by (intro exI [of _ False] exI [of _ s]) simp
    next
      case False
      have "4096 dvd unat (heap_end s)" using less.prems(2) by (simp add: heap_bounds_def page_aligned_def)
      then obtain q where q: "unat (heap_end s) = 4096 * q" by (elim dvdE)
      have "4096 * q < 0x400000" using more need less.prems(4) unfolding q [symmetric] by (simp add: word_less_nat_alt)
      then have room: "unat (heap_end s) + 4096 \<le> 0x400000" unfolding q by simp
      from expand_step [OF less.prems(1-3) room False] obtain f s1 s2 where
        s2: "pmm_alloc_frame s = Some (f, s1)" "f \<noteq> 0" "heap_end s1 = heap_end s"
          "paging_map_page (kernel_directory s1) (heap_end s1) f 3 s1 = Some s2"
          "heap_end s2 = heap_end s" "heap_top s2 = heap_top s" "free_list_head s2 = free_list_head s"
          "heap_mapped base (s2\<lparr>heap_end := heap_end s + 4096\<rparr>)" "heap_bounds base (s2\<lparr>heap_end := heap_end s + 4096\<rparr>)"
          "heap_frames base (s2\<lparr>heap_end := heap_end s + 4096\<rparr>)"
          "\<forall>w \<in> heap_words base s. vload32 s2 w = vload32 s w"
          "free_frames s2 = free_frames s - {Min (free_frames s)}"
          "\<forall>d e. paging_map_page d (heap_end s) f 3 (s1\<lparr>heap_end := e\<rparr>) = Some (s2\<lparr>heap_end := e\<rparr>)" .
      let ?s = "s2\<lparr>heap_end := heap_end s + 4096\<rparr>"
      have ff: "free_frames ?s = free_frames s - {Min (free_frames s)}"
        using s2(12) by (simp add: free_frames_def managed_frames_def)
      have mn: "Min (free_frames s) \<in> free_frames s" using False by (intro Min_in) auto
      then have card: "card (free_frames ?s) < card (free_frames s)"
        unfolding ff by (intro card_Diff1_less) auto
      have fl: "PAGING_FLAG_PRESENT OR PAGING_FLAG_RW = 3" by (simp add: paging_flags)
      have run: "malloc_expand sz s = malloc_expand sz ?s"
        using more s2(1,2,4,5) by (subst malloc_expand.simps) (simp add: fl PMM_FRAME_SIZE_def)
      have he: "unat (heap_end s + 4096) = unat (heap_end s) + 4096" using room by (simp add: unat_plus_u32_small)
      have words: "w \<in> heap_words base ?s" if "w \<in> heap_words base s" for w using that he by (simp add: heap_words_def)
      have "unat (heap_top ?s) + 8 + unat sz \<le> 0x400000" using less.prems(4) s2(6) by simp
      from less.hyps [OF card s2(8-10) this] obtain ok s' where
        s': "malloc_expand sz ?s = Some (ok, s')" "heap_mapped base s'" "heap_bounds base s'" "heap_frames base s'"
          "heap_top s' = heap_top s" "free_list_head s' = free_list_head s"
          "\<forall>w \<in> heap_words base ?s. vload32 s' w = vload32 s2 w" "unat (heap_end s) + 4096 \<le> unat (heap_end s')"
          "if ok then unat (heap_top s) + 8 + unat sz \<le> unat (heap_end s')
           else free_frames s' = {} \<and> unat (heap_end s') < unat (heap_top s) + 8 + unat sz" "heap_room s' = heap_room ?s"
        by (auto simp: s2(6,7) he split: if_splits)
      have "\<forall>w \<in> heap_words base s. vload32 s' w = vload32 s w" using s'(7) s2(11) words by simp
      moreover have "heap_room ?s = heap_room s"
        unfolding heap_room_def ff card_Diff_singleton [OF mn] using he card_gt_0_iff [of "free_frames s"] False
        by (simp add: diff_mult_distrib2)
      ultimately show ?thesis using run s' by (intro exI [of _ ok] exI [of _ s']) simp
    qed
  qed
qed

text \<open>The invariant and the room depend on these members of the state only.\<close>

lemma heap_inv_cong:
  assumes "phys s1 = phys s" "cr3 s1 = cr3 s" "cr0_pg s1 = cr0_pg s" "pmm_bitmap s1 = pmm_bitmap s"
    "pmm_bitmap_size s1 = pmm_bitmap_size s" "heap_top s1 = heap_top s" "heap_end s1 = heap_end s"
    "free_list_head s1 = free_list_head s"
  shows "heap_inv base s1 bs fl = heap_inv base s bs fl" "heap_room s1 = heap_room s"
proof -
  note p = paging_cong(2-4) [OF assms(1-3)] read_pde_cong [OF assms(1,2)]
  have v: "vload32 s1 = vload32 s" by (rule ext) (simp add: vload32_def vload8_def p assms)
  have f: "free_frames s1 = free_frames s" "pmm_inv s1 = pmm_inv s"
    by (simp_all add: pmm_inv_def free_frames_def managed_frames_def assms)
  have t: "translate s1 = translate s" using p(1) by (rule ext)
  have "heap_words base s1 = heap_words base s" "next_of s1 = next_of s"
    by (simp_all add: heap_words_def next_of_def fun_eq_iff v assms)
  then show "heap_inv base s1 bs fl = heap_inv base s bs fl"
    by (simp add: heap_inv_def heap_mapped_def heap_bounds_def heap_frames_def heap_blocks_def p v t f assms)
  show "heap_room s1 = heap_room s" by (simp add: heap_room_def f assms)
qed

section \<open>Properties\<close>

lemma align_up: "unat (w :: u32) + 3 < 4294967296 \<Longrightarrow>
    unat (if w mod 4 \<noteq> 0 then (w + 3) AND NOT 3 else w) = align4 (unat w)"
proof -
  assume w: "unat w + 3 < 4294967296"
  have m: "(3 :: u32) = mask 2" by (simp add: mask_eq_exp_minus_1)
  have "(w + 3) AND NOT 3 = push_bit 2 (drop_bit 2 (w + 3))"
  proof (rule bit_word_eqI)
    fix n assume "n < LENGTH(32)"
    moreover have "Suc (Suc (n - 2)) = n" if "2 \<le> n" using that by simp
    ultimately show "bit ((w + 3) AND NOT 3) n = bit (push_bit 2 (drop_bit 2 (w + 3))) n"
      unfolding m by (cases "2 \<le> n") (simp_all add: bit_simps)
  qed
  moreover have "unat (w + 3) = unat w + 3" using w by (simp add: unat_plus_u32_small)
  ultimately have "unat ((w + 3) AND NOT 3) = (unat w + 3) div 4 * 4"
    using w by (simp add: push_bit_eq_mult drop_bit_eq_div unat_word_ariths unat_div_distrib)
  moreover have "w mod 4 = 0 \<Longrightarrow> 4 dvd unat w"
    by (simp add: word_unat_eq_iff unat_mod_distrib dvd_eq_mod_eq_0)
  ultimately show ?thesis using align4_dvd by (auto simp: align4_def)
qed

lemma heap_inv_layout:
  assumes "heap_inv base s bs fl"
  obtains t where "layout (unat base) bs t" "unat (heap_top s) = t \<or> unat (heap_top s) = align4 t"
    "t \<le> unat (heap_top s)" "unat (heap_top s) \<le> unat (heap_end s)"
  using heap_invD(4) [OF assms] align4(1) unfolding heap_blocks_def by (metis order_refl)

lemma block_data_apart:
  assumes "layout p bs lim" and "(b, d) \<in> set bs" and "(x, e) \<in> set bs" and "b \<noteq> x"
    and "unat (x + 4) = unat x + 4" and "unat b \<le> unat w" "unat w < unat b + 8 + unat d"
  shows "w \<noteq> x + 4"
  using layout_disjoint [OF assms(1-3)] assms(4-7) by auto

text \<open>The branch of \<^verbatim>\<open>malloc\<close> that reuses a block of the free list.\<close>

lemma malloc_reuse:
  assumes "heap_inv base s bs (us @ a # zs)" and "(a, c) \<in> set bs" and "sz \<le> c" and "sz \<noteq> 0"
    and "malloc_find sz Head s = Some (a + 8, s')" and "heap_inv base s' bs (us @ zs)"
    and "\<forall>w \<in> heap_words base s. w \<notin> (\<lambda>x. x + 4) ` set us \<longrightarrow> vload32 s' w = vload32 s w"
  shows "malloc sz s = Some (a + 8, s') \<and> a + 8 \<noteq> 0 \<and>
     allocated bs (us @ zs) = insert (a, c) (allocated bs (us @ a # zs)) \<and>
     (\<forall>(b, d) \<in> allocated bs (us @ a # zs).
        (unat b + 8 + unat d \<le> unat a \<or> unat a + 8 + unat c \<le> unat b) \<and>
        (\<forall>w \<in> heap_words base s. unat b \<le> unat w \<and> unat w < unat b + 8 + unat d \<longrightarrow> vload32 s' w = vload32 s w))"
proof -
  note i = heap_invD [OF assms(1)]
  from assms(1) obtain t where t: "layout (unat base) bs t" by (rule heap_inv_layout)
  note bw = block_words [OF i(2,4)]
  have nz: "a + 8 \<noteq> 0" using bw(6) [OF assms(2)] by auto
  have run: "malloc sz s = Some (a + 8, s')" using assms(4,5) nz by (simp add: malloc_def)
  have uniq: "c' = c" if "(a, c') \<in> set bs" for c'
    using block_words_distinct(3) [OF i(2,4) that assms(2)] by simp
  have "a \<notin> set us \<union> set zs" using i(6) by auto
  then have al: "allocated bs (us @ zs) = insert (a, c) (allocated bs (us @ a # zs))"
    using assms(2) by (auto simp: allocated_def dest: uniq)
  have "(unat b + 8 + unat d \<le> unat a \<or> unat a + 8 + unat c \<le> unat b) \<and>
      (\<forall>w \<in> heap_words base s. unat b \<le> unat w \<and> unat w < unat b + 8 + unat d \<longrightarrow> vload32 s' w = vload32 s w)"
    if bd: "(b, d) \<in> allocated bs (us @ a # zs)" for b d
  proof (intro conjI ballI impI)
    from bd have b: "(b, d) \<in> set bs" "b \<noteq> a" "b \<notin> set us" by (auto simp: allocated_def)
    show "unat b + 8 + unat d \<le> unat a \<or> unat a + 8 + unat c \<le> unat b"
      using layout_disjoint [OF t b(1) assms(2)] b(2) by auto
    fix w assume w: "w \<in> heap_words base s" "unat b \<le> unat w \<and> unat w < unat b + 8 + unat d"
    have "w \<noteq> x + 4" if "x \<in> set us" for x
    proof -
      from that i(7) obtain e where e: "(x, e) \<in> set bs" by auto
      show ?thesis
        using block_data_apart [OF t b(1) e _ bw(3) [OF e]] b(3) that w(2) by auto
    qed
    then show "vload32 s' w = vload32 s w" using assms(7) w(1) by auto
  qed
  with run nz al show ?thesis by auto
qed

text \<open>The branch that appends a block at the top, once the heap is large enough.\<close>

lemma new_block:
  assumes "heap_mapped base s" "heap_bounds base s" "heap_frames base s"
    and "layout (unat base) bs t" "unat (heap_top s) = align4 t" "\<forall>(a, c) \<in> set bs. vload32 s a = Some c"
    and "path (next_of s) (free_list_head s) fl 0" "distinct fl" "set fl \<subseteq> fst ` set bs"
    and "unat (heap_top s) + 8 + unat sz \<le> unat (heap_end s)" and "a = heap_top s"
  obtains s1 s' where "vstore32 a sz (s\<lparr>heap_top := a + (8 + sz)\<rparr>) = Some s1" "vstore32 (a + 4) 0 s1 = Some s'"
    "heap_inv base s' (bs @ [(a, sz)]) fl" "allocated (bs @ [(a, sz)]) fl = insert (a, sz) (allocated bs fl)"
    "\<forall>w \<in> heap_words base s. unat w < t \<longrightarrow> vload32 s' w = vload32 s w" "a + 8 \<noteq> 0"
    "unat (heap_top s') = unat a + 8 + unat sz" "heap_room s' = heap_room s"
proof -
  let ?s = "s\<lparr>heap_top := a + (8 + sz)\<rparr>"
  have lim: "unat (heap_end s) \<le> 0x400000" "base \<noteq> 0" using assms(2) by (simp_all add: heap_bounds_def)
  have ta: "t \<le> unat a" "4 dvd unat a" using align4 [of t] assms(5,11) by simp_all
  have base: "unat base \<le> t" using layout_le [OF assms(4)] .
  have u: "unat (a + 4) = unat a + 4" "unat (a + 8) = unat a + 8" "unat (a + (8 + sz)) = unat a + 8 + unat sz"
    using assms(10,11) lim(1) by (simp_all add: unat_plus_u32_small)
  have wa: "a \<in> heap_words base ?s" "a + 4 \<in> heap_words base ?s" "a \<noteq> a + 4"
    using ta base u assms(10,11) by (simp_all add: heap_words_def)
  have parts: "heap_mapped base ?s" "heap_bounds base ?s" "heap_frames base ?s" using assms(1-3) by simp_all
  from heap_write [OF parts wa(1), of sz] obtain m1 where
    m1: "vstore32 a sz ?s = Some (?s\<lparr>phys := m1\<rparr>)" "heap_mapped base (?s\<lparr>phys := m1\<rparr>)"
      "heap_bounds base (?s\<lparr>phys := m1\<rparr>)" "heap_frames base (?s\<lparr>phys := m1\<rparr>)" "vload32 (?s\<lparr>phys := m1\<rparr>) a = Some sz"
      "\<forall>b \<in> heap_words base ?s. b \<noteq> a \<longrightarrow> vload32 (?s\<lparr>phys := m1\<rparr>) b = vload32 ?s b" .
  have wa1: "a + 4 \<in> heap_words base (?s\<lparr>phys := m1\<rparr>)" using wa(2) by simp
  from heap_write [OF m1(2-4) wa1, of 0] obtain m2 where
    m2: "vstore32 (a + 4) 0 (?s\<lparr>phys := m1\<rparr>) = Some (?s\<lparr>phys := m1, phys := m2\<rparr>)"
      "heap_mapped base (?s\<lparr>phys := m1, phys := m2\<rparr>)" "heap_bounds base (?s\<lparr>phys := m1, phys := m2\<rparr>)"
      "heap_frames base (?s\<lparr>phys := m1, phys := m2\<rparr>)"
      "\<forall>b \<in> heap_words base (?s\<lparr>phys := m1\<rparr>). b \<noteq> a + 4 \<longrightarrow>
         vload32 (?s\<lparr>phys := m1, phys := m2\<rparr>) b = vload32 (?s\<lparr>phys := m1\<rparr>) b" .
  let ?t = "?s\<lparr>phys := m1, phys := m2\<rparr>"
  have low: "vload32 ?t w = vload32 s w" if "w \<in> heap_words base s" "unat w < t" for w
  proof -
    have "w \<noteq> a" "w \<noteq> a + 4" using that(2) ta(1) u(1) by auto
    then show ?thesis using m1(6) m2(5) that(1) by simp
  qed
  have bnd: "unat b + 8 + unat c \<le> t" "b \<in> heap_words base s" "b + 4 \<in> heap_words base s" "unat (b + 4) = unat b + 4"
    if "(b, c) \<in> set bs" for b c
  proof -
    note l = layout_block [OF assms(4) that]
    show "unat b + 8 + unat c \<le> t" by (fact l)
    show "unat (b + 4) = unat b + 4" using l(2) ta(1) assms(10,11) lim(1) by (simp add: unat_plus_u32_small)
    with l ta(1) assms(10,11) show "b \<in> heap_words base s" "b + 4 \<in> heap_words base s" by (simp_all add: heap_words_def)
  qed
  have nw: "vload32 ?t a = Some sz" using m2(5) m1(5) wa(1,3) by simp
  have "heap_blocks base ?t (bs @ [(a, sz)])"
    unfolding heap_blocks_def
  proof (intro conjI)
    show "\<exists>t'. layout (unat base) (bs @ [(a, sz)]) t' \<and> (unat (heap_top ?t) = t' \<or> unat (heap_top ?t) = align4 t')"
      using assms(4,5,11) u(3) by (auto simp: layout_append)
    show "unat (heap_top ?t) \<le> unat (heap_end ?t)" using u(3) assms(10,11) by simp
    have "vload32 ?t b = Some c" if "(b, c) \<in> set bs" for b c
      using low bnd(1,2) [OF that] assms(6) that by fastforce
    with nw show "\<forall>(b, c) \<in> set (bs @ [(a, sz)]). vload32 ?t b = Some c" by auto
  qed
  moreover have "path (next_of ?t) (free_list_head ?t) fl 0"
  proof -
    have "next_of ?t x = next_of s x" if "x \<in> set fl" for x
    proof -
      from that assms(9) obtain e where e: "(x, e) \<in> set bs" by auto
      show ?thesis using low [OF bnd(3) [OF e]] bnd(1,4) [OF e] by (simp add: next_of_def)
    qed
    then show ?thesis using assms(7) path_cong [of fl "next_of ?t" "next_of s"] by simp
  qed
  ultimately have inv: "heap_inv base ?t (bs @ [(a, sz)]) fl"
    using m2(2-4) assms(8,9) by (auto simp: heap_inv_def)
  have "a \<notin> fst ` set bs" using bnd(1) ta(1) by fastforce
  with assms(9) have al: "allocated (bs @ [(a, sz)]) fl = insert (a, sz) (allocated bs fl)"
    by (auto simp: allocated_def)
  have "a + 8 \<noteq> 0" using u(2) by auto
  moreover have "unat (heap_top ?t) = unat a + 8 + unat sz" "heap_room ?t = heap_room s"
    using u(3) by (simp_all add: heap_room_def free_frames_def managed_frames_def)
  ultimately show thesis using that [OF m1(1) m2(1) inv al] low by blast
qed

text \<open>The branch of \<^verbatim>\<open>malloc\<close> in which no free block is large enough.\<close>

lemma malloc_fresh:
  assumes "heap_inv base s bs fl" and "sz \<noteq> 0" and "malloc_find sz Head s = Some (0, s)"
    and "unat (heap_top s) + 11 + unat sz \<le> 0x400000"
  shows "\<exists>s'. heap_room s' = heap_room s \<and>
     (malloc sz s = Some (0, s') \<and> heap_inv base s' bs fl \<and> free_frames s' = {} \<and>
        unat (heap_top s') \<le> unat (heap_top s) + 11 + unat sz \<and> heap_room s < unat (heap_top s) + 11 + unat sz \<or>
     (\<exists>a. malloc sz s = Some (a + 8, s') \<and> a + 8 \<noteq> 0 \<and> heap_inv base s' (bs @ [(a, sz)]) fl \<and>
        allocated (bs @ [(a, sz)]) fl = insert (a, sz) (allocated bs fl) \<and>
        (\<forall>(b, d) \<in> set bs. unat b + 8 + unat d \<le> unat a) \<and>
        (\<forall>w \<in> heap_words base s. \<forall>(b, d) \<in> set bs. unat w < unat b + 8 + unat d \<longrightarrow> vload32 s' w = vload32 s w) \<and>
        unat (heap_top s') \<le> unat (heap_top s) + 11 + unat sz))"
proof -
  note i = heap_invD [OF assms(1)]
  from assms(1) obtain t where t: "layout (unat base) bs t" "unat (heap_top s) = t \<or> unat (heap_top s) = align4 t"
    "t \<le> unat (heap_top s)" "unat (heap_top s) \<le> unat (heap_end s)" by (rule heap_inv_layout)
  define a where "a = (if heap_top s mod 4 \<noteq> 0 then (heap_top s + 3) AND NOT 3 else heap_top s)"
  let ?s = "s\<lparr>heap_top := a\<rparr>"
  have ua: "unat a = align4 t"
  proof -
    have "unat a = align4 (unat (heap_top s))" unfolding a_def by (rule align_up) (use assms(4) in simp)
    with t(2) show ?thesis using align4_dvd [OF align4(3)] by auto
  qed
  have s_eq: "(if heap_top s mod 4 \<noteq> 0 then s\<lparr>heap_top := (heap_top s + 3) AND NOT 3\<rparr> else s) = ?s"
    by (simp add: a_def)
  have parts: "heap_mapped base ?s" "heap_bounds base ?s" "heap_frames base ?s" using i(1-3) by simp_all
  have "unat (heap_top ?s) + 8 + unat sz \<le> 0x400000" using ua align4(2) [of t] t(3) assms(4) by simp
  from malloc_expand_run [OF parts this] obtain ok s1 where
    s1: "malloc_expand sz ?s = Some (ok, s1)" "heap_mapped base s1" "heap_bounds base s1" "heap_frames base s1"
      "heap_top s1 = a" "free_list_head s1 = free_list_head s"
      "\<forall>w \<in> heap_words base s. vload32 s1 w = vload32 s w" "unat (heap_end s) \<le> unat (heap_end s1)"
      "if ok then unat a + 8 + unat sz \<le> unat (heap_end s1)
       else free_frames s1 = {} \<and> unat (heap_end s1) < unat a + 8 + unat sz" "heap_room s1 = heap_room ?s"
    by (auto split: if_splits)
  have room: "heap_room ?s = heap_room s" by (simp add: heap_room_def free_frames_def managed_frames_def)
  have near: "unat a < unat (heap_top s) + 4" using ua align4(2) [of t] t(3) by simp
  note bw = block_words [OF i(2,4)]
  have sizes: "\<forall>(b, c) \<in> set bs. vload32 s1 b = Some c" using i(4) s1(7) bw(1) by (fastforce simp: heap_blocks_def)
  have "next_of s1 x = next_of s x" if "x \<in> set fl" for x
  proof -
    from that i(7) obtain e where e: "(x, e) \<in> set bs" by auto
    show ?thesis using s1(7) bw(2) [OF e] by (simp add: next_of_def)
  qed
  then have p1: "path (next_of s1) (free_list_head s1) fl 0"
    using i(5) s1(6) path_cong [of fl "next_of s1" "next_of s"] by simp
  have end4: "4 dvd unat (heap_end s)"
  proof -
    have "4 dvd (4096 :: nat)" by simp
    then show ?thesis using i(2) unfolding heap_bounds_def page_aligned_def by (metis dvd_trans)
  qed
  show ?thesis
  proof (cases ok)
    case False
    have "unat a \<le> unat (heap_end s)" unfolding ua by (rule align4_le [OF _ end4]) (use t in simp)
    then have "heap_blocks base s1 bs" unfolding heap_blocks_def
      using t(1) ua s1(5,8) sizes by auto
    then have "heap_inv base s1 bs fl" using s1(2-4) p1 i(6,7) by (simp add: heap_inv_def)
    moreover have "malloc sz s = Some (0, s1)"
      using assms(2,3) s1(1) False by (simp add: malloc_def Let_def s_eq)
    moreover have "heap_room s < unat (heap_top s) + 11 + unat sz"
      using s1(9) False near unfolding room [symmetric] s1(10) [symmetric] by (simp add: heap_room_def)
    ultimately show ?thesis using s1(5,9,10) room near False by (intro exI [of _ s1] conjI disjI1) auto
  next
    case True
    have at: "unat (heap_top s1) = align4 t" "unat (heap_top s1) + 8 + unat sz \<le> unat (heap_end s1)"
      using s1(5,9) ua True by simp_all
    from new_block [OF s1(2-4) t(1) at(1) sizes p1 i(6,7) at(2) s1(5) [symmetric]] obtain s2 s' where
      n: "vstore32 a sz (s1\<lparr>heap_top := a + (8 + sz)\<rparr>) = Some s2" "vstore32 (a + 4) 0 s2 = Some s'"
        "heap_inv base s' (bs @ [(a, sz)]) fl" "allocated (bs @ [(a, sz)]) fl = insert (a, sz) (allocated bs fl)"
        "\<forall>w \<in> heap_words base s1. unat w < t \<longrightarrow> vload32 s' w = vload32 s1 w" "a + 8 \<noteq> 0"
        "unat (heap_top s') = unat a + 8 + unat sz" "heap_room s' = heap_room s1" .
    have run: "malloc sz s = Some (a + 8, s')"
      using assms(2,3) s1(1,5) True n(1,2) by (simp add: malloc_def Let_def s_eq)
    have lt: "unat b + 8 + unat d \<le> t" if "(b, d) \<in> set bs" for b d by (rule layout_block(2) [OF t(1) that])
    have "w \<in> heap_words base s1" if "w \<in> heap_words base s" for w using that s1(8) by (simp add: heap_words_def)
    then have keep: "vload32 s' w = vload32 s w" if "w \<in> heap_words base s" "unat w < t" for w
      using that n(5) s1(7) by simp
    have "\<forall>(b, d) \<in> set bs. unat b + 8 + unat d \<le> unat a" using lt ua align4(1) [of t] by fastforce
    moreover have "\<forall>w \<in> heap_words base s. \<forall>(b, d) \<in> set bs. unat w < unat b + 8 + unat d \<longrightarrow> vload32 s' w = vload32 s w"
      using keep lt by fastforce
    moreover have "unat (heap_top s') \<le> unat (heap_top s) + 11 + unat sz" using n(7) near by simp
    moreover have "heap_room s' = heap_room s" using n(8) s1(10) room by simp
    ultimately show ?thesis using run n(3,4,6) by blast
  qed
qed

text \<open>The search of the free list changes links only.\<close>

lemma link_set_frame:
  "link_set l v s = Some s' \<Longrightarrow> heap_top s' = heap_top s \<and> heap_room s' = heap_room s"
  by (cases l) (auto simp: vstore32_def heap_room_def free_frames_def managed_frames_def bind_eq_Some_conv split: if_splits)

lemma malloc_find_frame:
  assumes "malloc_find sz l s = Some (p, s')"
  shows "heap_top s' = heap_top s \<and> heap_room s' = heap_room s"
proof -
  have "heap_top (snd r) = heap_top s \<and> heap_room (snd r) = heap_room s" if "malloc_find sz l s = Some r" for r
    using that
  proof (rule malloc_find.raw_induct [where P = "\<lambda>sz l s r. heap_top (snd r) = heap_top s \<and> heap_room (snd r) = heap_room s", rotated])
    fix f and sz :: u32 and l and s :: "'a heap_state_scheme" and r
    assume IH: "\<And>sz l s r. f sz l s = Some r \<Longrightarrow> heap_top (snd r) = heap_top s \<and> heap_room (snd r) = heap_room s"
      and run: "link_get l s \<bind> (\<lambda>current. if current = 0 then Some (0, s)
        else vload32 s current \<bind> (\<lambda>block_size. if sz \<le> block_size
          then vload32 s (current + 4) \<bind> (\<lambda>nx. link_set l nx s \<bind> (\<lambda>s. Some (current + 8, s)))
          else f sz (NextOf current) s)) = Some r"
    then obtain c where c: "link_get l s = Some c" by (auto simp: bind_eq_Some_conv)
    show "heap_top (snd r) = heap_top s \<and> heap_room (snd r) = heap_room s"
    proof (cases "c = 0")
      case True
      then show ?thesis using run c by auto
    next
      case False
      with run c obtain b where b: "vload32 s c = Some b" by (auto simp: bind_eq_Some_conv)
      show ?thesis
      proof (cases "sz \<le> b")
        case True
        then obtain nx s1 where "link_set l nx s = Some s1" "r = (c + 8, s1)"
          using run c b False by (auto simp: bind_eq_Some_conv)
        then show ?thesis using link_set_frame by simp
      next
        case small: False
        then show ?thesis using run c b False IH by simp
      qed
    qed
  qed
  from this [OF assms] show ?thesis by simp
qed

lemma malloc_run:
  assumes "heap_inv base s bs fl" and "sz \<noteq> 0" and "unat (heap_top s) + 11 + unat sz \<le> 0x400000"
  shows "\<exists>p s' bs' fl'. malloc sz s = Some (p, s') \<and> heap_inv base s' bs' fl' \<and>
     (if p = 0 then bs' = bs \<and> fl' = fl \<and> free_frames s' = {} \<and> (\<forall>x \<in> set fl. \<exists>c. (x, c) \<in> set bs \<and> c < sz)
      else \<exists>c. sz \<le> c \<and> allocated bs' fl' = insert (p - 8, c) (allocated bs fl) \<and>
        (\<forall>(b, d) \<in> allocated bs fl. unat b + 8 + unat d \<le> unat (p - 8) \<or> unat (p - 8) + 8 + unat c \<le> unat b) \<and>
        (\<forall>(b, d) \<in> allocated bs fl. \<forall>w \<in> heap_words base s.
           unat b \<le> unat w \<and> unat w < unat b + 8 + unat d \<longrightarrow> vload32 s' w = vload32 s w)) \<and>
     heap_room s' = heap_room s \<and> unat (heap_top s') \<le> unat (heap_top s) + 11 + unat sz \<and>
     (p = 0 \<longrightarrow> heap_room s < unat (heap_top s) + 11 + unat sz)"
proof -
  have "heap_inv base s bs ([] @ fl)" using assms(1) by simp
  from malloc_find_run [OF this, of sz] consider
    "\<forall>x \<in> set fl. \<exists>c. (x, c) \<in> set bs \<and> c < sz" "malloc_find sz Head s = Some (0, s)"
  | us a zs c s' where "fl = us @ a # zs" "(a, c) \<in> set bs" "sz \<le> c" "malloc_find sz Head s = Some (a + 8, s')"
      "heap_inv base s' bs (us @ zs)" "\<forall>w \<in> heap_words base s. w \<notin> (\<lambda>x. x + 4) ` set us \<longrightarrow> vload32 s' w = vload32 s w"
    unfolding link_after_def by auto
  then show ?thesis
  proof cases
    case 1
    from malloc_fresh [OF assms(1,2) 1(2) assms(3)] obtain s' where
      "heap_room s' = heap_room s \<and>
       (malloc sz s = Some (0, s') \<and> heap_inv base s' bs fl \<and> free_frames s' = {} \<and>
        unat (heap_top s') \<le> unat (heap_top s) + 11 + unat sz \<and> heap_room s < unat (heap_top s) + 11 + unat sz \<or>
       (\<exists>a. malloc sz s = Some (a + 8, s') \<and> a + 8 \<noteq> 0 \<and> heap_inv base s' (bs @ [(a, sz)]) fl \<and>
        allocated (bs @ [(a, sz)]) fl = insert (a, sz) (allocated bs fl) \<and>
        (\<forall>(b, d) \<in> set bs. unat b + 8 + unat d \<le> unat a) \<and>
        (\<forall>w \<in> heap_words base s. \<forall>(b, d) \<in> set bs. unat w < unat b + 8 + unat d \<longrightarrow> vload32 s' w = vload32 s w) \<and>
        unat (heap_top s') \<le> unat (heap_top s) + 11 + unat sz))" ..
    then show ?thesis
    proof (elim disjE exE conjE, goal_cases)
      case 1
      with \<open>\<forall>x \<in> set fl. \<exists>c. (x, c) \<in> set bs \<and> c < sz\<close> show ?case
        by (intro exI [of _ "0 :: u32"] exI [of _ s'] exI [of _ bs] exI [of _ fl]) simp
    next
      case (2 a)
      have sub: "(b, d) \<in> set bs" if "(b, d) \<in> allocated bs fl" for b d using that by (simp add: allocated_def)
      have apart: "\<forall>(b, d) \<in> allocated bs fl. unat b + 8 + unat d \<le> unat a \<or> unat a + 8 + unat sz \<le> unat b"
        using 2(6) sub by fastforce
      have keep: "\<forall>(b, d) \<in> allocated bs fl. \<forall>w \<in> heap_words base s.
          unat b \<le> unat w \<and> unat w < unat b + 8 + unat d \<longrightarrow> vload32 s' w = vload32 s w"
        using 2(7) sub by fastforce
      show ?case
        by (intro exI [of _ "a + 8"] exI [of _ s'] exI [of _ "bs @ [(a, sz)]"] exI [of _ fl])
          (use 2(1-5,8) apart keep in \<open>simp, intro exI [of _ sz], simp\<close>)
    qed
  next
    case (2 us a zs c s')
    have "heap_inv base s bs (us @ a # zs)" using assms(1) 2(1) by simp
    from malloc_reuse [OF this 2(2,3) assms(2) 2(4-6)] show ?thesis
      using 2(1,3,5) malloc_find_frame [OF 2(4)]
      by (intro exI [of _ "a + 8"] exI [of _ s'] exI [of _ bs] exI [of _ "us @ zs"]) (auto intro!: exI [of _ c])
  qed
qed

text \<open>A request for which there is room succeeds.\<close>

lemma malloc_fits:
  assumes "heap_inv base s bs fl" and "sz \<noteq> 0" and "unat (heap_top s) + 11 + unat sz \<le> heap_room s"
    and "unat (heap_top s) + 11 + unat sz \<le> 0x400000"
  obtains p s' bs' fl' c where "malloc sz s = Some (p, s')" "heap_inv base s' bs' fl'" "sz \<le> c"
    "allocated bs' fl' = insert (p - 8, c) (allocated bs fl)"
    "\<forall>(b, d) \<in> allocated bs fl. unat b + 8 + unat d \<le> unat (p - 8) \<or> unat (p - 8) + 8 + unat c \<le> unat b"
    "heap_room s' = heap_room s" "unat (heap_top s') \<le> unat (heap_top s) + 11 + unat sz"
proof -
  from malloc_run [OF assms(1,2,4)] obtain p s' bs' fl' where
    m: "malloc sz s = Some (p, s')" "heap_inv base s' bs' fl'"
      "if p = 0 then bs' = bs \<and> fl' = fl \<and> free_frames s' = {} \<and> (\<forall>x \<in> set fl. \<exists>c. (x, c) \<in> set bs \<and> c < sz)
       else \<exists>c. sz \<le> c \<and> allocated bs' fl' = insert (p - 8, c) (allocated bs fl) \<and>
         (\<forall>(b, d) \<in> allocated bs fl. unat b + 8 + unat d \<le> unat (p - 8) \<or> unat (p - 8) + 8 + unat c \<le> unat b) \<and>
         (\<forall>(b, d) \<in> allocated bs fl. \<forall>w \<in> heap_words base s.
            unat b \<le> unat w \<and> unat w < unat b + 8 + unat d \<longrightarrow> vload32 s' w = vload32 s w)"
      "heap_room s' = heap_room s" "unat (heap_top s') \<le> unat (heap_top s) + 11 + unat sz"
      "p = 0 \<longrightarrow> heap_room s < unat (heap_top s) + 11 + unat sz"
    by (elim exE conjE)
  have nz: "p \<noteq> 0" using m(6) assms(3) by auto
  from m(3) [unfolded if_not_P [OF nz]] show thesis
    by (elim exE conjE) (rule that [OF m(1,2) _ _ _ m(4,5)])
qed

text \<open>C34. \<^verbatim>\<open>malloc\<close> (memory.c) always returns for a request that fits below 4 MB, and hands out
  memory that nobody else has: in a well-formed heap the result is either NULL, and then no
  free block is large enough and physical memory is used up, or the address of the data
  area of a block of at least the requested size that was not allocated before and does not
  overlap any allocated block. The words of the allocated blocks, headers included, keep
  their contents, and the heap stays well formed.\<close>

theorem malloc_correct:
  assumes "heap_inv base s bs fl" and "sz \<noteq> 0" and "unat (heap_top s) + 11 + unat sz \<le> 0x400000"
  shows "\<exists>p s' bs' fl'. malloc sz s = Some (p, s') \<and> heap_inv base s' bs' fl' \<and>
     (if p = 0 then bs' = bs \<and> fl' = fl \<and> free_frames s' = {} \<and> (\<forall>x \<in> set fl. \<exists>c. (x, c) \<in> set bs \<and> c < sz)
      else \<exists>c. sz \<le> c \<and> allocated bs' fl' = insert (p - 8, c) (allocated bs fl) \<and>
        (\<forall>(b, d) \<in> allocated bs fl. unat b + 8 + unat d \<le> unat (p - 8) \<or> unat (p - 8) + 8 + unat c \<le> unat b) \<and>
        (\<forall>(b, d) \<in> allocated bs fl. \<forall>w \<in> heap_words base s.
           unat b \<le> unat w \<and> unat w < unat b + 8 + unat d \<longrightarrow> vload32 s' w = vload32 s w))"
proof -
  from malloc_run [OF assms] obtain p s' bs' fl' where "malloc sz s = Some (p, s')" "heap_inv base s' bs' fl'"
    "if p = 0 then bs' = bs \<and> fl' = fl \<and> free_frames s' = {} \<and> (\<forall>x \<in> set fl. \<exists>c. (x, c) \<in> set bs \<and> c < sz)
     else \<exists>c. sz \<le> c \<and> allocated bs' fl' = insert (p - 8, c) (allocated bs fl) \<and>
       (\<forall>(b, d) \<in> allocated bs fl. unat b + 8 + unat d \<le> unat (p - 8) \<or> unat (p - 8) + 8 + unat c \<le> unat b) \<and>
       (\<forall>(b, d) \<in> allocated bs fl. \<forall>w \<in> heap_words base s.
          unat b \<le> unat w \<and> unat w < unat b + 8 + unat d \<longrightarrow> vload32 s' w = vload32 s w)"
    by (elim exE conjE)
  then show ?thesis by (intro exI conjI)
qed

text \<open>C35. \<^verbatim>\<open>free\<close> (memory.c) gives a block back and the next request that fits gets exactly that
  block: freeing an allocated block succeeds, leaves the heap well formed with the block no
  longer allocated and every other block as it was, and a following \<^verbatim>\<open>malloc\<close> of at most its
  size returns its address, with the same blocks allocated as before. (The \<^verbatim>\<open>memtest\<close> command
  of the shell relies on this.)\<close>

theorem free_then_malloc:
  assumes "heap_inv base s bs fl" and "(a, c) \<in> allocated bs fl" and "sz \<noteq> 0" and "sz \<le> c"
  shows "\<exists>s1 s2. free (a + 8) s = Some s1 \<and> heap_inv base s1 bs (a # fl) \<and>
     allocated bs (a # fl) = allocated bs fl - {(a, c)} \<and>
     (\<forall>w \<in> heap_words base s. w \<noteq> a + 4 \<longrightarrow> vload32 s1 w = vload32 s w) \<and>
     malloc sz s1 = Some (a + 8, s2) \<and> heap_inv base s2 bs fl"
proof -
  note i = heap_invD [OF assms(1)]
  from assms(2) have a: "(a, c) \<in> set bs" "a \<notin> set fl" by (auto simp: allocated_def)
  from free_inv [OF assms(1,2)] obtain s1 where
    s1: "free (a + 8) s = Some s1" "heap_inv base s1 bs (a # fl)"
      "\<forall>w \<in> heap_words base s. w \<noteq> a + 4 \<longrightarrow> vload32 s1 w = vload32 s w" "free_list_head s1 = a" .
  have "heap_inv base s1 bs ([] @ a # fl)" using s1(2) by simp
  from malloc_find_run [OF this, of sz] obtain us x zs d s2 where
    f: "a # fl = us @ x # zs" "\<forall>y \<in> set us. \<exists>c. (y, c) \<in> set bs \<and> c < sz" "(x, d) \<in> set bs" "sz \<le> d"
      "malloc_find sz Head s1 = Some (x + 8, s2)" "heap_inv base s2 bs (us @ zs)"
      "\<forall>w \<in> heap_words base s1. w \<notin> (\<lambda>x. x + 4) ` set us \<longrightarrow> vload32 s2 w = vload32 s1 w"
  proof (elim disjE exE conjE, goal_cases)
    case 1
    then obtain c' where "(a, c') \<in> set bs" "c' < sz" by auto
    with block_words_distinct(3) [OF i(2,4) a(1)] assms(4) show ?case by fastforce
  next
    case (2 us x zs d s2)
    then show ?case by (auto simp: link_after_def)
  qed
  have "us = []"
  proof (rule ccontr)
    assume "us \<noteq> []"
    with f(1) have "a \<in> set us" by (cases us) auto
    with f(2) obtain c' where "(a, c') \<in> set bs" "c' < sz" by auto
    with block_words_distinct(3) [OF i(2,4) a(1)] assms(4) show False by fastforce
  qed
  with f(1) have x: "x = a" "zs = fl" "us = []" by simp_all
  have "heap_inv base s1 bs ([] @ a # fl)" using s1(2) by simp
  from malloc_reuse [OF this a(1) assms(4,3), of s2] f(5-7) x have "malloc sz s1 = Some (a + 8, s2)" by simp
  moreover have "allocated bs (a # fl) = allocated bs fl - {(a, c)}"
    using a by (auto simp: allocated_def dest: block_words_distinct(3) [OF i(2,4) a(1)])
  ultimately show ?thesis using s1(1-3) f(6) x by auto
qed

text \<open>\<^verbatim>\<open>init_memory\<close> takes its first page the way the expansion loop takes the next ones.\<close>

lemma pmm_alloc_heap_end:
  "pmm_alloc_frame s = Some (f, s1) \<Longrightarrow> pmm_alloc_frame (s\<lparr>heap_end := e\<rparr>) = Some (f, s1\<lparr>heap_end := e\<rparr>)"
  by (auto simp: pmm_alloc_frame_def pmm_set_bit_def Let_def split: option.splits if_splits)

lemma pmm_alloc_heap_top: "pmm_alloc_frame s = Some (f, s1) \<Longrightarrow> heap_top s1 = heap_top s"
  by (auto simp: pmm_alloc_frame_def pmm_set_bit_def Let_def split: option.splits if_splits)

lemma page_ceil:
  assumes "unat (w :: u32) + 4096 \<le> 0x400000" and "w \<noteq> 0"
  defines "b \<equiv> (if w mod PMM_FRAME_SIZE \<noteq> 0 then (w div PMM_FRAME_SIZE + 1) * PMM_FRAME_SIZE else w)"
  shows "page_aligned b" "unat w \<le> unat b" "unat b < unat w + 4096" "b \<noteq> 0"
proof -
  have d: "unat (w div 4096) = unat w div 4096" "unat (w mod 4096) = unat w mod 4096"
    by (simp_all add: unat_div_distrib unat_mod_distrib)
  have m: "unat ((w div 4096 + 1) * 4096) = (unat w div 4096 + 1) * 4096"
  proof -
    have q: "unat w div 4096 < 1024" using assms(1) by simp
    then have "unat (w div 4096 + 1) = unat w div 4096 + 1" using d(1) by (simp add: unat_plus_u32_small)
    then show ?thesis unfolding unat_word_ariths(2) using q by simp
  qed
  have c: "unat b = (if unat w mod 4096 \<noteq> 0 then (unat w div 4096 + 1) * 4096 else unat w)"
    using m d(2) by (simp add: b_def PMM_FRAME_SIZE_def word_unat_eq_iff)
  obtain q r where qr: "unat w = 4096 * q + r" "r < 4096" "unat w div 4096 = q" "unat w mod 4096 = r"
    using mult_div_mod_eq [of 4096 "unat w"] mod_less_divisor [of 4096 "unat w"] by (metis zero_less_numeral)
  show "page_aligned b" unfolding page_aligned_def c by (simp add: dvd_eq_mod_eq_0)
  show "unat w \<le> unat b" "unat b < unat w + 4096" unfolding c qr(3,4) qr(1) using qr(2) by simp_all
  then show "b \<noteq> 0" using assms(2) unat_gt_0 [of w] by auto
qed

text \<open>C36. \<^verbatim>\<open>init_memory\<close> (memory.c) builds a well-formed empty heap: once paging is on, with a free
  frame left and the kernel image and the frame bitmap ending below 4 MB, the heap starts
  at the first page boundary after the bitmap, has one mapped page, no block and an empty
  free list, and the frame it took is the lowest free one.\<close>

theorem init_memory_correct:
  assumes "paging_wf s" and "pmm_inv s" and "present (read_pde s 0)" and "free_list_head s = 0"
    and "\<forall>n \<in> free_frames s. frame_addr n \<notin> table_frames s" and "free_frames s \<noteq> {}"
    and "0 < unat kernel_end" and "unat kernel_end + unat (pmm_bitmap_size s) + 8192 \<le> 0x400000"
  shows "\<exists>s'. init_memory kernel_end s = Some s' \<and> heap_inv (heap_top s') s' [] [] \<and>
     heap_end s' = heap_top s' + PMM_FRAME_SIZE \<and> page_aligned (heap_top s') \<and>
     unat kernel_end + unat (pmm_bitmap_size s) \<le> unat (heap_top s') \<and>
     unat (heap_top s') < unat kernel_end + unat (pmm_bitmap_size s) + 4096 \<and>
     free_frames s' = free_frames s - {Min (free_frames s)}"
proof -
  define w where "w = kernel_end + pmm_bitmap_size s"
  have uw: "unat w = unat kernel_end + unat (pmm_bitmap_size s)"
    using assms(8) by (simp add: w_def unat_plus_u32_small)
  define b where "b = (if w mod PMM_FRAME_SIZE \<noteq> 0 then (w div PMM_FRAME_SIZE + 1) * PMM_FRAME_SIZE else w)"
  have w: "unat w + 4096 \<le> 0x400000" "w \<noteq> 0" using uw assms(7,8) by auto
  note c = page_ceil [OF w, folded b_def]
  let ?s = "s\<lparr>heap_top := b, heap_end := b\<rparr>"
  have cong: "phys ?s = phys s" "cr3 ?s = cr3 s" "cr0_pg ?s = cr0_pg s" by simp_all
  have ff: "free_frames (s\<lparr>heap_top := b, heap_end := e\<rparr>) = free_frames s" for e
    by (simp add: free_frames_def managed_frames_def)
  have none: "heap_words b ?s = {}" by (auto simp: heap_words_def)
  have pre: "heap_mapped b ?s" "heap_bounds b ?s" "heap_frames b ?s"
    using assms(1-3,5) c w(1) none ff [of b] paging_cong [OF cong] read_pde_cong [OF cong(1,2)]
    by (simp_all add: heap_mapped_def heap_bounds_def heap_frames_def pmm_inv_def)
  have room: "unat (heap_end ?s) + 4096 \<le> 0x400000" "free_frames ?s \<noteq> {}" using c(3) uw assms(6,8) ff by simp_all
  obtain f s1 s2 where
    e: "pmm_alloc_frame ?s = Some (f, s1)" "heap_top s2 = b" "free_list_head s2 = 0"
      "heap_mapped b (s2\<lparr>heap_end := b + 4096\<rparr>)" "heap_bounds b (s2\<lparr>heap_end := b + 4096\<rparr>)"
      "heap_frames b (s2\<lparr>heap_end := b + 4096\<rparr>)" "free_frames s2 = free_frames s - {Min (free_frames s)}"
      "\<forall>d x. paging_map_page d b f 3 (s1\<lparr>heap_end := x\<rparr>) = Some (s2\<lparr>heap_end := x\<rparr>)"
      "heap_top s1 = b"
  proof (rule expand_step [OF pre room], goal_cases)
    case (1 f s1 s2)
    show ?case by (rule that [of f s1 s2]) (use 1(1,2,7-14) assms(4) ff [of b] pmm_alloc_heap_top [OF 1(2)] in simp_all)
  qed
  let ?r = "s2\<lparr>heap_end := b + 4096\<rparr>"
  have fl: "PAGING_FLAG_PRESENT OR PAGING_FLAG_RW = 3" by (simp add: paging_flags)
  have st: "s\<lparr>heap_top := b, heap_end := b + PMM_FRAME_SIZE\<rparr> = ?s\<lparr>heap_end := b + 4096\<rparr>" by (simp add: PMM_FRAME_SIZE_def)
  have run: "init_memory kernel_end s = Some ?r"
    using pmm_alloc_heap_end [OF e(1), of "b + 4096"] e(8,9)
    unfolding init_memory_def Let_def w_def [symmetric] b_def [symmetric] st by (simp add: fl)
  have "unat (b + 4096) = unat b + 4096" using room by (simp add: unat_plus_u32_small)
  then have "heap_blocks b ?r []" using e(2) by (simp add: heap_blocks_def)
  then have "heap_inv b ?r [] []" using e(3-6) by (simp add: heap_inv_def)
  moreover have "free_frames ?r = free_frames s - {Min (free_frames s)}"
    using e(7) by (simp add: free_frames_def managed_frames_def)
  ultimately show ?thesis using run c e(2) uw by (intro exI [of _ ?r]) (simp add: PMM_FRAME_SIZE_def)
qed

text \<open>The booted machine with an empty heap in the identity-mapped page at 0x30000.\<close>

definition boot_heap :: heap_state where
  "boot_heap = machine_state.extend booted_machine \<lparr>heap_top = 0x30000, heap_end = 0x31000, free_list_head = 0\<rparr>"

lemma boot_heap:
  "paging_wf boot_heap" "pmm_inv boot_heap" "present (read_pde boot_heap 0)" "free_list_head boot_heap = 0"
  "free_frames boot_heap = {67..<4096}" "heap_top boot_heap = 0x30000" "heap_end boot_heap = 0x31000"
  "table_frames boot_heap = {0x41000, 0x42000}"
  "pd_index va \<noteq> 1023 \<Longrightarrow> translate boot_heap va = (if va < 0x400000 then Some va else None)"
proof -
  have f: "phys boot_heap = phys booted_machine" "cr3 boot_heap = cr3 booted_machine" "cr0_pg boot_heap = cr0_pg booted_machine"
    and p: "pmm_bitmap boot_heap = pmm_bitmap booted_machine" "pmm_bitmap_size boot_heap = pmm_bitmap_size booted_machine"
    by (simp_all add: boot_heap_def machine_state.defs)
  have pde: "read_pde boot_heap = read_pde booted_machine" by (rule ext) (simp add: read_pde_def f)
  have e: "frame_of (0x42000 OR 3) = 0x42000 \<and> present (0x42000 OR 3)" "frame_of (0x41000 OR 3) = 0x41000 \<and> present (0x41000 OR 3)"
    using entry_or_3 [of "0x42000"] entry_or_3 [of "0x41000"] by (simp_all add: page_aligned_def)
  show "paging_wf boot_heap" using booted_machine(2) f(2,3) pde by (simp add: paging_wf_def)
  show fre: "free_frames boot_heap = {67..<4096}"
    using booted_machine(5) p by (simp add: free_frames_def managed_frames_def)
  have "pmm_inv booted_machine" using booted_machine(3) by (simp add: table_available_def)
  then show "pmm_inv boot_heap" using fre p by (simp add: pmm_inv_def)
  show "present (read_pde boot_heap 0)" using booted_machine(6) [of 0] e by (simp add: pde)
  show "free_list_head boot_heap = 0" "heap_top boot_heap = 0x30000" "heap_end boot_heap = 0x31000"
    by (simp_all add: boot_heap_def machine_state.defs)
  show "table_frames boot_heap = {0x41000, 0x42000}"
  proof (intro set_eqI iffI)
    fix x assume "x \<in> table_frames boot_heap"
    then show "x \<in> {0x41000, 0x42000}"
      using booted_machine(6) e by (auto simp: table_frames_def pde present_def split: if_splits)
  next
    fix x :: u32 assume "x \<in> {0x41000, 0x42000}"
    then show "x \<in> table_frames boot_heap"
      using booted_machine(6) [of 0] booted_machine(6) [of 1023] e unfolding table_frames_def pde
      by (elim insertE) (auto intro: exI [of _ 0] exI [of _ 1023])
  qed
  have "lookup_pte boot_heap va = lookup_pte booted_machine va" for va by (simp add: lookup_pte_def pde f Let_def)
  then have "translate boot_heap va = translate booted_machine va" for va by (simp add: translate_def f)
  then show "translate boot_heap va = (if va < 0x400000 then Some va else None)" if "pd_index va \<noteq> 1023" for va
    using booted_machine(7) [OF that] by simp
qed

lemma frame_addr_not_table: "n \<in> {67..<4096} \<Longrightarrow> frame_addr n \<notin> {0x41000, 0x42000}"
  using unat_frame_addr [of n] by auto

lemma boot_heap_inv: "heap_inv 0x30000 boot_heap [] []"
proof -
  have w: "pd_index a \<noteq> 1023 \<and> a < 0x400000 \<and> frame_of a = 0x30000 \<and> unat a div 4096 = 48"
    if "a \<in> heap_words 0x30000 boot_heap" for a
  proof -
    from that have a: "0x30000 \<le> unat a" "unat a < 0x31000" by (simp_all add: heap_words_def boot_heap)
    then have d: "unat a div 4096 = 48" by simp
    have "unat (pd_index a) = 0" using a by (simp add: unat_pd_index)
    moreover have "unat (frame_of a) = 0x30000" using d by (simp add: unat_frame_of)
    ultimately show ?thesis using a d by (auto simp: word_unat_eq_iff word_less_nat_alt)
  qed
  have "heap_mapped 0x30000 boot_heap"
    using boot_heap(1,8,9) w by (auto simp: heap_mapped_def intro!: inj_onI)
  moreover have "heap_frames 0x30000 boot_heap"
    using boot_heap(2,3,5,8,9) w frame_addr_not_table by (auto simp: heap_frames_def)
  ultimately show ?thesis
    by (simp add: heap_inv_def heap_bounds_def heap_blocks_def boot_heap page_aligned_def)
qed

theorem malloc_correct_witness:
  "\<exists>p s' bs' fl'. malloc 100 boot_heap = Some (p, s') \<and> heap_inv 0x30000 s' bs' fl' \<and>
     (if p = 0 then free_frames s' = {} else \<exists>c \<ge> 100. allocated bs' fl' = {(p - 8, c)})"
proof -
  have c: "(100 :: u32) \<noteq> 0" "unat (heap_top boot_heap) + 11 + unat (100 :: u32) \<le> 0x400000" by (simp_all add: boot_heap)
  have "allocated [] [] = {}" by (simp add: allocated_def)
  with malloc_correct [OF boot_heap_inv c] show ?thesis by (fastforce split: if_splits)
qed

lemma boot_block: "\<exists>s :: heap_state. heap_inv 0x30000 s [(0x30000, 100)] []"
proof -
  note i = heap_invD [OF boot_heap_inv]
  have l: "layout (unat (0x30000 :: u32)) [] 0x30000" "unat (heap_top boot_heap) = align4 0x30000"
    "unat (heap_top boot_heap) + 8 + unat (100 :: u32) \<le> unat (heap_end boot_heap)" "0x30000 = heap_top boot_heap"
    by (simp_all add: boot_heap align4_def)
  show ?thesis by (rule new_block [OF i(1-3) l(1,2) _ i(5-7) l(3,4)]) auto
qed

theorem free_then_malloc_witness:
  "\<exists>(s :: heap_state) s1 s2. heap_inv 0x30000 s [(0x30000, 100)] [] \<and> free 0x30008 s = Some s1 \<and>
     allocated [(0x30000, 100)] [0x30000] = {} \<and> malloc 64 s1 = Some (0x30008, s2)"
proof -
  from boot_block obtain s :: heap_state where s: "heap_inv 0x30000 s [(0x30000, 100)] []" ..
  have a: "(0x30000, 100) \<in> allocated [(0x30000, 100)] []" "(64 :: u32) \<noteq> 0" "(64 :: u32) \<le> 100"
    by (simp_all add: allocated_def)
  from free_then_malloc [OF s a] s show ?thesis by (auto simp: allocated_def)
qed

theorem init_memory_correct_witness:
  "\<exists>s'. init_memory 0x40000 boot_heap = Some s' \<and> heap_inv (heap_top s') s' [] [] \<and> free_frames s' = {68..<4096}"
proof -
  have "unat (pmm_bitmap_size boot_heap) div 4 \<le> 32768"
    using boot_heap(2) by (simp add: pmm_inv_def unat_div_distrib)
  then have b: "unat (0x40000 :: u32) + unat (pmm_bitmap_size boot_heap) + 8192 \<le> 0x400000" by simp
  have "Min {67..<4096} = (67 :: nat)" by (rule Min_eqI) auto
  moreover have "{67..<4096} - {67} = {68..<4096 :: nat}"
    by (rule set_eqI) (simp only: Diff_iff atLeastLessThan_iff insert_iff empty_iff, arith)
  moreover have "\<forall>n \<in> free_frames boot_heap. frame_addr n \<notin> table_frames boot_heap" "free_frames boot_heap \<noteq> {}"
    using frame_addr_not_table by (simp_all add: boot_heap)
  ultimately show ?thesis
    using init_memory_correct [OF boot_heap(1-4) _ _ _ b] by (auto simp: boot_heap)
qed

end
