(* ===== verification/Region.thy ===== *)
theory Region
  imports Paging
begin

text \<open>
  Regions of virtual memory. The drivers and the file system move bytes between buffers:
  the disk buffer, the in-memory FAT, the heap. On a set of mapped addresses that reach
  distinct places outside the page tables, the virtual memory behaves like an array of
  bytes. The interface is the locale \<^verbatim>\<open>byte_memory\<close>; the copying loops are verified in it
  once and for all, and the paging unit provides it.
\<close>

section \<open>Half words\<close>

definition vload16 :: "'a machine_state_scheme \<Rightarrow> u32 \<Rightarrow> u16 option" where
  "vload16 s va =
     do {
       b0 \<leftarrow> vload8 s va;
       b1 \<leftarrow> vload8 s (va + 1);
       Some (ucast b0 OR push_bit 8 (ucast b1))
     }"

definition vstore16 :: "u32 \<Rightarrow> u16 \<Rightarrow> 'a machine_state_scheme \<Rightarrow> 'a machine_state_scheme option" where
  "vstore16 va v s = vstore8 va (ucast v) s \<bind> vstore8 (va + 1) (ucast (drop_bit 8 v))"

section \<open>Address ranges\<close>

definition addr_range :: "u32 \<Rightarrow> nat \<Rightarrow> u32 set" where
  "addr_range a n = (\<lambda>i. a + of_nat i) ` {0..<n}"

lemma addr_range_0 [simp]: "addr_range a 0 = {}"
  by (simp add: addr_range_def)

lemma addr_range_Suc: "addr_range a (Suc n) = insert a (addr_range (a + 1) n)"
proof -
  have "(\<lambda>i. a + of_nat i) ` {0..<Suc n} = insert (a + of_nat 0) ((\<lambda>i. a + of_nat (Suc i)) ` {0..<n})"
    unfolding atLeast0_lessThan_Suc_eq_insert_0 by (simp only: image_insert image_image)
  then show ?thesis by (simp add: addr_range_def algebra_simps)
qed

lemma addr_rangeI: "i < n \<Longrightarrow> a + of_nat i \<in> addr_range a n"
  by (simp add: addr_range_def)

lemma addr_rangeE:
  assumes "x \<in> addr_range a n"
  obtains i where "i < n" "x = a + of_nat i"
  using assms by (auto simp: addr_range_def)

lemma addr_range_mono: "m \<le> n \<Longrightarrow> addr_range a m \<subseteq> addr_range a n"
  by (auto simp: addr_range_def)

lemma addr_range_add: "addr_range a (m + n) = addr_range a m \<union> addr_range (a + of_nat m) n"
proof -
  have "{0..<m + n} = {0..<m} \<union> (\<lambda>i. m + i) ` {0..<n}" by (simp add: ivl_disj_un_two(3) add.commute)
  then have "addr_range a (m + n) = (\<lambda>i. a + of_nat i) ` ({0..<m} \<union> (\<lambda>i. m + i) ` {0..<n})"
    unfolding addr_range_def by (rule arg_cong)
  then show ?thesis unfolding image_Un image_image by (simp add: addr_range_def algebra_simps)
qed

lemma offset_eq_iff:
  assumes "i < 4294967296" and "j < 4294967296"
  shows "(a :: u32) + of_nat i = a + of_nat j \<longleftrightarrow> i = j"
proof
  assume "a + of_nat i = a + of_nat j"
  then have "unat (of_nat i :: u32) = unat (of_nat j :: u32)" by simp
  then show "i = j" using assms by (simp add: unat_of_nat_u32)
qed simp

lemma addr_range_iff:
  assumes "unat a + n \<le> 4294967296"
  shows "x \<in> addr_range a n \<longleftrightarrow> unat a \<le> unat x \<and> unat x < unat a + n"
proof
  assume "x \<in> addr_range a n"
  then obtain i where "i < n" "x = a + of_nat i" by (rule addr_rangeE)
  then show "unat a \<le> unat x \<and> unat x < unat a + n"
    using assms by (simp add: unat_plus_u32_small unat_of_nat_u32)
next
  assume x: "unat a \<le> unat x \<and> unat x < unat a + n"
  then have "unat (a + of_nat (unat x - unat a)) = unat x"
    using assms unat_u32_bound [of x] by (simp add: unat_plus_u32_small unat_of_nat_u32)
  then have "x = a + of_nat (unat x - unat a)" by (simp only: word_unat_eq_iff)
  moreover have "unat x - unat a < n" using x by linarith
  ultimately show "x \<in> addr_range a n" using addr_rangeI by metis
qed

section \<open>A memory of bytes\<close>

text \<open>The bytes \<^verbatim>\<open>bs\<close> stand at the address \<^verbatim>\<open>a\<close> of the memory that \<^verbatim>\<open>m\<close> reads.\<close>

definition bytes_at :: "(u32 \<Rightarrow> u8 option) \<Rightarrow> u32 \<Rightarrow> bytes \<Rightarrow> bool" where
  "bytes_at m a bs \<longleftrightarrow> (\<forall>i < length bs. m (a + of_nat i) = Some (bs ! i))"

lemma bytes_at_Nil: "bytes_at m a []"
  by (simp add: bytes_at_def)

lemma bytes_at_Cons: "bytes_at m a (b # bs) \<longleftrightarrow> m a = Some b \<and> bytes_at m (a + 1) bs"
proof -
  have "(\<forall>i < Suc (length bs). m (a + of_nat i) = Some ((b # bs) ! i)) \<longleftrightarrow>
      m a = Some b \<and> (\<forall>i < length bs. m (a + of_nat (Suc i)) = Some (bs ! i))"
    by (simp add: All_less_Suc2)
  then show ?thesis by (simp add: bytes_at_def algebra_simps)
qed

lemma bytes_at_cong: "bytes_at m a bs \<Longrightarrow> (\<And>x. x \<in> addr_range a (length bs) \<Longrightarrow> m' x = m x) \<Longrightarrow> bytes_at m' a bs"
  by (simp add: bytes_at_def addr_rangeI)

lemma bytes_at_append: "bytes_at m a (bs @ cs) \<longleftrightarrow> bytes_at m a bs \<and> bytes_at m (a + of_nat (length bs)) cs"
proof (induction bs arbitrary: a)
  case Nil
  then show ?case by (simp add: bytes_at_Nil)
next
  case (Cons b bs)
  then show ?case by (simp add: bytes_at_Cons algebra_simps)
qed

lemma bytes_at_take: "bytes_at m a bs \<Longrightarrow> bytes_at m a (take n bs)"
  by (simp add: bytes_at_def)

locale byte_memory =
  fixes rd :: "'s \<Rightarrow> u32 \<Rightarrow> u8 option"
    and wr :: "u32 \<Rightarrow> u8 \<Rightarrow> 's \<Rightarrow> 's option"
    and cpy :: "nat \<Rightarrow> u32 \<Rightarrow> u32 \<Rightarrow> 's \<Rightarrow> 's option"
    and ok :: "u32 set \<Rightarrow> 's \<Rightarrow> bool"
    and frame :: "'s \<Rightarrow> 'f"
  assumes rd_some: "ok R s \<Longrightarrow> a \<in> R \<Longrightarrow> \<exists>v. rd s a = Some v"
    and wr_some: "ok R s \<Longrightarrow> a \<in> R \<Longrightarrow> \<exists>s'. wr a v s = Some s' \<and> ok R s' \<and> frame s' = frame s \<and>
       rd s' a = Some v \<and> (\<forall>b \<in> R. b \<noteq> a \<longrightarrow> rd s' b = rd s b)"
    and cpy_0: "cpy 0 dst src s = Some s"
    and cpy_Suc: "cpy (Suc n) dst src s = rd s src \<bind> (\<lambda>b. wr dst b s \<bind> cpy n (dst + 1) (src + 1))"
begin

lemma rd_bytes:
  assumes "ok R s" and "addr_range a n \<subseteq> R"
  shows "\<exists>bs. length bs = n \<and> bytes_at (rd s) a bs"
  using assms(2)
proof (induction n arbitrary: a)
  case (Suc n)
  then have a: "a \<in> R" "addr_range (a + 1) n \<subseteq> R" by (simp_all add: addr_range_Suc)
  from rd_some [OF assms(1) a(1)] obtain v where "rd s a = Some v" ..
  moreover from Suc.IH [OF a(2)] obtain bs where "length bs = n" "bytes_at (rd s) (a + 1) bs" by auto
  ultimately show ?case by (intro exI [of _ "v # bs"]) (simp add: bytes_at_Cons)
qed (simp add: bytes_at_Nil)

lemma wr_bytes:
  assumes "ok R s" and "addr_range a (length bs) \<subseteq> R" and "length bs \<le> 4294967296"
  shows "\<exists>s'. ok R s' \<and> frame s' = frame s \<and> bytes_at (rd s') a bs \<and>
     (\<forall>b \<in> R. b \<notin> addr_range a (length bs) \<longrightarrow> rd s' b = rd s b)"
  using assms
proof (induction bs arbitrary: a s)
  case Nil
  then show ?case by (auto simp: bytes_at_Nil)
next
  case (Cons b bs)
  then have "addr_range (a + 1) (length bs) \<subseteq> R" "a \<in> R" by (simp_all add: addr_range_Suc)
  from Cons.IH [OF Cons.prems(1) this(1)] Cons.prems(3) obtain s1 where
    s1: "ok R s1" "frame s1 = frame s" "bytes_at (rd s1) (a + 1) bs"
      "\<forall>c \<in> R. c \<notin> addr_range (a + 1) (length bs) \<longrightarrow> rd s1 c = rd s c" by auto
  from wr_some [OF s1(1) \<open>a \<in> R\<close>, of b] obtain s2 where
    s2: "ok R s2" "frame s2 = frame s1" "rd s2 a = Some b" "\<forall>c \<in> R. c \<noteq> a \<longrightarrow> rd s2 c = rd s1 c" by blast
  have "x \<noteq> a" if x: "x \<in> addr_range (a + 1) (length bs)" for x
  proof
    assume "x = a"
    with x obtain i where i: "i < length bs" "a = a + 1 + of_nat i" by (blast elim: addr_rangeE)
    then have "a + of_nat (Suc i) = a + of_nat 0" by (simp add: algebra_simps)
    then show False using offset_eq_iff [of "Suc i" 0 a] i(1) Cons.prems(3) by simp
  qed
  then have "bytes_at (rd s2) (a + 1) bs"
    using bytes_at_cong [OF s1(3), of "rd s2"] s2(4) \<open>addr_range (a + 1) (length bs) \<subseteq> R\<close> by blast
  with s1 s2 show ?case by (intro exI [of _ s2]) (auto simp: bytes_at_Cons addr_range_Suc)
qed

text \<open>
  The copying loop moves a byte string, also onto itself, as long as no byte is overwritten
  before it is read; memory outside the destination keeps its contents.
\<close>

lemma cpy_run:
  assumes "ok R s" and "addr_range dst (length bs) \<subseteq> R" and "addr_range src (length bs) \<subseteq> R"
    and "length bs \<le> 4294967296" and "bytes_at (rd s) src bs"
    and "\<forall>i j. i < j \<longrightarrow> j < length bs \<longrightarrow> src + of_nat j \<noteq> dst + of_nat i"
  shows "\<exists>s'. cpy (length bs) dst src s = Some s' \<and> ok R s' \<and> frame s' = frame s \<and> bytes_at (rd s') dst bs \<and>
     (\<forall>b \<in> R. b \<notin> addr_range dst (length bs) \<longrightarrow> rd s' b = rd s b)"
  using assms
proof (induction bs arbitrary: dst src s)
  case Nil
  then show ?case by (simp add: cpy_0 bytes_at_Nil)
next
  case (Cons b bs)
  from Cons.prems(2,3) have d: "dst \<in> R" "addr_range (dst + 1) (length bs) \<subseteq> R" "addr_range (src + 1) (length bs) \<subseteq> R"
    by (simp_all add: addr_range_Suc)
  from Cons.prems(5) have src: "rd s src = Some b" "bytes_at (rd s) (src + 1) bs" by (simp_all add: bytes_at_Cons)
  from wr_some [OF Cons.prems(1) d(1), of b] obtain s1 where
    s1: "wr dst b s = Some s1" "ok R s1" "frame s1 = frame s" "rd s1 dst = Some b"
      "\<forall>c \<in> R. c \<noteq> dst \<longrightarrow> rd s1 c = rd s c" by blast
  have apart: "src + 1 + of_nat j \<noteq> dst" if "j < length bs" for j
    using Cons.prems(6) [rule_format, of 0 "Suc j"] that by (simp add: algebra_simps)
  have "bytes_at (rd s1) (src + 1) bs"
  proof (rule bytes_at_cong [OF src(2)])
    fix x assume x: "x \<in> addr_range (src + 1) (length bs)"
    then obtain j where "j < length bs" "x = src + 1 + of_nat j" by (rule addr_rangeE)
    then have "x \<noteq> dst" using apart by simp
    then show "rd s1 x = rd s x" using s1(5) x d(3) by auto
  qed
  moreover have "src + 1 + of_nat j \<noteq> dst + 1 + of_nat i" if "i < j" "j < length bs" for i j
    using Cons.prems(6) [rule_format, of "Suc i" "Suc j"] that by (simp add: algebra_simps)
  ultimately obtain s' where
    s': "cpy (length bs) (dst + 1) (src + 1) s1 = Some s'" "ok R s'" "frame s' = frame s1" "bytes_at (rd s') (dst + 1) bs"
      "\<forall>c \<in> R. c \<notin> addr_range (dst + 1) (length bs) \<longrightarrow> rd s' c = rd s1 c"
    using Cons.IH [OF s1(2) d(2,3)] Cons.prems(4) by auto
  have "dst \<notin> addr_range (dst + 1) (length bs)"
  proof
    assume "dst \<in> addr_range (dst + 1) (length bs)"
    then obtain i where i: "i < length bs" "dst = dst + 1 + of_nat i" by (rule addr_rangeE)
    then have "dst + of_nat (Suc i) = dst + of_nat 0" by (simp add: algebra_simps)
    then show False using offset_eq_iff [of "Suc i" 0 dst] i(1) Cons.prems(4) by simp
  qed
  then have "rd s' dst = Some b" using s'(5) s1(4) d(1) by simp
  with s' s1 src(1) show ?case
    by (intro exI [of _ s']) (auto simp: cpy_Suc bytes_at_Cons addr_range_Suc)
qed

lemma cpy_self:
  assumes "ok R s" and "addr_range a (length bs) \<subseteq> R" and "length bs \<le> 4294967296" and "bytes_at (rd s) a bs"
  shows "\<exists>s'. cpy (length bs) a a s = Some s' \<and> ok R s' \<and> frame s' = frame s \<and> bytes_at (rd s') a bs \<and>
     (\<forall>b \<in> R. b \<notin> addr_range a (length bs) \<longrightarrow> rd s' b = rd s b)"
  using cpy_run [OF assms(1,2,2,3,4)] offset_eq_iff assms(3) by auto

lemma cpy_apart:
  assumes "ok R s" and "addr_range dst (length bs) \<subseteq> R" and "addr_range src (length bs) \<subseteq> R"
    and "length bs \<le> 4294967296" and "bytes_at (rd s) src bs" and "addr_range dst (length bs) \<inter> addr_range src (length bs) = {}"
  shows "\<exists>s'. cpy (length bs) dst src s = Some s' \<and> ok R s' \<and> frame s' = frame s \<and> bytes_at (rd s') dst bs \<and>
     (\<forall>b \<in> R. b \<notin> addr_range dst (length bs) \<longrightarrow> rd s' b = rd s b)"
proof (rule cpy_run [OF assms(1-5)])
  show "\<forall>i j. i < j \<longrightarrow> j < length bs \<longrightarrow> src + of_nat j \<noteq> dst + of_nat i"
  proof (intro allI impI)
    fix i j :: nat assume "i < j" "j < length bs"
    then have "src + of_nat j \<in> addr_range src (length bs)" "dst + of_nat i \<in> addr_range dst (length bs)"
      by (auto intro: addr_rangeI)
    with assms(6) show "src + of_nat j \<noteq> dst + of_nat i" by auto
  qed
qed

end

section \<open>Mapped memory is such a memory\<close>

definition mapped_region :: "u32 set \<Rightarrow> 'a machine_state_scheme \<Rightarrow> bool" where
  "mapped_region R s \<longleftrightarrow> paging_wf s \<and>
     (\<forall>a \<in> R. \<exists>pa. translate s a = Some pa \<and> frame_of pa \<notin> table_frames s) \<and> inj_on (translate s) R"

text \<open>Everything but the contents of memory.\<close>

definition machine_frame :: "'a machine_state_scheme \<Rightarrow> 'a machine_state_scheme" where
  "machine_frame s = s\<lparr>phys := (\<lambda>_. 0)\<rparr>"

lemma machine_frameD:
  assumes "machine_frame s' = machine_frame s"
  shows "\<exists>m. s' = s\<lparr>phys := m\<rparr>"
proof -
  have "s' = (machine_frame s')\<lparr>phys := phys s'\<rparr>" by (simp add: machine_frame_def)
  also have "\<dots> = s\<lparr>phys := phys s'\<rparr>" unfolding assms by (simp add: machine_frame_def)
  finally show ?thesis by (rule exI [of _ "phys s'"])
qed

lemma machine_frame_phys [simp]: "machine_frame (s\<lparr>phys := m\<rparr>) = machine_frame s"
  by (simp add: machine_frame_def)

lemma table_frames_same:
  assumes "paging_wf s" and "f \<notin> table_frames s" and "same_outside f (phys s) m"
  shows "table_frames (s\<lparr>phys := m\<rparr>) = table_frames s"
  unfolding table_frames_def by (rule Collect_cong) (metis outside_tables(1) [OF assms])

lemma mapped_region_store:
  assumes "mapped_region R s" and "a \<in> R"
  obtains pa where "translate s a = Some pa" "vstore8 a v s = Some (s\<lparr>phys := (phys s)(pa := v)\<rparr>)"
    "mapped_region R (s\<lparr>phys := (phys s)(pa := v)\<rparr>)"
    "\<forall>va. translate (s\<lparr>phys := (phys s)(pa := v)\<rparr>) va = translate s va"
proof -
  from assms obtain pa where pa: "translate s a = Some pa" "frame_of pa \<notin> table_frames s" and wf: "paging_wf s"
    by (auto simp: mapped_region_def)
  have out: "same_outside (frame_of pa) (phys s) ((phys s)(pa := v))" by (auto simp: same_outside_def)
  note o = outside_tables [OF wf pa(2) out] and tab = table_frames_same [OF wf pa(2) out]
  have tr: "translate (s\<lparr>phys := (phys s)(pa := v)\<rparr>) = translate s" using o(3) by (rule ext)
  have "mapped_region R (s\<lparr>phys := (phys s)(pa := v)\<rparr>)"
    using assms(1) o(4) by (simp add: mapped_region_def tr tab)
  then show thesis using that pa(1) tr by (simp add: vstore8_def)
qed

lemma mapped_region_cong:
  assumes "phys s1 = phys s" "cr3 s1 = cr3 s" "cr0_pg s1 = cr0_pg s"
  shows "mapped_region R s1 = mapped_region R s" "vload8 s1 = vload8 s"
proof -
  note pc = paging_cong [OF assms]
  have tr: "translate s1 = translate s" using pc(2) by (rule ext)
  show "mapped_region R s1 = mapped_region R s" by (simp add: mapped_region_def tr pc(3,4))
  show "vload8 s1 = vload8 s" by (rule ext) (simp add: vload8_def tr assms(1))
qed

interpretation vm: byte_memory vload8 vstore8 vmemcpy mapped_region machine_frame
proof (unfold_locales, goal_cases)
  case (1 R s a)
  then show ?case by (auto simp: mapped_region_def vload8_def)
next
  case (2 R s a v)
  from mapped_region_store [OF 2] obtain pa where
    pa: "translate s a = Some pa" "vstore8 a v s = Some (s\<lparr>phys := (phys s)(pa := v)\<rparr>)"
      "mapped_region R (s\<lparr>phys := (phys s)(pa := v)\<rparr>)"
      "\<forall>va. translate (s\<lparr>phys := (phys s)(pa := v)\<rparr>) va = translate s va" .
  have "vload8 (s\<lparr>phys := (phys s)(pa := v)\<rparr>) b = vload8 s b" if "b \<in> R" "b \<noteq> a" for b
  proof -
    from 2(1) that(1) obtain pb where pb: "translate s b = Some pb" by (auto simp: mapped_region_def)
    then have "pb \<noteq> pa" using 2 that pa(1) unfolding mapped_region_def by (metis inj_onD)
    then show ?thesis using pa(4) pb by (simp add: vload8_def)
  qed
  then show ?case using pa by (intro exI [of _ "s\<lparr>phys := (phys s)(pa := v)\<rparr>"]) (simp add: vload8_def)
qed simp_all

text \<open>
  The same interface, with the address space as part of what a store leaves alone: the
  stores do not touch the page tables, so that every page stays mapped where it is, with
  its protection.
\<close>

definition space_view ::
    "'a machine_state_scheme \<Rightarrow> 'a machine_state_scheme \<times> (u32 \<Rightarrow> u32 option) \<times> (u32 \<Rightarrow> u32)" where
  "space_view s = (machine_frame s, lookup_pte s, \<lambda>va. read_pde s (pd_index va))"

lemma space_viewD:
  assumes "space_view s' = space_view s"
  shows "machine_frame s' = machine_frame s" "translate s' = translate s"
    "user_accessible s' = user_accessible s" "free_frames s' = free_frames s"
proof -
  have l: "lookup_pte s' = lookup_pte s" and p: "\<And>va. read_pde s' (pd_index va) = read_pde s (pd_index va)"
    using assms by (simp_all add: space_view_def fun_eq_iff)
  show "machine_frame s' = machine_frame s" using assms by (simp add: space_view_def)
  then obtain m where "s' = s\<lparr>phys := m\<rparr>" using machine_frameD by blast
  then show "free_frames s' = free_frames s" "translate s' = translate s"
    using l by (simp_all add: translate_def fun_eq_iff)
  show "user_accessible s' = user_accessible s" by (rule ext) (simp add: user_accessible_def l p split: option.splits)
qed

lemma space_view_outside:
  assumes "paging_wf s" and "f \<notin> table_frames s" and "same_outside f (phys s) m"
  shows "space_view (s\<lparr>phys := m\<rparr>) = space_view s"
  using outside_tables(1) [OF assms pd_index_less] outside_tables(2) [OF assms] by (simp add: space_view_def fun_eq_iff)

interpretation vmf: byte_memory vload8 vstore8 vmemcpy mapped_region space_view
proof (unfold_locales, goal_cases)
  case (1 R s a)
  then show ?case by (rule vm.rd_some)
next
  case (2 R s a v)
  from vm.wr_some [OF 2, of v] obtain s' where
    s': "vstore8 a v s = Some s'" "mapped_region R s'" "vload8 s' a = Some v" "\<forall>b \<in> R. b \<noteq> a \<longrightarrow> vload8 s' b = vload8 s b"
    by blast
  from 2 obtain pa where pa: "translate s a = Some pa" "frame_of pa \<notin> table_frames s" and wf: "paging_wf s"
    by (auto simp: mapped_region_def)
  have "same_outside (frame_of pa) (phys s) ((phys s)(pa := v))" by (auto simp: same_outside_def)
  from space_view_outside [OF wf pa(2) this] have "space_view s' = space_view s"
    using s'(1) pa(1) by (auto simp: vstore8_def)
  then show ?case using s' by blast
qed simp_all

text \<open>A half word is two bytes.\<close>

lemma vstore16_run:
  assumes "mapped_region R s" and "a \<in> R" and "a + 1 \<in> R"
  shows "\<exists>s'. vstore16 a v s = Some s' \<and> mapped_region R s' \<and> machine_frame s' = machine_frame s \<and>
     bytes_at (vload8 s') a [ucast v, ucast (drop_bit 8 v)] \<and> (\<forall>b \<in> R. b \<notin> {a, a + 1} \<longrightarrow> vload8 s' b = vload8 s b)"
proof -
  from vm.wr_some [OF assms(1,2), of "ucast v"] obtain s1 where
    s1: "vstore8 a (ucast v) s = Some s1" "mapped_region R s1" "machine_frame s1 = machine_frame s"
      "vload8 s1 a = Some (ucast v)" "\<forall>b \<in> R. b \<noteq> a \<longrightarrow> vload8 s1 b = vload8 s b" by blast
  from vm.wr_some [OF s1(2) assms(3), of "ucast (drop_bit 8 v)"] obtain s2 where
    s2: "vstore8 (a + 1) (ucast (drop_bit 8 v)) s1 = Some s2" "mapped_region R s2" "machine_frame s2 = machine_frame s1"
      "vload8 s2 (a + 1) = Some (ucast (drop_bit 8 v))" "\<forall>b \<in> R. b \<noteq> a + 1 \<longrightarrow> vload8 s2 b = vload8 s1 b" by blast
  show ?thesis
    using s1 s2 assms(2) by (intro exI [of _ s2]) (auto simp: vstore16_def bytes_at_Cons bytes_at_Nil)
qed

lemma vload16_bytes_at: "bytes_at (vload8 s) a [b0, b1] \<Longrightarrow> vload16 s a = Some (ucast b0 OR push_bit 8 (ucast b1))"
  by (simp add: vload16_def bytes_at_Cons)

end
