(* ===== verification/Disk.thy ===== *)
theory Disk
  imports Heap Region Io
begin

text \<open>
  The disk driver: \<^verbatim>\<open>kernel/drivers/disk.c\<close>. A sector is read from the primary ATA channel
  by programmed I/O, first into the static buffer \<^verbatim>\<open>dma_buffer\<close> (\<^verbatim>\<open>dma_buffer.asm\<close>; its address
  is a parameter) and then to the caller's address. The controller is a parameter: a
  \<^verbatim>\<open>device\<close> that keeps the promises of the ATA protocol, stated in the locale \<^verbatim>\<open>ata_disk\<close> over
  a reference model of the task file registers.
\<close>

section \<open>The driver\<close>

record disk_state = heap_state +
  ports :: io_state

partial_function (option) wait_disk_ready :: "device \<Rightarrow> 'a io_state_scheme \<Rightarrow> 'a io_state_scheme option" where
  "wait_disk_ready dev s =
     (let (status, s) = port_byte_in dev 0x1F7 s
      in if status AND 0xC0 \<noteq> 0x40 then wait_disk_ready dev s else Some s)"

text \<open>The loop that reads \<^verbatim>\<open>n\<close> more half words into the buffer, from index \<^verbatim>\<open>i\<close> on.\<close>

fun read_words :: "device \<Rightarrow> u32 \<Rightarrow> nat \<Rightarrow> u32 \<Rightarrow> 'a disk_state_scheme \<Rightarrow> 'a disk_state_scheme option" where
  "read_words dev dma_buffer 0 i s = Some s"
| "read_words dev dma_buffer (Suc n) i s =
     (let (w, p) = port_word_in dev 0x1F0 (ports s)
      in vstore16 (dma_buffer + 2 * i) w (s\<lparr>ports := p\<rparr>) \<bind> read_words dev dma_buffer n (i + 1))"

definition read_disk_sector ::
    "device \<Rightarrow> u32 \<Rightarrow> u32 \<Rightarrow> u32 \<Rightarrow> 'a disk_state_scheme \<Rightarrow> 'a disk_state_scheme option" where
  "read_disk_sector dev dma_buffer lba buffer_out s =
     do {
       p \<leftarrow> wait_disk_ready dev (ports s);
       let p = port_byte_out 0x1F6 (0xE0 OR ucast (drop_bit 24 lba AND 0x0F)) p;
       let p = port_byte_out 0x1F2 1 p;
       let p = port_byte_out 0x1F3 (ucast lba) p;
       let p = port_byte_out 0x1F4 (ucast (drop_bit 8 lba)) p;
       let p = port_byte_out 0x1F5 (ucast (drop_bit 16 lba)) p;
       let p = port_byte_out 0x1F7 0x20 p;
       p \<leftarrow> wait_disk_ready dev p;
       s \<leftarrow> read_words dev dma_buffer 256 0 (s\<lparr>ports := p\<rparr>);
       vmemcpy 512 buffer_out dma_buffer s
     }"

section \<open>The ATA protocol\<close>

text \<open>
  The task file of the controller as the port accesses leave it: sector count, the three
  bytes of the address, the drive register, and the status that the host has read last
  since the last command. The host may write the registers and give a command only after
  it has seen the drive ready (BSY clear, DRDY set). The command 0x20 (READ SECTORS) for one
  sector, with drive 0 selected in LBA mode (the top four bits of the drive register are
  1110), starts a transfer; reading the data port moves to the next half word.
\<close>

record ata =
  ata_count :: u8
  ata_low :: u8
  ata_mid :: u8
  ata_high :: u8
  ata_drive :: u8
  ata_status :: "u8 option"
  ata_pos :: "nat option"

definition ata_reset :: ata where
  "ata_reset = \<lparr>ata_count = 0, ata_low = 0, ata_mid = 0, ata_high = 0, ata_drive = 0,
     ata_status = None, ata_pos = None\<rparr>"

text \<open>Bits of the status register: 7 is BSY, 6 is DRDY, 3 is DRQ.\<close>

definition ata_ready :: "ata \<Rightarrow> bool" where
  "ata_ready a \<longleftrightarrow> (case ata_status a of None \<Rightarrow> False | Some v \<Rightarrow> \<not> bit v 7 \<and> bit v 6)"

definition ata_command :: "u8 \<Rightarrow> ata \<Rightarrow> ata" where
  "ata_command v a =
     a\<lparr>ata_status := None,
       ata_pos := (if ata_ready a \<and> v = 0x20 \<and> ata_count a = 1 \<and> drop_bit 4 (ata_drive a) = 0xE
                   then Some 0 else None)\<rparr>"

fun ata_step :: "io_event \<Rightarrow> ata \<Rightarrow> ata" where
  "ata_step (OutB p v) a =
     (if p = 0x1F7 then ata_command v a
      else if \<not> ata_ready a then a
      else if p = 0x1F2 then a\<lparr>ata_count := v\<rparr>
      else if p = 0x1F3 then a\<lparr>ata_low := v\<rparr>
      else if p = 0x1F4 then a\<lparr>ata_mid := v\<rparr>
      else if p = 0x1F5 then a\<lparr>ata_high := v\<rparr>
      else if p = 0x1F6 then a\<lparr>ata_drive := v\<rparr>
      else a)"
| "ata_step (InW p v) a = (if p = 0x1F0 then a\<lparr>ata_pos := map_option Suc (ata_pos a)\<rparr> else a)"
| "ata_step (InB p v) a = (if p = 0x1F7 then a\<lparr>ata_status := Some v\<rparr> else a)"
| "ata_step (OutL p v) a = a"
| "ata_step (InL p v) a = a"

definition ata_of :: "io_event list \<Rightarrow> ata" where
  "ata_of t = fold ata_step t ata_reset"

definition ata_lba :: "ata \<Rightarrow> u32" where
  "ata_lba a = push_bit 24 (ucast (ata_drive a) AND 0x0F) OR push_bit 16 (ucast (ata_high a)) OR
     push_bit 8 (ucast (ata_mid a)) OR ucast (ata_low a)"

lemma ata_of_snoc: "ata_of (t @ [e]) = ata_step e (ata_of t)"
  by (simp add: ata_of_def)

lemma status_ready: "(v :: u8) AND 0xC0 = 0x40 \<longleftrightarrow> \<not> bit v 7 \<and> bit v 6"
proof -
  have "v AND 0xC0 = 0x40 \<longleftrightarrow> (\<forall>n < 8. bit (v AND 0xC0) n = bit (0x40 :: u8) n)"
    by (auto simp: bit_eq_iff)
  also have "\<dots> \<longleftrightarrow> \<not> bit v 7 \<and> bit v 6"
    by (simp add: numeral_eq_Suc All_less_Suc bit_simps bit_numeral_rec)
  finally show ?thesis .
qed

text \<open>The half word at position \<^verbatim>\<open>k\<close> of a sector, little endian.\<close>

definition sector_word :: "bytes \<Rightarrow> nat \<Rightarrow> u16" where
  "sector_word bs k = ucast (bs ! (2 * k)) OR push_bit 8 (ucast (bs ! (2 * k + 1)))"

lemma sector_word_bytes:
  "(ucast (sector_word bs k) :: u8) = bs ! (2 * k)" "(ucast (drop_bit 8 (sector_word bs k)) :: u8) = bs ! (2 * k + 1)"
proof -
  show "(ucast (sector_word bs k) :: u8) = bs ! (2 * k)"
    by (rule bit_word_eqI) (auto simp: sector_word_def bit_simps)
  show "(ucast (drop_bit 8 (sector_word bs k)) :: u8) = bs ! (2 * k + 1)"
    by (rule bit_word_eqI) (auto simp: sector_word_def bit_simps dest: bit_imp_le_length)
qed

text \<open>
  What the driver relies on: polling the status register ends with the drive ready; once a
  read has been started, a status without BSY shows DRQ (the sectors of the image can be
  read without an error); and when the host has seen such a status, the data port delivers
  the half words of the addressed sector of the image in order. Sectors have 512 bytes.
\<close>

definition poll :: "device \<Rightarrow> io_event list \<Rightarrow> io_event list" where
  "poll dev t = t @ [InB 0x1F7 (dev_inb dev t 0x1F7)]"

locale ata_disk =
  fixes dev :: device and img :: "u32 \<Rightarrow> bytes"
  assumes ready: "\<exists>n. dev_inb dev ((poll dev ^^ n) t) 0x1F7 AND 0xC0 = 0x40"
    and data_request: "ata_pos (ata_of t) = Some 0 \<Longrightarrow> \<not> bit (dev_inb dev t 0x1F7) 7 \<Longrightarrow>
       bit (dev_inb dev t 0x1F7) 3"
    and data: "ata_pos (ata_of t) = Some k \<Longrightarrow> k < 256 \<Longrightarrow>
       ata_status (ata_of t) = Some v \<Longrightarrow> \<not> bit v 7 \<Longrightarrow> bit v 3 \<Longrightarrow>
       dev_inw dev t 0x1F0 = sector_word (img (ata_lba (ata_of t))) k"
    and sector_length: "length (img lba) = 512"
begin

text \<open>A wait polls until it has seen the drive ready.\<close>

lemma wait_polls:
  "\<exists>n. wait_disk_ready dev p = Some (p\<lparr>io_trace := poll dev ((poll dev ^^ n) (io_trace p))\<rparr>) \<and>
     dev_inb dev ((poll dev ^^ n) (io_trace p)) 0x1F7 AND 0xC0 = 0x40"
proof -
  from ready [of "io_trace p"] obtain n where "dev_inb dev ((poll dev ^^ n) (io_trace p)) 0x1F7 AND 0xC0 = 0x40" ..
  then show ?thesis
  proof (induction n arbitrary: p)
    case 0
    then have "wait_disk_ready dev p = Some (p\<lparr>io_trace := poll dev ((poll dev ^^ 0) (io_trace p))\<rparr>)"
      by (subst wait_disk_ready.simps) (simp add: port_byte_in_def Let_def poll_def)
    with 0 show ?case by blast
  next
    case (Suc n)
    let ?p = "p\<lparr>io_trace := poll dev (io_trace p)\<rparr>"
    have step: "wait_disk_ready dev p =
        (if dev_inb dev (io_trace p) 0x1F7 AND 0xC0 \<noteq> 0x40 then wait_disk_ready dev ?p else Some ?p)"
      by (subst wait_disk_ready.simps) (simp add: port_byte_in_def Let_def poll_def)
    from Suc.prems have "dev_inb dev ((poll dev ^^ n) (io_trace ?p)) 0x1F7 AND 0xC0 = 0x40"
      by (simp add: funpow_swap1)
    from Suc.IH [OF this] obtain m where
      m: "wait_disk_ready dev ?p = Some (?p\<lparr>io_trace := poll dev ((poll dev ^^ m) (io_trace ?p))\<rparr>)"
        "dev_inb dev ((poll dev ^^ m) (io_trace ?p)) 0x1F7 AND 0xC0 = 0x40" by blast
    show ?case
    proof (cases "dev_inb dev (io_trace p) 0x1F7 AND 0xC0 \<noteq> 0x40")
      case True
      then show ?thesis using step m by (intro exI [of _ "Suc m"]) (simp add: funpow_swap1)
    next
      case False
      then show ?thesis using step by (intro exI [of _ 0]) simp
    qed
  qed
qed

lemma ata_of_polls: "ata_of ((poll dev ^^ n) t) =
    (if n = 0 then ata_of t else (ata_of t)\<lparr>ata_status := ata_status (ata_of ((poll dev ^^ n) t))\<rparr>)"
proof (induction n)
  case (Suc n)
  have "ata_of ((poll dev ^^ Suc n) t) =
      (ata_of ((poll dev ^^ n) t))\<lparr>ata_status := Some (dev_inb dev ((poll dev ^^ n) t) 0x1F7)\<rparr>"
    by (simp add: poll_def ata_of_snoc)
  with Suc.IH show ?case by (simp split: if_splits) (metis ata.surjective ata.update_convs(6) ata.select_convs(6))
qed simp

lemma wait_ata:
  obtains t v where "wait_disk_ready dev p = Some (p\<lparr>io_trace := t\<rparr>)"
    "ata_of t = (ata_of (io_trace p))\<lparr>ata_status := Some v\<rparr>" "\<not> bit v 7" "bit v 6"
    "ata_pos (ata_of (io_trace p)) = Some 0 \<Longrightarrow> bit v 3"
proof -
  from wait_polls [of p] obtain n where
    n: "wait_disk_ready dev p = Some (p\<lparr>io_trace := poll dev ((poll dev ^^ n) (io_trace p))\<rparr>)"
      "dev_inb dev ((poll dev ^^ n) (io_trace p)) 0x1F7 AND 0xC0 = 0x40" by blast
  let ?t = "(poll dev ^^ n) (io_trace p)"
  have v: "\<not> bit (dev_inb dev ?t 0x1F7) 7" "bit (dev_inb dev ?t 0x1F7) 6"
    using n(2) by (simp_all add: status_ready)
  have pos: "ata_pos (ata_of ?t) = ata_pos (ata_of (io_trace p))"
    by (subst ata_of_polls) simp
  have "ata_of (poll dev ?t) = (ata_of (io_trace p))\<lparr>ata_status := Some (dev_inb dev ?t 0x1F7)\<rparr>"
    by (simp add: poll_def ata_of_snoc, subst ata_of_polls) simp
  from that [OF n(1) this v] show thesis using data_request [of ?t] v(1) pos by simp
qed

end

text \<open>The address that the four register writes of the driver select.\<close>

lemma ata_lba_split:
  "ata_lba a = lba AND 0x0FFFFFFF"
  if "ata_drive a = 0xE0 OR ucast (drop_bit 24 lba AND 0x0F)" "ata_high a = ucast (drop_bit 16 lba)"
    "ata_mid a = ucast (drop_bit 8 lba)" "ata_low a = ucast lba"
proof -
  have m: "(0x0F :: u32) = mask 4" "(0x0FFFFFFF :: u32) = mask 28" by (simp_all add: mask_eq_exp_minus_1)
  have d: "(ucast (0xE0 OR ucast (x AND 0x0F) :: u8) :: u32) AND 0x0F = x AND 0x0F" for x :: u32
  proof -
    have e: "(0xE0 :: u8) = push_bit 5 7" by (simp add: push_bit_eq_mult)
    have "\<not> bit (0xE0 :: u8) n" if "n < 4" for n using that by (simp only: e bit_push_bit_iff) simp
    then show ?thesis unfolding m(1) by (intro bit_word_eqI) (auto simp: bit_simps)
  qed
  show ?thesis unfolding ata_lba_def that d
    unfolding m
  proof (rule bit_word_eqI)
    fix n assume "n < LENGTH(32)"
    then have "n < 8 \<or> 8 \<le> n \<and> n < 16 \<or> 16 \<le> n \<and> n < 24 \<or> 24 \<le> n \<and> n < 32" by auto
    then show "bit (push_bit 24 (drop_bit 24 lba AND mask 4) OR push_bit 16 (ucast (ucast (drop_bit 16 lba) :: u8)) OR
        push_bit 8 (ucast (ucast (drop_bit 8 lba) :: u8)) OR ucast (ucast lba :: u8)) n = bit (lba AND mask 28) n"
      by (elim disjE) (auto simp: bit_simps)
  qed
qed

text \<open>The register writes of the driver start a transfer of the sector.\<close>

lemma ata_read_command:
  fixes lba :: u32
  defines "es \<equiv> [OutB 0x1F6 (0xE0 OR ucast (drop_bit 24 lba AND 0x0F)), OutB 0x1F2 1, OutB 0x1F3 (ucast lba),
      OutB 0x1F4 (ucast (drop_bit 8 lba)), OutB 0x1F5 (ucast (drop_bit 16 lba)), OutB 0x1F7 0x20]"
  assumes "ata_ready a"
  shows "ata_pos (fold ata_step es a) = Some 0" "ata_lba (fold ata_step es a) = lba AND 0x0FFFFFFF"
proof -
  have "drop_bit 4 (0xE0 OR ucast (drop_bit 24 lba AND 0x0F) :: u8) = 0xE"
  proof (rule bit_word_eqI)
    fix n assume "n < LENGTH(8)"
    then have "n < 16" by simp
    then obtain q r where "n = 4 * q + r" "q \<in> {0, 1, 2, 3}" "r \<in> {0, 1, 2, 3}" by (rule digits4)
    then show "bit (drop_bit 4 (0xE0 OR ucast (drop_bit 24 lba AND 0x0F)) :: u8) n = bit (0xE :: u8) n"
      by (elim insertE emptyE) (simp_all add: bit_simps bit_numeral_rec)
  qed
  then show "ata_pos (fold ata_step es a) = Some 0"
    using assms(2) by (simp add: es_def ata_command_def ata_ready_def)
  show "ata_lba (fold ata_step es a) = lba AND 0x0FFFFFFF"
    using assms(2) by (intro ata_lba_split) (simp_all add: es_def ata_command_def ata_ready_def)
qed

section \<open>Words and their bytes\<close>

text \<open>The four bytes of an aligned word lie in one page.\<close>

lemma translate_byte:
  assumes "cr0_pg s" and "translate s a = Some pa" and "4 dvd unat a" and "i < 4"
  shows "translate s (a + of_nat i) = Some (pa + of_nat i)"
proof -
  obtain q where q: "unat a = 4 * q" using assms(3) by (elim dvdE)
  have u: "unat (a + of_nat i) = 4 * q + i" using unat_word_offset [OF assms(3,4)] q by simp
  have q4: "(4 * q + i) div 4 = q" "4 * q div 4 = q" using assms(4) by simp_all
  have d: "(4 * q + i) div 4096 = 4 * q div 4096" "(4 * q + i) div 4194304 = 4 * q div 4194304"
    using div_mult2_eq [of "4 * q + i" 4 1024] div_mult2_eq [of "4 * q" 4 1024]
      div_mult2_eq [of "4 * q + i" 4 1048576] div_mult2_eq [of "4 * q" 4 1048576] q4 by simp_all
  have m: "(4 * q + i) mod 4096 = 4 * q mod 4096 + i"
    using mult_div_mod_eq [of 4096 "4 * q + i"] mult_div_mod_eq [of 4096 "4 * q"] d(1) by linarith
  have "pd_index (a + of_nat i) = pd_index a" "pt_index (a + of_nat i) = pt_index a"
    by (simp_all add: word_unat_eq_iff unat_pd_index unat_pt_index u q d)
  moreover have "page_offset (a + of_nat i) = page_offset a + of_nat i"
  proof -
    have "4 * q mod 4096 + i < 4294967296" using assms(4) mod_less_divisor [of 4096 "4 * q"] by linarith
    then show ?thesis
      using assms(4) by (simp add: word_unat_eq_iff unat_page_offset u q m unat_plus_u32_small unat_of_nat_u32)
  qed
  ultimately show ?thesis using assms(1,2) by (auto simp: translate_def lookup_pte_def Let_def split: if_splits)
qed

lemma vload32_bytes_at:
  assumes "mapped_region R s" and "addr_range a 4 \<subseteq> R" and "4 dvd unat a" and "bytes_at (vload8 s) a [b0, b1, b2, b3]"
  shows "vload32 s a = Some (ucast b0 OR push_bit 8 (ucast b1) OR push_bit 16 (ucast b2) OR push_bit 24 (ucast b3))"
proof -
  have wf: "paging_wf s" and "a \<in> R" using assms(1,2) addr_rangeI [of 0 4 a] by (auto simp: mapped_region_def)
  with assms(1) obtain pa where pa: "translate s a = Some pa" by (auto simp: mapped_region_def)
  note tb = translate_byte [OF paging_wfD(1) [OF wf] pa assms(3)]
  have "phys s (pa + of_nat i) = [b0, b1, b2, b3] ! i" if "i < 4" for i
    using assms(4) [unfolded bytes_at_def, rule_format, of i] tb [OF that] that by (simp add: vload8_def)
  from this [of 0] this [of 1] this [of 2] this [of 3] show ?thesis
    using translate_word(2) [OF wf pa assms(3)] by (simp add: load32_def)
qed

lemma vstore32_run:
  assumes "mapped_region R s" and "addr_range a 4 \<subseteq> R" and "4 dvd unat a"
  shows "\<exists>s'. vstore32 a v s = Some s' \<and> mapped_region R s' \<and> machine_frame s' = machine_frame s \<and>
     (\<forall>b \<in> R. b \<notin> addr_range a 4 \<longrightarrow> vload8 s' b = vload8 s b)"
proof -
  have wf: "paging_wf s" and aR: "a \<in> R" using assms(1,2) addr_rangeI [of 0 4 a] by (auto simp: mapped_region_def)
  with assms(1) obtain pa where pa: "translate s a = Some pa" "frame_of pa \<notin> table_frames s" by (auto simp: mapped_region_def)
  note w = translate_word [OF wf pa(1) assms(3)]
  let ?s = "s\<lparr>phys := store32 (phys s) pa v\<rparr>"
  note o = outside_tables [OF wf pa(2) w(4) [of v]] and tab = table_frames_same [OF wf pa(2) w(4) [of v]]
  have tr: "translate ?s = translate s" using o(3) by (rule ext)
  have "mapped_region R ?s" using assms(1) o(4) by (simp add: mapped_region_def tr tab)
  moreover have "vload8 ?s b = vload8 s b" if b: "b \<in> R" "b \<notin> addr_range a 4" for b
  proof -
    from assms(1) b(1) obtain pb where pb: "translate s b = Some pb" by (auto simp: mapped_region_def)
    have "pb \<noteq> pa + of_nat i" if i: "i < 4" for i
    proof -
      have "a + of_nat i \<in> R" "b \<noteq> a + of_nat i" using assms(2) b addr_rangeI [OF i, of a] by auto
      then show ?thesis
        using translate_byte [OF paging_wfD(1) [OF wf] pa(1) assms(3) i] pb assms(1) b(1)
        unfolding mapped_region_def by (metis inj_onD)
    qed
    from this [of 0] this [of 1] this [of 2] this [of 3] show ?thesis
      using pb by (simp add: vload8_def tr store32_apply)
  qed
  ultimately show ?thesis using w(3) by (intro exI [of _ ?s]) simp
qed

section \<open>Reading a sector\<close>

text \<open>The ports are not part of the memory.\<close>

lemma ports_frame [kernel_frame, simp]:
  "vload8 (s\<lparr>ports := p\<rparr>) = vload8 s" "mapped_region R (s\<lparr>ports := p\<rparr>) = mapped_region R s"
proof -
  have c: "phys (s\<lparr>ports := p\<rparr>) = phys s" "cr3 (s\<lparr>ports := p\<rparr>) = cr3 s" "cr0_pg (s\<lparr>ports := p\<rparr>) = cr0_pg s" by simp_all
  note pc = paging_cong [OF c]
  have tr: "translate (s\<lparr>ports := p\<rparr>) = translate s" using pc(2) by (rule ext)
  show "vload8 (s\<lparr>ports := p\<rparr>) = vload8 s" by (rule ext) (simp add: vload8_def tr)
  show "mapped_region R (s\<lparr>ports := p\<rparr>) = mapped_region R s" by (simp add: mapped_region_def tr pc)
qed

text \<open>Everything but the contents of memory and the port history.\<close>

definition disk_frame :: "'a disk_state_scheme \<Rightarrow> 'a disk_state_scheme" where
  "disk_frame s = machine_frame (s\<lparr>ports := \<lparr>io_trace = [], intr_flag = False\<rparr>\<rparr>)"

lemma disk_frame_ports [simp]: "disk_frame (s\<lparr>ports := p\<rparr>) = disk_frame s"
  by (simp add: disk_frame_def)

lemma disk_frame_machine: "machine_frame s' = machine_frame s \<Longrightarrow> disk_frame s' = disk_frame s \<and> ports s' = ports s"
  using machine_frameD [of s' s] by (auto simp: disk_frame_def machine_frame_def)

lemma disk_frame_fields:
  assumes "disk_frame s' = disk_frame s"
  shows "\<exists>m p. s' = s\<lparr>phys := m, ports := p\<rparr>"
proof -
  have "\<exists>m. s'\<lparr>ports := \<lparr>io_trace = [], intr_flag = False\<rparr>\<rparr> = s\<lparr>ports := \<lparr>io_trace = [], intr_flag = False\<rparr>, phys := m\<rparr>"
    using assms unfolding disk_frame_def by (rule machine_frameD)
  then obtain m where m: "s'\<lparr>ports := \<lparr>io_trace = [], intr_flag = False\<rparr>\<rparr> =
      s\<lparr>ports := \<lparr>io_trace = [], intr_flag = False\<rparr>, phys := m\<rparr>" ..
  have "s' = s'\<lparr>ports := \<lparr>io_trace = [], intr_flag = False\<rparr>\<rparr>\<lparr>ports := ports s'\<rparr>" by simp
  also have "\<dots> = s\<lparr>phys := m, ports := ports s'\<rparr>" unfolding m by simp
  finally show ?thesis by (intro exI)
qed

context ata_disk
begin

lemma read_words_run:
  assumes "mapped_region R s" and "addr_range (a + 2 * of_nat k) (2 * n) \<subseteq> R" and "n + k = 256"
    and "ata_pos (ata_of (io_trace (ports s))) = Some k" and "ata_status (ata_of (io_trace (ports s))) = Some v"
    and "ata_lba (ata_of (io_trace (ports s))) = lba" and "\<not> bit v 7" and "bit v 3"
  shows "\<exists>s'. read_words dev a n (of_nat k) s = Some s' \<and> mapped_region R s' \<and> disk_frame s' = disk_frame s \<and>
     bytes_at (vload8 s') (a + 2 * of_nat k) (drop (2 * k) (img lba)) \<and>
     (\<forall>b \<in> R. b \<notin> addr_range (a + 2 * of_nat k) (2 * n) \<longrightarrow> vload8 s' b = vload8 s b)"
  using assms
proof (induction n arbitrary: k s)
  case 0
  then show ?case by (simp add: sector_length bytes_at_Nil)
next
  case (Suc n)
  let ?b = "a + 2 * of_nat k" and ?t = "io_trace (ports s)"
  have k: "k < 256" using Suc.prems(3) by simp
  define w where "w = sector_word (img lba) k"
  have dw: "dev_inw dev ?t 0x1F0 = w" using data [OF Suc.prems(4) k Suc.prems(5,7,8)] Suc.prems(6) by (simp add: w_def)
  define p where "p = (ports s)\<lparr>io_trace := ?t @ [InW 0x1F0 w]\<rparr>"
  have in_w: "port_word_in dev 0x1F0 (ports s) = (w, p)" by (simp add: port_word_in_def Let_def dw p_def)
  have split: "addr_range ?b (2 * Suc n) = insert ?b (insert (?b + 1) (addr_range (?b + 1 + 1) (2 * n)))"
    by (simp add: addr_range_Suc)
  have nb: "?b + 1 + 1 = a + 2 * of_nat (Suc k)" by (simp add: algebra_simps)
  from Suc.prems(2) have R: "?b \<in> R" "?b + 1 \<in> R" "addr_range (a + 2 * of_nat (Suc k)) (2 * n) \<subseteq> R"
    unfolding split nb by auto
  have "mapped_region R (s\<lparr>ports := p\<rparr>)" using Suc.prems(1) by simp
  from vstore16_run [OF this R(1,2), of w] obtain s1 where
    s1: "vstore16 ?b w (s\<lparr>ports := p\<rparr>) = Some s1" "mapped_region R s1" "machine_frame s1 = machine_frame (s\<lparr>ports := p\<rparr>)"
      "bytes_at (vload8 s1) ?b [ucast w, ucast (drop_bit 8 w)]" "\<forall>b \<in> R. b \<notin> {?b, ?b + 1} \<longrightarrow> vload8 s1 b = vload8 s b"
    by auto
  from disk_frame_machine [OF s1(3)] have f1: "disk_frame s1 = disk_frame s" "ports s1 = p" by simp_all
  have pre: "ata_pos (ata_of (io_trace (ports s1))) = Some (Suc k)" "ata_status (ata_of (io_trace (ports s1))) = Some v"
    "ata_lba (ata_of (io_trace (ports s1))) = lba"
    using Suc.prems(4-6) by (simp_all add: f1 p_def ata_of_snoc ata_lba_def)
  from Suc.IH [OF s1(2) R(3) _ pre Suc.prems(7,8)] Suc.prems(3) obtain s' where
    s': "read_words dev a n (of_nat (Suc k)) s1 = Some s'" "mapped_region R s'" "disk_frame s' = disk_frame s1"
      "bytes_at (vload8 s') (a + 2 * of_nat (Suc k)) (drop (2 * Suc k) (img lba))"
      "\<forall>b \<in> R. b \<notin> addr_range (a + 2 * of_nat (Suc k)) (2 * n) \<longrightarrow> vload8 s' b = vload8 s1 b" by auto
  have fresh: "?b + of_nat i \<notin> addr_range (a + 2 * of_nat (Suc k)) (2 * n)" if "i < 2" for i
  proof
    assume "?b + of_nat i \<in> addr_range (a + 2 * of_nat (Suc k)) (2 * n)"
    then obtain j where j: "j < 2 * n" "?b + of_nat i = a + 2 * of_nat (Suc k) + of_nat j" by (rule addr_rangeE)
    then have "?b + of_nat i = ?b + of_nat (2 + j)" by (simp add: algebra_simps)
    then show False using offset_eq_iff [of i "2 + j" ?b] j(1) that Suc.prems(3) by simp
  qed
  have keep: "vload8 s' ?b = vload8 s1 ?b" "vload8 s' (?b + 1) = vload8 s1 (?b + 1)"
    using s'(5) R fresh [of 0] fresh [of 1] by simp_all
  have len: "2 * k < length (img lba)" "Suc (2 * k) < length (img lba)" using k by (simp_all add: sector_length)
  have "drop (2 * k) (img lba) = ucast w # ucast (drop_bit 8 w) # drop (2 * Suc k) (img lba)"
    using len sector_word_bytes [of "img lba" k] by (simp add: w_def Cons_nth_drop_Suc flip: Cons_nth_drop_Suc)
  then have "bytes_at (vload8 s') ?b (drop (2 * k) (img lba))"
    using s'(4) s1(4) keep by (simp add: bytes_at_Cons bytes_at_Nil algebra_simps)
  moreover have "vload8 s' b = vload8 s b" if "b \<in> R" "b \<notin> addr_range ?b (2 * Suc n)" for b
    using that s'(5) s1(5) unfolding split nb by simp
  moreover have "read_words dev a (Suc n) (of_nat k) s = Some s'"
    using s1(1) s'(1) in_w by (simp add: add.commute)
  ultimately show ?case using s'(2,3) f1 by auto
qed

lemma read_disk_sector_run:
  assumes "mapped_region R s" and "addr_range a 512 \<subseteq> R" and "addr_range b 512 \<subseteq> R"
    and "b = a \<or> addr_range b 512 \<inter> addr_range a 512 = {}"
  shows "\<exists>s'. read_disk_sector dev a lba b s = Some s' \<and> mapped_region R s' \<and> disk_frame s' = disk_frame s \<and>
     bytes_at (vload8 s') b (img (lba AND 0x0FFFFFFF)) \<and> bytes_at (vload8 s') a (img (lba AND 0x0FFFFFFF)) \<and>
     (\<forall>x \<in> R. x \<notin> addr_range a 512 \<union> addr_range b 512 \<longrightarrow> vload8 s' x = vload8 s x)"
proof -
  let ?sec = "img (lba AND 0x0FFFFFFF)"
  obtain t v where w1: "wait_disk_ready dev (ports s) = Some ((ports s)\<lparr>io_trace := t\<rparr>)"
      "ata_of t = (ata_of (io_trace (ports s)))\<lparr>ata_status := Some v\<rparr>" "\<not> bit v 7" "bit v 6"
    by (rule wait_ata [of "ports s"])
  define p where "p = (ports s)\<lparr>io_trace := t @
     [OutB 0x1F6 (0xE0 OR ucast (drop_bit 24 lba AND 0x0F)), OutB 0x1F2 1, OutB 0x1F3 (ucast lba),
      OutB 0x1F4 (ucast (drop_bit 8 lba)), OutB 0x1F5 (ucast (drop_bit 16 lba)), OutB 0x1F7 0x20]\<rparr>"
  define a1 where "a1 = ata_of (io_trace p)"
  have ata: "ata_pos a1 = Some 0" "ata_lba a1 = lba AND 0x0FFFFFFF"
    unfolding a1_def p_def using w1(2-4) ata_read_command [of "ata_of t" lba]
    by (simp_all add: ata_of_def ata_ready_def)
  obtain t' v' where w2: "wait_disk_ready dev p = Some (p\<lparr>io_trace := t'\<rparr>)"
      "ata_of t' = a1\<lparr>ata_status := Some v'\<rparr>" "\<not> bit v' 7" "bit v' 3"
    using ata(1) by (metis a1_def wait_ata [of p])
  let ?p = "p\<lparr>io_trace := t'\<rparr>"
  have "mapped_region R (s\<lparr>ports := ?p\<rparr>)" using assms(1) by simp
  from read_words_run [OF this, of a 0 256 v' "lba AND 0x0FFFFFFF"] assms(2) ata w2(2-4) obtain s1 where
    s1: "read_words dev a 256 0 (s\<lparr>ports := ?p\<rparr>) = Some s1" "mapped_region R s1" "disk_frame s1 = disk_frame s"
      "bytes_at (vload8 s1) a ?sec" "\<forall>x \<in> R. x \<notin> addr_range a 512 \<longrightarrow> vload8 s1 x = vload8 s x"
    by (auto simp: ata_lba_def)
  have run: "read_disk_sector dev a lba b s = vmemcpy 512 b a s1"
    using w1(1) w2(1) s1(1) by (simp add: read_disk_sector_def port_byte_out_def p_def)
  have len: "length ?sec = 512" by (rule sector_length)
  have "\<exists>s'. vmemcpy 512 b a s1 = Some s' \<and> mapped_region R s' \<and> machine_frame s' = machine_frame s1 \<and>
      bytes_at (vload8 s') b ?sec \<and> (\<forall>x \<in> R. x \<notin> addr_range b 512 \<longrightarrow> vload8 s' x = vload8 s1 x)"
    using assms(4) vm.cpy_self [OF s1(2), of a ?sec] vm.cpy_apart [OF s1(2), of b ?sec a] s1(4) assms(2,3)
    unfolding len by auto
  then obtain s' where s': "vmemcpy 512 b a s1 = Some s'" "mapped_region R s'" "machine_frame s' = machine_frame s1"
      "bytes_at (vload8 s') b ?sec" "\<forall>x \<in> R. x \<notin> addr_range b 512 \<longrightarrow> vload8 s' x = vload8 s1 x" by blast
  have "bytes_at (vload8 s') a ?sec"
  proof (cases "b = a")
    case False
    with assms(4) have "x \<notin> addr_range b 512" if "x \<in> addr_range a 512" for x using that by auto
    then show ?thesis using bytes_at_cong [OF s1(4), of "vload8 s'"] s'(5) assms(2) len by auto
  qed (use s'(4) in simp)
  then show ?thesis
    using run s' s1(3,5) disk_frame_machine [OF s'(3)] by (intro exI [of _ s']) auto
qed

end

text \<open>C37. \<^verbatim>\<open>read_disk_sector\<close> (disk.c) returns and delivers the sector it is asked for: on any drive
  that follows the ATA protocol (registers and commands only after the drive was seen ready,
  data only after the host has seen BSY clear and DRQ set) the 28-bit address is split over
  the registers so that drive 0 reads exactly the sector with that number in LBA mode, both
  waits end, and afterwards the 512
  bytes of the sector stand at the caller's address and in the transfer buffer. Apart from
  these two buffers and the port history nothing changes.\<close>

theorem read_disk_sector_correct:
  assumes "ata_disk dev img" and "mapped_region R s" and "addr_range dma_buffer 512 \<subseteq> R" and "addr_range buf 512 \<subseteq> R"
    and "buf = dma_buffer \<or> addr_range buf 512 \<inter> addr_range dma_buffer 512 = {}"
  shows "\<exists>s'. read_disk_sector dev dma_buffer lba buf s = Some s' \<and> mapped_region R s' \<and> disk_frame s' = disk_frame s \<and>
     bytes_at (vload8 s') buf (img (lba AND 0x0FFFFFFF)) \<and> bytes_at (vload8 s') dma_buffer (img (lba AND 0x0FFFFFFF)) \<and>
     (\<forall>x \<in> R. x \<notin> addr_range dma_buffer 512 \<union> addr_range buf 512 \<longrightarrow> vload8 s' x = vload8 s x)"
  by (rule ata_disk.read_disk_sector_run [OF assms])

section \<open>A drive\<close>

text \<open>
  A drive that serves an image, padded with zeros. After a command it is busy until the
  status has been read once; then it requests the transfer of the data.
\<close>

definition sector_of :: "bytes \<Rightarrow> bytes" where
  "sector_of bs = take 512 (bs @ replicate 512 0)"

definition drive_status :: "ata \<Rightarrow> u8" where
  "drive_status a =
     (case ata_pos a of
        None \<Rightarrow> 0x50
      | Some k \<Rightarrow> if ata_status a = None then 0x80 else if k < 256 then 0x58 else 0x50)"

definition ata_device :: "(u32 \<Rightarrow> bytes) \<Rightarrow> device" where
  "ata_device img =
     \<lparr>dev_inb = (\<lambda>t p. if p = 0x1F7 then drive_status (ata_of t) else 0),
      dev_inw = (\<lambda>t p. if p = 0x1F0 then
         (case (ata_pos (ata_of t), ata_status (ata_of t)) of
            (Some k, Some v) \<Rightarrow>
               if \<not> bit v 7 \<and> bit v 3 then sector_word (sector_of (img (ata_lba (ata_of t)))) k else 0
          | _ \<Rightarrow> 0) else 0),
      dev_inl = (\<lambda>t p. 0)\<rparr>"

interpretation drive: ata_disk "ata_device img" "sector_of \<circ> img"
proof (unfold_locales, goal_cases)
  case (1 t)
  have st: "dev_inb (ata_device img) t 0x1F7 = drive_status (ata_of t)" for t by (simp add: ata_device_def)
  show ?case
  proof (cases "drive_status (ata_of t) = 0x80")
    case True
    then have "drive_status (ata_of (poll (ata_device img) t)) AND 0xC0 = 0x40"
      by (auto simp: drive_status_def poll_def ata_of_snoc split: option.splits)
    then show ?thesis by (intro exI [of _ 1]) (simp add: st)
  next
    case False
    then show ?thesis by (intro exI [of _ 0]) (auto simp: st drive_status_def split: option.splits if_splits)
  qed
next
  case (2 t)
  then show ?case by (auto simp: ata_device_def drive_status_def bit_numeral_rec split: if_splits)
next
  case (3 t k v)
  then show ?case by (simp add: ata_device_def)
next
  case (4 lba)
  show ?case by (simp add: sector_of_def)
qed

text \<open>A sector is read into the page at 0x30000 of the booted machine, with the transfer buffer at 0x20000.\<close>

definition boot_disk :: disk_state where
  "boot_disk = heap_state.extend boot_heap \<lparr>ports = \<lparr>io_trace = [], intr_flag = True\<rparr>\<rparr>"

lemma boot_disk_region:
  assumes "\<forall>a \<in> R. a < 0x41000"
  shows "mapped_region R boot_disk"
proof -
  have c: "phys boot_disk = phys boot_heap" "cr3 boot_disk = cr3 boot_heap" "cr0_pg boot_disk = cr0_pg boot_heap"
    by (simp_all add: boot_disk_def heap_state.defs)
  have pde: "read_pde boot_disk = read_pde boot_heap" by (rule ext) (simp add: read_pde_def c)
  have wf: "paging_wf boot_disk" using boot_heap(1) by (simp add: paging_wf_def pde c)
  have tab: "table_frames boot_disk = {0x41000, 0x42000}" using boot_heap(8) by (simp add: table_frames_def pde)
  have "translate boot_disk a = Some a \<and> frame_of a \<notin> {0x41000, 0x42000}" if "a \<in> R" for a
  proof -
    from assms that have a: "unat a < 0x41000" by (simp add: word_less_nat_alt)
    then have "unat (pd_index a) = 0" by (simp add: unat_pd_index)
    then have "pd_index a \<noteq> 1023" "a < 0x400000" using a by (auto simp: word_less_nat_alt)
    then have "translate boot_heap a = Some a" by (simp add: boot_heap(9))
    moreover have "translate boot_disk a = translate boot_heap a" by (simp add: translate_def lookup_pte_def pde c Let_def)
    moreover have "unat (frame_of a) < 0x41000" using a by (simp add: unat_frame_of)
    ultimately show ?thesis by auto
  qed
  then show ?thesis using wf by (auto simp: mapped_region_def tab intro!: inj_onI)
qed

theorem read_disk_sector_correct_witness:
  "\<exists>s'. read_disk_sector (ata_device (\<lambda>lba. [ucast lba, 0xAA])) 0x20000 7 0x30000 boot_disk = Some s' \<and>
     vload8 s' 0x30000 = Some 7 \<and> vload8 s' 0x30001 = Some 0xAA \<and> vload8 s' 0x10000 = vload8 boot_disk 0x10000"
proof -
  let ?R = "insert 0x10000 (addr_range 0x20000 512 \<union> addr_range 0x30000 512)"
  have lt: "\<forall>a \<in> ?R. a < 0x41000" and ap: "addr_range 0x30000 512 \<inter> addr_range 0x20000 512 = {}"
      and no: "0x10000 \<notin> addr_range 0x20000 512 \<union> addr_range 0x30000 512"
    by (auto elim!: addr_rangeE simp: word_less_nat_alt unat_plus_u32_small unat_of_nat_u32 word_unat_eq_iff)
  have sec: "sector_of [7, 0xAA] ! 0 = 7" "sector_of [7, 0xAA] ! 1 = 0xAA" "length (sector_of [7, 0xAA]) = 512"
    by (simp_all add: sector_of_def)
  from read_disk_sector_correct [OF drive.ata_disk_axioms boot_disk_region [OF lt], of "0x20000" "0x30000" "\<lambda>lba. [ucast lba, 0xAA]" 7] ap
  obtain s' where s': "read_disk_sector (ata_device (\<lambda>lba. [ucast lba, 0xAA])) 0x20000 7 0x30000 boot_disk = Some s'"
      "bytes_at (vload8 s') 0x30000 (sector_of [7, 0xAA])"
      "\<forall>x \<in> ?R. x \<notin> addr_range 0x20000 512 \<union> addr_range 0x30000 512 \<longrightarrow> vload8 s' x = vload8 boot_disk x"
    by auto
  have "vload8 s' (0x30000 + of_nat 0) = Some 7" "vload8 s' (0x30000 + of_nat 1) = Some 0xAA"
    using s'(2) sec unfolding bytes_at_def by (metis zero_less_numeral, metis one_less_numeral_iff semiring_norm(76))
  with s'(1,3) no show ?thesis by auto
qed

end
