(* ===== verification/Fs.thy ===== *)
theory Fs
  imports Disk CString
begin

text \<open>
  The FAT12 file system: \<^verbatim>\<open>kernel/fs/fs.c\<close>. The driver keeps the BIOS parameter block on the
  heap and copies of the allocation table and of the root directory in memory that it
  maps at 3 MB; all of them are read through the paging unit. A pointer to a structure is
  its address, and a member is read at its offset in the packed structures of \<^verbatim>\<open>fs.h\<close>.
  \<^verbatim>\<open>dev\<close> is the disk controller and \<^verbatim>\<open>dma_buffer\<close> the address of the transfer buffer.

  The loop over the cluster chain of a file follows the allocation table, so a chain that
  runs in a circle never ends: it is a \<^verbatim>\<open>partial_function\<close>, and that it returns for a chain
  that ends is part of what is proved.
\<close>

section \<open>State and operations\<close>

record fs_state = disk_state +
  bpb :: u32
  fat_buffer :: u32
  data_area_start_sector :: u32
  root_directory_buffer :: u32
  root_directory_size :: u32

text \<open>Members of \<^verbatim>\<open>fat12_bpb_t\<close> that the driver reads; the structure has 36 bytes.\<close>

definition bytes_per_sector :: "'a fs_state_scheme \<Rightarrow> u16 option" where
  "bytes_per_sector s = vload16 s (bpb s + 11)"

definition sectors_per_cluster :: "'a fs_state_scheme \<Rightarrow> u8 option" where
  "sectors_per_cluster s = vload8 s (bpb s + 13)"

definition reserved_sectors :: "'a fs_state_scheme \<Rightarrow> u16 option" where
  "reserved_sectors s = vload16 s (bpb s + 14)"

definition num_fats :: "'a fs_state_scheme \<Rightarrow> u8 option" where
  "num_fats s = vload8 s (bpb s + 16)"

definition root_dir_entries :: "'a fs_state_scheme \<Rightarrow> u16 option" where
  "root_dir_entries s = vload16 s (bpb s + 17)"

definition sectors_per_fat :: "'a fs_state_scheme \<Rightarrow> u16 option" where
  "sectors_per_fat s = vload16 s (bpb s + 22)"

text \<open>Members of \<^verbatim>\<open>fat_dir_entry_t\<close>; the structure has 32 bytes.\<close>

definition entry_attributes :: "u32 \<Rightarrow> 'a fs_state_scheme \<Rightarrow> u8 option" where
  "entry_attributes entry s = vload8 s (entry + 11)"

definition first_cluster_low :: "u32 \<Rightarrow> 'a fs_state_scheme \<Rightarrow> u16 option" where
  "first_cluster_low entry s = vload16 s (entry + 26)"

definition file_size :: "u32 \<Rightarrow> 'a fs_state_scheme \<Rightarrow> u32 option" where
  "file_size entry s = vload32 s (entry + 28)"

text \<open>The loops of \<^verbatim>\<open>init_fs\<close>: mapping fresh frames, reading the FAT, reading the directory.\<close>

fun map_pages :: "nat \<Rightarrow> u32 \<Rightarrow> u32 \<Rightarrow> 'a fs_state_scheme \<Rightarrow> 'a fs_state_scheme option" where
  "map_pages 0 i virt s = Some s"
| "map_pages (Suc n) i virt s =
     do {
       (phys_frame, s) \<leftarrow> pmm_alloc_frame s;
       s \<leftarrow> paging_map_page (kernel_directory s) (virt + i * PMM_FRAME_SIZE) phys_frame
              (PAGING_FLAG_PRESENT OR PAGING_FLAG_RW) s;
       map_pages n (i + 1) virt s
     }"

partial_function (option) read_fat ::
    "device \<Rightarrow> u32 \<Rightarrow> u32 \<Rightarrow> 'a fs_state_scheme \<Rightarrow> 'a fs_state_scheme option" where
  "read_fat dev dma_buffer i s =
     do {
       spf \<leftarrow> sectors_per_fat s;
       if i < ucast spf then do {
         rs \<leftarrow> reserved_sectors s;
         bps \<leftarrow> bytes_per_sector s;
         s \<leftarrow> read_disk_sector dev dma_buffer (ucast rs + i) (fat_buffer s + i * ucast bps) s;
         read_fat dev dma_buffer (i + 1) s
       } else Some s
     }"

fun read_root :: "device \<Rightarrow> u32 \<Rightarrow> nat \<Rightarrow> u32 \<Rightarrow> u32 \<Rightarrow> 'a fs_state_scheme \<Rightarrow> 'a fs_state_scheme option" where
  "read_root dev dma_buffer 0 i start s = Some s"
| "read_root dev dma_buffer (Suc n) i start s =
     read_disk_sector dev dma_buffer (start + i) (root_directory_buffer s + i * 512) s \<bind>
     read_root dev dma_buffer n (i + 1) start"

text \<open>A sector size of zero is a division by zero.\<close>

definition init_fs :: "device \<Rightarrow> u32 \<Rightarrow> 'a fs_state_scheme \<Rightarrow> 'a fs_state_scheme option" where
  "init_fs dev dma_buffer s =
     do {
       (temp_buffer, s) \<leftarrow> pmm_alloc_frame s;
       s \<leftarrow> read_disk_sector dev dma_buffer 0 temp_buffer s;
       (p, s) \<leftarrow> malloc 36 s;
       let s = s\<lparr>bpb := p\<rparr>;
       s \<leftarrow> vmemcpy 36 (bpb s) temp_buffer s;
       s \<leftarrow> pmm_free_frame temp_buffer s;
       spf \<leftarrow> sectors_per_fat s;
       bps \<leftarrow> bytes_per_sector s;
       let fat_size_bytes = ucast spf * ucast bps;
       let fat_pages_needed = (fat_size_bytes + PMM_FRAME_SIZE - 1) div PMM_FRAME_SIZE;
       let fat_virt_addr = 0x300000;
       let s = s\<lparr>fat_buffer := fat_virt_addr\<rparr>;
       s \<leftarrow> map_pages (unat fat_pages_needed) 0 fat_virt_addr s;
       s \<leftarrow> read_fat dev dma_buffer 0 s;
       rs \<leftarrow> reserved_sectors s;
       nf \<leftarrow> num_fats s;
       spf \<leftarrow> sectors_per_fat s;
       let root_dir_start_sector = ucast rs + ucast nf * ucast spf;
       rde \<leftarrow> root_dir_entries s;
       let s = s\<lparr>root_directory_size := ucast rde * 32\<rparr>;
       bps \<leftarrow> bytes_per_sector s;
       if bps = 0 then None
       else do {
         let root_dir_sectors = (root_directory_size s + ucast bps - 1) div ucast bps;
         let root_dir_virt_addr = fat_virt_addr + fat_pages_needed * PMM_FRAME_SIZE;
         let s = s\<lparr>root_directory_buffer := root_dir_virt_addr\<rparr>;
         s \<leftarrow> map_pages (unat ((root_dir_sectors * 512 + PMM_FRAME_SIZE - 1) div PMM_FRAME_SIZE)) 0
                root_dir_virt_addr s;
         s \<leftarrow> read_root dev dma_buffer (unat root_dir_sectors) 0 root_dir_start_sector s;
         Some (s\<lparr>data_area_start_sector := root_dir_start_sector + root_dir_sectors\<rparr>)
       }
     }"

definition fs_get_fat_entry :: "u16 \<Rightarrow> 'a fs_state_scheme \<Rightarrow> u16 option" where
  "fs_get_fat_entry cluster s =
     do {
       let fat_offset = (ucast cluster * 3 div 2 :: u32);
       spf \<leftarrow> sectors_per_fat s;
       bps \<leftarrow> bytes_per_sector s;
       let fat_size_bytes = ucast spf * ucast bps;
       if fat_offset + 1 \<ge> fat_size_bytes then Some 0xFFF
       else do {
         byte1 \<leftarrow> vload8 s (fat_buffer s + fat_offset);
         byte2 \<leftarrow> vload8 s (fat_buffer s + fat_offset + 1);
         let entry = push_bit 8 (ucast byte2) OR ucast byte1;
         Some (if cluster mod 2 = 0 then entry AND 0x0FFF else drop_bit 4 entry)
       }
     }"

definition fs_read_cluster ::
    "device \<Rightarrow> u32 \<Rightarrow> u16 \<Rightarrow> u32 \<Rightarrow> 'a fs_state_scheme \<Rightarrow> 'a fs_state_scheme option" where
  "fs_read_cluster dev dma_buffer cluster buffer s =
     read_disk_sector dev dma_buffer (data_area_start_sector s + (ucast cluster - 2)) buffer s"

text \<open>
  The conversion of a name to the form of the directory. \<^verbatim>\<open>toupper\<close> works on the sign-extended
  character. The two loops return the rest of the name and the array.
\<close>

definition upper :: "u8 \<Rightarrow> u8" where
  "upper c = word_of_int (toupper (sint c))"

fun fat_name_base :: "bytes \<Rightarrow> nat \<Rightarrow> bytes \<Rightarrow> (bytes \<times> bytes) option" where
  "fat_name_base [] j fat_name = None"
| "fat_name_base (c # filename) j fat_name =
     (if c \<noteq> 0 \<and> c \<noteq> chr CHR ''.'' \<and> j < 8
      then fat_name_base filename (Suc j) (fat_name[j := upper c])
      else Some (c # filename, fat_name))"

fun fat_name_ext :: "bytes \<Rightarrow> nat \<Rightarrow> bytes \<Rightarrow> (bytes \<times> bytes) option" where
  "fat_name_ext [] j fat_name = None"
| "fat_name_ext (c # filename) j fat_name =
     (if c \<noteq> 0 \<and> j < 11
      then fat_name_ext filename (Suc j) (fat_name[j := upper c])
      else Some (c # filename, fat_name))"

fun vload_bytes :: "nat \<Rightarrow> u32 \<Rightarrow> 'a machine_state_scheme \<Rightarrow> bytes option" where
  "vload_bytes 0 a s = Some []"
| "vload_bytes (Suc n) a s = do { b \<leftarrow> vload8 s a; bs \<leftarrow> vload_bytes n (a + 1) s; Some (b # bs) }"

text \<open>The search of the directory; the result 0 is the null pointer.\<close>

partial_function (option) find_entry :: "bytes \<Rightarrow> u32 \<Rightarrow> 'a fs_state_scheme \<Rightarrow> u32 option" where
  "find_entry fat_name offset s =
     (if offset < root_directory_size s then do {
        let entry = root_directory_buffer s + offset;
        n0 \<leftarrow> vload8 s entry;
        if n0 = 0 then Some 0
        else if n0 = 0xE5 then find_entry fat_name (offset + 32) s
        else do {
          attributes \<leftarrow> entry_attributes entry s;
          if attributes AND 0x0F = 0x0F then find_entry fat_name (offset + 32) s
          else if attributes AND 0x08 \<noteq> 0 then find_entry fat_name (offset + 32) s
          else do {
            name \<leftarrow> vload_bytes 8 entry s;
            c \<leftarrow> memcmp fat_name name 8;
            if c \<noteq> 0 then find_entry fat_name (offset + 32) s
            else do {
              ext \<leftarrow> vload_bytes 3 (entry + 8) s;
              c \<leftarrow> memcmp (drop 8 fat_name) ext 3;
              if c = 0 then Some entry else find_entry fat_name (offset + 32) s
            }
          }
        }
      } else Some 0)"

definition fs_find_file :: "bytes \<Rightarrow> 'a fs_state_scheme \<Rightarrow> u32 option" where
  "fs_find_file filename s =
     do {
       fat_name \<leftarrow> memset (replicate 12 0) (ucast (chr CHR '' '')) 11;
       let fat_name = fat_name[11 := 0];
       (filename, fat_name) \<leftarrow> fat_name_base filename 0 fat_name;
       let filename = (if hd filename = chr CHR ''.'' then tl filename else filename);
       (filename, fat_name) \<leftarrow> fat_name_ext filename 8 fat_name;
       if hd filename \<noteq> 0 then Some 0 else find_entry fat_name 0 s
     }"

text \<open>The loop over the cluster chain.\<close>

partial_function (option) read_chain ::
    "device \<Rightarrow> u32 \<Rightarrow> u32 \<Rightarrow> u32 \<Rightarrow> u32 \<Rightarrow> u32 \<Rightarrow> u16 \<Rightarrow> 'a fs_state_scheme \<Rightarrow> 'a fs_state_scheme option" where
  "read_chain dev dma_buffer sz file_buffer bytes_per_cluster current_pos current_cluster s =
     (if current_cluster < 0xFF8 then do {
        s \<leftarrow> read_disk_sector dev dma_buffer (data_area_start_sector s + (ucast current_cluster - 2)) dma_buffer s;
        let remaining = sz - (current_pos - file_buffer);
        let to_copy = (if remaining > bytes_per_cluster then bytes_per_cluster else remaining);
        s \<leftarrow> vmemcpy (unat to_copy) current_pos dma_buffer s;
        current_cluster \<leftarrow> fs_get_fat_entry current_cluster s;
        read_chain dev dma_buffer sz file_buffer bytes_per_cluster (current_pos + to_copy) current_cluster s
      } else Some s)"

definition fs_read_file :: "device \<Rightarrow> u32 \<Rightarrow> u32 \<Rightarrow> 'a fs_state_scheme \<Rightarrow> (u32 \<times> 'a fs_state_scheme) option" where
  "fs_read_file dev dma_buffer entry s =
     do {
       sz \<leftarrow> file_size entry s;
       if sz = 0 then malloc 1 s
       else do {
         (file_buffer, s) \<leftarrow> malloc sz s;
         if file_buffer = 0 then Some (0, s)
         else do {
           current_cluster \<leftarrow> first_cluster_low entry s;
           spc \<leftarrow> sectors_per_cluster s;
           bps \<leftarrow> bytes_per_sector s;
           let bytes_per_cluster = ucast spc * ucast bps;
           s \<leftarrow> read_chain dev dma_buffer sz file_buffer bytes_per_cluster file_buffer current_cluster s;
           Some (file_buffer, s)
         }
       }
     }"

section \<open>The allocation table\<close>

text \<open>
  FAT12 packs two 12-bit entries into three bytes. The reference: the packed form of a list
  of entries.
\<close>

fun fat12 :: "u16 list \<Rightarrow> bytes" where
  "fat12 (a # b # es) = ucast a # (ucast (drop_bit 8 a) OR push_bit 4 (ucast b)) # ucast (drop_bit 4 b) # fat12 es"
| "fat12 [a] = [ucast a, ucast (drop_bit 8 a)]"
| "fat12 [] = []"

lemma length_fat12: "length (fat12 es) = (3 * length es + 1) div 2"
  by (induction es rule: fat12.induct) auto

lemma u16_small_bits: "e < 0x1000 \<Longrightarrow> bit (e :: u16) n \<Longrightarrow> n < 12"
proof -
  assume "e < 0x1000" and b: "bit e n"
  then have "take_bit 12 e = e" by (simp add: take_bit_eq_mod mod_word_less)
  then show "n < 12" using b by (metis bit_take_bit_iff)
qed

text \<open>The two bytes that hold an entry determine it.\<close>

lemma fat12_nth:
  assumes "k < length es" and "\<forall>e \<in> set es. e < 0x1000"
  shows "3 * k div 2 + 1 < length (fat12 es) \<and>
     (let e = push_bit 8 (ucast (fat12 es ! (3 * k div 2 + 1))) OR ucast (fat12 es ! (3 * k div 2)) :: u16
      in (if even k then e AND 0x0FFF else drop_bit 4 e) = es ! k)"
  using assms
proof (induction es arbitrary: k rule: fat12.induct)
  case (1 a b es)
  have m: "(0x0FFF :: u16) = mask 12" by (simp add: mask_eq_exp_minus_1)
  have ab: "bit a n \<Longrightarrow> n < 12" "bit b n \<Longrightarrow> n < 12" for n using 1(3) by (auto intro: u16_small_bits)
  consider "k = 0" | "k = 1" | j where "k = Suc (Suc j)" by (metis One_nat_def not0_implies_Suc)
  then show ?case
  proof cases
    case 1
    have "(push_bit 8 (ucast (ucast (drop_bit 8 a) OR push_bit 4 (ucast b) :: u8)) OR ucast (ucast a :: u8)) AND 0x0FFF = a"
      unfolding m by (rule bit_word_eqI) (auto simp: bit_simps dest: ab)
    with 1 show ?thesis by (simp add: Let_def)
  next
    case 2
    have "drop_bit 4 (push_bit 8 (ucast (ucast (drop_bit 4 b) :: u8)) OR ucast (ucast (drop_bit 8 a) OR push_bit 4 (ucast b) :: u8)) = b"
      by (rule bit_word_eqI) (auto simp: bit_simps dest: ab)
    with 2 show ?thesis by (simp add: Let_def)
  next
    case 3
    have "3 * Suc (Suc j) div 2 = 3 + 3 * j div 2" by simp
    with 1(1) [of j] 1(2,3) 3 show ?thesis by (simp add: Let_def numeral_3_eq_3)
  qed
next
  case (2 a)
  have m: "(0x0FFF :: u16) = mask 12" by (simp add: mask_eq_exp_minus_1)
  have "(push_bit 8 (ucast (ucast (drop_bit 8 a) :: u8)) OR ucast (ucast a :: u8)) AND 0x0FFF = a"
    unfolding m by (rule bit_word_eqI) (use 2(2) in \<open>auto simp: bit_simps dest: u16_small_bits\<close>)
  with 2(1) show ?case by (simp add: Let_def)
qed simp

text \<open>The table in memory has the size that the parameter block promises.\<close>

definition fat_loaded :: "'a fs_state_scheme \<Rightarrow> bytes \<Rightarrow> bool" where
  "fat_loaded s fat \<longleftrightarrow>
     (\<exists>spf bps. sectors_per_fat s = Some spf \<and> bytes_per_sector s = Some bps \<and> length fat = unat spf * unat bps) \<and>
     bytes_at (vload8 s) (fat_buffer s) fat"

text \<open>The successor of a cluster, read from the bytes of the table.\<close>

definition fat_next :: "bytes \<Rightarrow> u16 \<Rightarrow> u16" where
  "fat_next fat c =
     (let k = 3 * unat c div 2
      in if length fat \<le> k + 1 then 0xFFF
         else let e = push_bit 8 (ucast (fat ! (k + 1))) OR ucast (fat ! k)
              in if even (unat c) then e AND 0x0FFF else drop_bit 4 e)"

lemma unat_fat_offset: "unat (ucast (c :: u16) * 3 div 2 :: u32) = 3 * unat c div 2"
proof -
  have "unat c * 3 < 4294967296" using unat_u16_bound [of c] by linarith
  then have "unat (ucast c * 3 :: u32) = 3 * unat c" by (simp add: unat_word_ariths(2))
  then show ?thesis by (simp add: unat_div_distrib)
qed

lemma unat_mult_u16: "unat (ucast (a :: u16) * ucast (b :: u16) :: u32) = unat a * unat b"
proof -
  have "unat a * unat b \<le> 65535 * 65535"
    using unat_u16_bound [of a] unat_u16_bound [of b] by (intro mult_le_mono) linarith+
  then show ?thesis by (simp add: unat_word_ariths)
qed

lemma even_unat_u16: "(c :: u16) mod 2 = 0 \<longleftrightarrow> even (unat c)"
  by (simp add: word_unat_eq_iff unat_mod_distrib even_iff_mod_2_eq_zero)

lemma fs_get_fat_entry_run:
  assumes "fat_loaded s fat"
  shows "fs_get_fat_entry c s = Some (fat_next fat c)"
proof -
  from assms obtain spf bps where b: "sectors_per_fat s = Some spf" "bytes_per_sector s = Some bps"
      "length fat = unat spf * unat bps" "bytes_at (vload8 s) (fat_buffer s) fat"
    by (auto simp: fat_loaded_def)
  let ?o = "ucast c * 3 div 2 :: u32"
  have o: "?o = of_nat (3 * unat c div 2)" using unat_fat_offset [of c] by (metis of_nat_unat ucast_id unsigned_ucast_eq)
  have u1: "unat (?o + 1) = 3 * unat c div 2 + 1"
  proof -
    have "3 * unat c div 2 < 98304" using unat_u16_bound [of c] by linarith
    then show ?thesis by (subst unat_plus_u32_small) (simp_all add: unat_fat_offset)
  qed
  have size: "?o + 1 \<ge> ucast spf * ucast bps \<longleftrightarrow> length fat \<le> 3 * unat c div 2 + 1"
    by (simp add: word_le_nat_alt u1 unat_mult_u16 b(3))
  show ?thesis
  proof (cases "length fat \<le> 3 * unat c div 2 + 1")
    case True
    then show ?thesis using b(1,2) size by (simp add: fs_get_fat_entry_def fat_next_def Let_def)
  next
    case False
    then have "vload8 s (fat_buffer s + of_nat (3 * unat c div 2)) = Some (fat ! (3 * unat c div 2))"
      "vload8 s (fat_buffer s + of_nat (3 * unat c div 2 + 1)) = Some (fat ! (3 * unat c div 2 + 1))"
      using b(4) unfolding bytes_at_def by (metis add_lessD1 not_le, metis not_le)
    then have "vload8 s (fat_buffer s + ?o) = Some (fat ! (3 * unat c div 2))"
      "vload8 s (fat_buffer s + ?o + 1) = Some (fat ! (3 * unat c div 2 + 1))"
      unfolding o by (simp_all add: algebra_simps)
    with False size b(1,2) show ?thesis by (simp add: fs_get_fat_entry_def fat_next_def Let_def even_unat_u16)
  qed
qed

lemma fat_next_fat12:
  assumes "\<forall>e \<in> set es. e < 0x1000" and "unat c < length es"
  shows "fat_next (fat12 es @ pad) c = es ! unat c"
proof -
  note n = fat12_nth [OF assms(2,1)]
  then have "3 * unat c div 2 + 1 < length (fat12 es)" by simp
  with n show ?thesis by (simp add: fat_next_def Let_def nth_append)
qed

text \<open>C38. \<^verbatim>\<open>fs_get_fat_entry\<close> (fs.c) decodes the FAT12 allocation table: when the buffer holds the
  packed form of a list of 12-bit entries, looking up a cluster returns its entry, for even
  and odd clusters alike; for a cluster whose entry does not lie inside the table it
  returns the end-of-chain value instead of reading past the buffer.\<close>

theorem fs_get_fat_entry_decodes:
  assumes "fat_loaded s (fat12 es @ pad)" and "\<forall>e \<in> set es. e < 0x1000"
  shows "(unat c < length es \<longrightarrow> fs_get_fat_entry c s = Some (es ! unat c)) \<and>
     (length (fat12 es @ pad) \<le> 3 * unat c div 2 + 1 \<longrightarrow> fs_get_fat_entry c s = Some 0xFFF)"
  using fs_get_fat_entry_run [OF assms(1), of c] fat_next_fat12 [OF assms(2), of c pad]
  by (simp add: fat_next_def Let_def)

section \<open>Reading a file\<close>

text \<open>The clusters of a file: the chain from \<^verbatim>\<open>c\<close> to an end-of-chain value.\<close>

fun chain :: "(u16 \<Rightarrow> u16) \<Rightarrow> u16 \<Rightarrow> u16 list \<Rightarrow> bool" where
  "chain nx c [] \<longleftrightarrow> \<not> c < 0xFF8"
| "chain nx c (x # xs) \<longleftrightarrow> c = x \<and> c < 0xFF8 \<and> chain nx (nx c) xs"

text \<open>
  The buffers that reading a file of \<^verbatim>\<open>n\<close> bytes into \<^verbatim>\<open>buf\<close> involves: the transfer buffer and
  the destination are apart from each other and from the table and the parameter block.
\<close>

definition fs_buffers :: "u32 set \<Rightarrow> u32 \<Rightarrow> u32 \<Rightarrow> nat \<Rightarrow> bytes \<Rightarrow> 'a fs_state_scheme \<Rightarrow> bool" where
  "fs_buffers R dma buf n fat s \<longleftrightarrow> mapped_region R s \<and> fat_loaded s fat \<and>
     addr_range dma 512 \<subseteq> R \<and> addr_range buf n \<subseteq> R \<and>
     addr_range (fat_buffer s) (length fat) \<union> addr_range (bpb s) 36 \<subseteq> R - (addr_range dma 512 \<union> addr_range buf n) \<and>
     addr_range buf n \<inter> addr_range dma 512 = {}"

lemma vload16_cong:
  "vload8 s' a = vload8 s a \<Longrightarrow> vload8 s' (a + 1) = vload8 s (a + 1) \<Longrightarrow> vload16 s' a = vload16 s a"
  by (simp add: vload16_def)

lemma bpb_members:
  assumes "bpb s' = bpb s" and "\<forall>x \<in> addr_range (bpb s) 36. vload8 s' x = vload8 s x"
  shows "sectors_per_fat s' = sectors_per_fat s" "bytes_per_sector s' = bytes_per_sector s"
    "sectors_per_cluster s' = sectors_per_cluster s"
proof -
  have k: "vload8 s' (bpb s + of_nat i) = vload8 s (bpb s + of_nat i)" if "i < 36" for i
    using assms(2) addr_rangeI [OF that] by blast
  show "sectors_per_fat s' = sectors_per_fat s" unfolding sectors_per_fat_def assms(1)
    by (rule vload16_cong) (use k [of 22] k [of 23] in \<open>simp_all add: add.assoc\<close>)
  show "bytes_per_sector s' = bytes_per_sector s" unfolding bytes_per_sector_def assms(1)
    by (rule vload16_cong) (use k [of 11] k [of 12] in \<open>simp_all add: add.assoc\<close>)
  show "sectors_per_cluster s' = sectors_per_cluster s" unfolding sectors_per_cluster_def assms(1)
    using k [of 13] by simp
qed

lemma fs_buffers_keep:
  assumes "fs_buffers R dma buf n fat s" and "mapped_region R s'" and "disk_frame s' = disk_frame s"
    and "\<forall>x \<in> R. x \<notin> addr_range dma 512 \<union> addr_range buf n \<longrightarrow> vload8 s' x = vload8 s x"
  shows "fs_buffers R dma buf n fat s'" "data_area_start_sector s' = data_area_start_sector s"
    "sectors_per_cluster s' = sectors_per_cluster s" "bytes_per_sector s' = bytes_per_sector s"
proof -
  from disk_frame_fields [OF assms(3)] obtain m p where s': "s' = s\<lparr>phys := m, ports := p\<rparr>" by auto
  then have f: "bpb s' = bpb s" "fat_buffer s' = fat_buffer s" and
    "data_area_start_sector s' = data_area_start_sector s" by simp_all
  then show "data_area_start_sector s' = data_area_start_sector s" by simp
  have keep: "\<forall>x \<in> addr_range (fat_buffer s) (length fat) \<union> addr_range (bpb s) 36. vload8 s' x = vload8 s x"
    using assms(1,4) unfolding fs_buffers_def by blast
  note b = bpb_members [OF f(1)]
  from keep show "sectors_per_cluster s' = sectors_per_cluster s" "bytes_per_sector s' = bytes_per_sector s"
    by (simp_all add: b)
  have "fat_loaded s' fat"
    using assms(1) keep b bytes_at_cong [of "vload8 s" "fat_buffer s" fat "vload8 s'"]
    unfolding fs_buffers_def fat_loaded_def f by auto
  with assms(1,2) show "fs_buffers R dma buf n fat s'" unfolding fs_buffers_def f by simp
qed

text \<open>The step of the read position.\<close>

lemma read_position:
  assumes "k \<le> unat (sz :: u32)"
  defines "t \<equiv> min 512 (unat sz - k)"
  shows "sz - (buf + of_nat k - buf) = of_nat (unat sz - k)"
    "(if of_nat (unat sz - k) > (512 :: u32) then 512 else of_nat (unat sz - k)) = (of_nat t :: u32)"
    "unat (of_nat t :: u32) = t" "k + t \<le> unat sz"
proof -
  have b: "unat sz - k < 4294967296" using unat_u32_bound [of sz] by linarith
  have "unat (of_nat k :: u32) = k" using assms(1) unat_u32_bound [of sz] by (intro unat_of_nat_u32) linarith
  then have "sz - of_nat k = of_nat (unat sz - k)"
    using assms(1) by (simp add: of_nat_diff)
  then show "sz - (buf + of_nat k - buf) = of_nat (unat sz - k)" by simp
  show "(if of_nat (unat sz - k) > (512 :: u32) then 512 else of_nat (unat sz - k)) = (of_nat t :: u32)"
    using unat_of_nat_u32 [OF b] by (auto simp: t_def word_less_nat_alt min_def)
  show "unat (of_nat t :: u32) = t" by (rule unat_of_nat_u32) (simp add: t_def)
  show "k + t \<le> unat sz" using assms(1) by (simp add: t_def)
qed

lemma addr_range_offset: "k + t \<le> n \<Longrightarrow> addr_range (a + of_nat k) t \<subseteq> addr_range a n"
  using addr_range_add [of a k t] addr_range_mono [of "k + t" n a] by auto

context ata_disk
begin

lemma read_chain_run:
  assumes "fs_buffers R dma buf (unat sz) fat s" and "chain (fat_next fat) c cs" and "k \<le> unat sz"
    and "data_area_start_sector s = data"
  shows "\<exists>s'. read_chain dev dma sz buf 512 (buf + of_nat k) c s = Some s' \<and> mapped_region R s' \<and>
     disk_frame s' = disk_frame s \<and>
     bytes_at (vload8 s') (buf + of_nat k)
       (take (unat sz - k) (concat (map (\<lambda>c. img ((data + (ucast c - 2)) AND 0x0FFFFFFF)) cs))) \<and>
     (\<forall>x \<in> R. x \<notin> addr_range dma 512 \<union> addr_range (buf + of_nat k) (unat sz - k) \<longrightarrow> vload8 s' x = vload8 s x)"
  using assms
proof (induction cs arbitrary: c k s)
  case Nil
  then have "read_chain dev dma sz buf 512 (buf + of_nat k) c s = Some s" by (subst read_chain.simps) simp
  with Nil show ?case by (simp add: bytes_at_Nil fs_buffers_def)
next
  case (Cons x cs)
  from Cons.prems(2) have c: "c = x" "c < 0xFF8" "chain (fat_next fat) (fat_next fat c) cs" by auto
  let ?sec = "img ((data + (ucast c - 2)) AND 0x0FFFFFFF)" and ?pos = "buf + of_nat k"
  define t where "t = min 512 (unat sz - k)"
  note pos = read_position(1) [OF Cons.prems(3), of buf] read_position(2-4) [OF Cons.prems(3), folded t_def]
  have B: "mapped_region R s" "addr_range dma 512 \<subseteq> R" "addr_range buf (unat sz) \<subseteq> R"
      "addr_range buf (unat sz) \<inter> addr_range dma 512 = {}"
    using Cons.prems(1) by (simp_all add: fs_buffers_def)
  from read_disk_sector_run [OF B(1,2,2), of "data + (ucast c - 2)"] obtain s1 where
    s1: "read_disk_sector dev dma (data + (ucast c - 2)) dma s = Some s1" "mapped_region R s1" "disk_frame s1 = disk_frame s"
      "bytes_at (vload8 s1) dma ?sec" "\<forall>x \<in> R. x \<notin> addr_range dma 512 \<longrightarrow> vload8 s1 x = vload8 s x"
    by auto
  have inbuf: "addr_range ?pos t \<subseteq> addr_range buf (unat sz)" by (rule addr_range_offset [OF pos(4)])
  have len: "length (take t ?sec) = t" by (simp add: sector_length t_def)
  have indma: "addr_range dma t \<subseteq> addr_range dma 512" by (rule addr_range_mono) (simp add: t_def)
  have R: "addr_range ?pos (length (take t ?sec)) \<subseteq> R" "addr_range dma (length (take t ?sec)) \<subseteq> R"
      "addr_range ?pos (length (take t ?sec)) \<inter> addr_range dma (length (take t ?sec)) = {}" "length (take t ?sec) \<le> 4294967296"
    using inbuf indma B(2-4) unfolding len by (blast, blast, blast, simp add: t_def)
  from vm.cpy_apart [OF s1(2) R(1,2,4) bytes_at_take [OF s1(4)] R(3)] obtain s2 where
    s2: "vmemcpy t ?pos dma s1 = Some s2" "mapped_region R s2" "machine_frame s2 = machine_frame s1"
      "bytes_at (vload8 s2) ?pos (take t ?sec)" "\<forall>x \<in> R. x \<notin> addr_range ?pos t \<longrightarrow> vload8 s2 x = vload8 s1 x"
    unfolding len by auto
  have f2: "disk_frame s2 = disk_frame s" using disk_frame_machine [OF s2(3)] s1(3) by simp
  have out2: "\<forall>x \<in> R. x \<notin> addr_range dma 512 \<union> addr_range ?pos t \<longrightarrow> vload8 s2 x = vload8 s x"
    using s1(5) s2(5) by simp
  then have "\<forall>x \<in> R. x \<notin> addr_range dma 512 \<union> addr_range buf (unat sz) \<longrightarrow> vload8 s2 x = vload8 s x"
    using inbuf by blast
  note k2 = fs_buffers_keep [OF Cons.prems(1) s2(2) f2 this]
  have nx: "fs_get_fat_entry c s2 = Some (fat_next fat c)"
    using k2(1) by (intro fs_get_fat_entry_run) (simp add: fs_buffers_def)
  from Cons.IH [OF k2(1) c(3) pos(4)] k2(2) Cons.prems(4) obtain s' where
    s': "read_chain dev dma sz buf 512 (buf + of_nat (k + t)) (fat_next fat c) s2 = Some s'" "mapped_region R s'"
      "disk_frame s' = disk_frame s2"
      "bytes_at (vload8 s') (buf + of_nat (k + t))
        (take (unat sz - (k + t)) (concat (map (\<lambda>c. img ((data + (ucast c - 2)) AND 0x0FFFFFFF)) cs)))"
      "\<forall>x \<in> R. x \<notin> addr_range dma 512 \<union> addr_range (buf + of_nat (k + t)) (unat sz - (k + t)) \<longrightarrow>
         vload8 s' x = vload8 s2 x"
    by auto
  have np: "?pos + of_nat t = buf + of_nat (k + t)" by (simp add: algebra_simps)
  have run: "read_chain dev dma sz buf 512 ?pos c s = Some s'"
    using c(2) s1(1) s2(1) nx s'(1) Cons.prems(4)
    by (subst read_chain.simps, unfold Let_def pos(1) pos(2,3) np) (simp del: of_nat_add)
  have "?pos + of_nat i \<notin> addr_range (buf + of_nat (k + t)) (unat sz - (k + t))" if "i < t" for i
  proof
    assume "?pos + of_nat i \<in> addr_range (buf + of_nat (k + t)) (unat sz - (k + t))"
    then obtain j where j: "j < unat sz - (k + t)" "?pos + of_nat i = buf + of_nat (k + t) + of_nat j" by (rule addr_rangeE)
    then have "buf + of_nat (k + i) = buf + of_nat (k + t + j)" by (simp add: algebra_simps)
    then show False
      using offset_eq_iff [of "k + i" "k + t + j" buf] j(1) that pos(4) unat_u32_bound [of sz] by linarith
  qed
  then have apart: "addr_range ?pos t \<inter> addr_range (buf + of_nat (k + t)) (unat sz - (k + t)) = {}"
    unfolding disjoint_iff by (blast elim: addr_rangeE)
  have "vload8 s' x = vload8 s2 x" if "x \<in> addr_range ?pos t" for x
    using s'(5) that apart inbuf B(3,4) by blast
  then have first: "bytes_at (vload8 s') ?pos (take t ?sec)"
    using bytes_at_cong [OF s2(4), of "vload8 s'"] len by simp
  have spl: "addr_range ?pos (unat sz - k) = addr_range ?pos t \<union> addr_range (buf + of_nat (k + t)) (unat sz - (k + t))"
    using addr_range_add [of ?pos t "unat sz - (k + t)"] pos(4) np by simp
  have "take (unat sz - k) (?sec @ ys) = take t ?sec @ take (unat sz - (k + t)) ys" for ys
    by (simp add: t_def sector_length min_def)
  then have "bytes_at (vload8 s') ?pos
      (take (unat sz - k) (concat (map (\<lambda>c. img ((data + (ucast c - 2)) AND 0x0FFFFFFF)) (x # cs))))"
    using first s'(4) len c(1) by (simp add: bytes_at_append np del: take_append of_nat_add)
  moreover have "\<forall>y \<in> R. y \<notin> addr_range dma 512 \<union> addr_range ?pos (unat sz - k) \<longrightarrow> vload8 s' y = vload8 s y"
    using s'(5) out2 unfolding spl by simp
  ultimately show ?case using run s'(2,3) f2 by auto
qed

end

text \<open>C39. \<^verbatim>\<open>fs_read_file\<close> (fs.c) returns the contents of the file: when the chain of clusters that
  starts in the directory entry ends, and \<^verbatim>\<open>malloc\<close> delivers a buffer, the loop returns and the
  buffer holds the data of the clusters in the order of the chain, cut to the size in the
  directory entry, on a volume with one 512-byte sector per cluster and any drive that
  follows the ATA protocol. After \<^verbatim>\<open>malloc\<close>, nothing outside the file buffer and the transfer
  buffer changes.\<close>

theorem fs_read_file_correct:
  assumes "ata_disk dev img" and "file_size entry s = Some sz" and "sz \<noteq> 0"
    and "malloc sz s = Some (buf, s1)" and "buf \<noteq> 0" and "fs_buffers R dma_buffer buf (unat sz) fat s1"
    and "first_cluster_low entry s1 = Some c" and "sectors_per_cluster s1 = Some 1" and "bytes_per_sector s1 = Some 512"
    and "chain (fat_next fat) c cs"
  shows "\<exists>s'. fs_read_file dev dma_buffer entry s = Some (buf, s') \<and>
     bytes_at (vload8 s') buf (take (unat sz)
       (concat (map (\<lambda>c. img ((data_area_start_sector s1 + (ucast c - 2)) AND 0x0FFFFFFF)) cs))) \<and>
     disk_frame s' = disk_frame s1 \<and>
     (\<forall>x \<in> R. x \<notin> addr_range dma_buffer 512 \<union> addr_range buf (unat sz) \<longrightarrow> vload8 s' x = vload8 s1 x)"
proof -
  have "ucast (1 :: u8) * ucast (512 :: u16) = (512 :: u32)" by simp
  then have "fs_read_file dev dma_buffer entry s =
      read_chain dev dma_buffer sz buf 512 buf c s1 \<bind> (\<lambda>s. Some (buf, s))"
    using assms(2-5,7-9) by (simp add: fs_read_file_def)
  with ata_disk.read_chain_run [OF assms(1,6,10), of 0] show ?thesis by auto
qed

section \<open>A small volume\<close>

text \<open>
  A state with a mounted volume, for the examples below: one sector of FAT whose chain
  from cluster 2 has two clusters, and a root directory with the file HELLO.TXT of 600
  bytes.
\<close>

definition demo_bpb :: bytes where
  "demo_bpb = replicate 11 0 @ [0, 2] @ [1] @ replicate 8 0 @ [1, 0] @ replicate 12 0"

definition demo_fat :: bytes where
  "demo_fat = fat12 [0xFF0, 0xFFF, 3, 0xFFF] @ replicate 506 0"

definition demo_entry :: bytes where
  "demo_entry = map chr ''HELLO   TXT'' @ [0x20] @ replicate 14 0 @ [2, 0, 0x58, 2, 0, 0]"

definition boot_fs :: fs_state where
  "boot_fs = disk_state.extend boot_disk \<lparr>bpb = 0x21000, fat_buffer = 0x22000, data_area_start_sector = 33,
     root_directory_buffer = 0x24000, root_directory_size = 32\<rparr>"

abbreviation low_memory :: "u32 set" where
  "low_memory \<equiv> {a. a < 0x41000}"

lemma boot_fs_region: "mapped_region low_memory boot_fs"
proof -
  have "phys boot_fs = phys boot_disk" "cr3 boot_fs = cr3 boot_disk" "cr0_pg boot_fs = cr0_pg boot_disk"
    by (simp_all add: boot_fs_def disk_state.defs)
  then show ?thesis using boot_disk_region [of low_memory] mapped_region_cong(1) [of boot_fs boot_disk] by simp
qed

lemma boot_fs_fields:
  "heap_top boot_fs = 0x30000" "heap_end boot_fs = 0x31000" "free_list_head boot_fs = 0" "bpb boot_fs = 0x21000"
  "fat_buffer boot_fs = 0x22000" "root_directory_buffer boot_fs = 0x24000" "root_directory_size boot_fs = 32"
  using boot_heap(4,6,7) by (simp_all add: boot_fs_def disk_state.defs boot_disk_def heap_state.defs)

lemma demo_lengths: "length demo_bpb = 36" "length demo_fat = 512" "length demo_entry = 32"
  by (simp_all add: demo_bpb_def demo_fat_def demo_entry_def)

lemma low_range: "unat a + n \<le> 0x41000 \<Longrightarrow> addr_range a n \<subseteq> low_memory"
  by (auto simp: addr_range_iff word_less_nat_alt)

lemma demo_volume:
  "\<exists>s :: fs_state. mapped_region low_memory s \<and> machine_frame s = machine_frame boot_fs \<and>
     bytes_at (vload8 s) 0x21000 demo_bpb \<and> bytes_at (vload8 s) 0x22000 demo_fat \<and> bytes_at (vload8 s) 0x24000 demo_entry"
proof -
  have r: "addr_range 0x21000 (length demo_bpb) \<subseteq> low_memory" "addr_range 0x22000 (length demo_fat) \<subseteq> low_memory"
      "addr_range 0x24000 (length demo_entry) \<subseteq> low_memory"
    by (simp_all add: low_range demo_lengths)
  note l = demo_lengths
  from vm.wr_bytes [OF boot_fs_region r(1)] l obtain s1 :: fs_state where
    s1: "mapped_region low_memory s1" "machine_frame s1 = machine_frame boot_fs" "bytes_at (vload8 s1) 0x21000 demo_bpb"
    by auto
  from vm.wr_bytes [OF s1(1) r(2)] l obtain s2 where
    s2: "mapped_region low_memory s2" "machine_frame s2 = machine_frame s1" "bytes_at (vload8 s2) 0x22000 demo_fat"
      "\<forall>b \<in> low_memory. b \<notin> addr_range 0x22000 512 \<longrightarrow> vload8 s2 b = vload8 s1 b" by auto
  from vm.wr_bytes [OF s2(1) r(3)] l obtain s3 where
    s3: "mapped_region low_memory s3" "machine_frame s3 = machine_frame s2" "bytes_at (vload8 s3) 0x24000 demo_entry"
      "\<forall>b \<in> low_memory. b \<notin> addr_range 0x24000 32 \<longrightarrow> vload8 s3 b = vload8 s2 b" by auto
  have "vload8 s3 x = vload8 s1 x" if "x \<in> addr_range 0x21000 (length demo_bpb)" for x
    using that s2(4) s3(4) by (simp add: addr_range_iff l word_less_nat_alt)
  then have b: "bytes_at (vload8 s3) 0x21000 demo_bpb" by (rule bytes_at_cong [OF s1(3)])
  have "vload8 s3 x = vload8 s2 x" if "x \<in> addr_range 0x22000 (length demo_fat)" for x
    using that s3(4) by (simp add: addr_range_iff l word_less_nat_alt)
  then have "bytes_at (vload8 s3) 0x22000 demo_fat" by (rule bytes_at_cong [OF s2(3)])
  with b s1 s2 s3 show ?thesis by (intro exI [of _ s3]) simp
qed

lemma demo_members:
  assumes "bytes_at (vload8 s) (bpb s) demo_bpb" "bytes_at (vload8 s) (fat_buffer s) demo_fat"
  shows "sectors_per_fat s = Some 1" "bytes_per_sector s = Some 512" "sectors_per_cluster s = Some 1" "fat_loaded s demo_fat"
proof -
  have b: "vload8 s (bpb s + of_nat i) = Some (demo_bpb ! i)" if "i < 36" for i
    using assms(1) that demo_lengths(1) unfolding bytes_at_def by simp
  have n: "demo_bpb ! 22 = 1" "demo_bpb ! 23 = 0" "demo_bpb ! 11 = 0" "demo_bpb ! 12 = 2" "demo_bpb ! 13 = 1"
    by (simp_all add: demo_bpb_def nth_append)
  show spf: "sectors_per_fat s = Some 1"
    using b [of 22] b [of 23] by (simp add: sectors_per_fat_def vload16_def n add.assoc)
  show bps: "bytes_per_sector s = Some 512"
    using b [of 11] b [of 12] by (simp add: bytes_per_sector_def vload16_def n add.assoc push_bit_eq_mult)
  show "sectors_per_cluster s = Some 1"
    using b [of 13] by (simp add: sectors_per_cluster_def n)
  show "fat_loaded s demo_fat" using spf bps assms(2) demo_lengths(2) by (simp add: fat_loaded_def)
qed

theorem fs_get_fat_entry_decodes_witness:
  "\<exists>s :: fs_state. fat_loaded s demo_fat \<and> fs_get_fat_entry 2 s = Some 3 \<and> fs_get_fat_entry 3 s = Some 0xFFF \<and>
     fs_get_fat_entry 341 s = Some 0xFFF"
proof -
  from demo_volume obtain s :: fs_state where
    s: "machine_frame s = machine_frame boot_fs" "bytes_at (vload8 s) 0x21000 demo_bpb" "bytes_at (vload8 s) 0x22000 demo_fat"
    by blast
  from machine_frameD [OF s(1)] obtain m where "s = boot_fs\<lparr>phys := m\<rparr>" ..
  then have f: "bpb s = 0x21000" "fat_buffer s = 0x22000" by (simp_all add: boot_fs_fields)
  then have l: "fat_loaded s (fat12 [0xFF0, 0xFFF, 3, 0xFFF] @ replicate 506 0)"
    using demo_members(4) [of s] s(2,3) by (simp add: demo_fat_def)
  have e: "\<forall>e \<in> set [0xFF0, 0xFFF, 3, 0xFFF]. e < (0x1000 :: u16)" by simp
  show ?thesis
    using fs_get_fat_entry_decodes [OF l e, of 2] fs_get_fat_entry_decodes [OF l e, of 3]
      fs_get_fat_entry_decodes [OF l e, of 341] l
    by (intro exI [of _ s]) (simp add: demo_fat_def)
qed

lemma demo_malloc:
  assumes "mapped_region low_memory s" and "machine_frame s = machine_frame boot_fs"
  shows "\<exists>s1. malloc 600 s = Some (0x30008, s1) \<and> mapped_region low_memory s1 \<and> bpb s1 = 0x21000 \<and> fat_buffer s1 = 0x22000 \<and>
     data_area_start_sector s1 = 33 \<and> (\<forall>x \<in> low_memory. x \<notin> addr_range 0x30000 8 \<longrightarrow> vload8 s1 x = vload8 s x)"
proof -
  from machine_frameD [OF assms(2)] obtain m where m: "s = boot_fs\<lparr>phys := m\<rparr>" ..
  let ?s = "s\<lparr>heap_top := 0x30000 + (8 + 600)\<rparr>"
  have c: "phys ?s = phys s" "cr3 ?s = cr3 s" "cr0_pg ?s = cr0_pg s" by simp_all
  note mc = mapped_region_cong [OF c]
  have r: "addr_range 0x30000 4 \<subseteq> low_memory" "addr_range 0x30004 4 \<subseteq> low_memory" by (simp_all add: low_range)
  have u: "4 dvd unat (0x30000 :: u32)" "4 dvd unat (0x30004 :: u32)" by simp_all
  have "mapped_region low_memory ?s" using assms(1) mc(1) by simp
  from vstore32_run [OF this r(1) u(1), of 600] obtain s1 where
    s1: "vstore32 0x30000 600 ?s = Some s1" "mapped_region low_memory s1" "machine_frame s1 = machine_frame ?s"
      "\<forall>b \<in> low_memory. b \<notin> addr_range 0x30000 4 \<longrightarrow> vload8 s1 b = vload8 s b" using mc(2) by auto
  from vstore32_run [OF s1(2) r(2) u(2), of 0] obtain s2 where
    s2: "vstore32 0x30004 0 s1 = Some s2" "mapped_region low_memory s2" "machine_frame s2 = machine_frame s1"
      "\<forall>b \<in> low_memory. b \<notin> addr_range 0x30004 4 \<longrightarrow> vload8 s2 b = vload8 s1 b" by blast
  have "machine_frame s2 = machine_frame ?s" using s1(3) s2(3) by simp
  then obtain m2 where m2: "s2 = ?s\<lparr>phys := m2\<rparr>" using machine_frameD by blast
  have find: "malloc_find 600 Head s = Some (0, s)" by (subst malloc_find.simps) (simp add: m boot_fs_fields)
  have top: "heap_top s = 0x30000" "heap_end s = 0x31000" by (simp_all add: m boot_fs_fields)
  have "malloc_expand 600 s = Some (True, s)" by (subst malloc_expand.simps) (simp add: top)
  then have "malloc 600 s = Some (0x30008, s2)"
    using find s1(1) s2(1) by (simp add: malloc_def top)
  moreover have "vload8 s2 x = vload8 s x" if "x \<in> low_memory" "x \<notin> addr_range 0x30000 8" for x
  proof -
    have "x \<notin> addr_range 0x30000 4" "x \<notin> addr_range 0x30004 4" using that(2) by (auto simp: addr_range_iff)
    then show ?thesis using s1(4) s2(4) that(1) by simp
  qed
  ultimately show ?thesis using s2(2) by (intro exI [of _ s2]) (simp add: m2 m boot_fs_fields boot_fs_def disk_state.defs)
qed

theorem fs_read_file_correct_witness:
  "\<exists>(s :: fs_state) s'. fs_read_file (ata_device (\<lambda>lba. replicate 512 (ucast lba))) 0x20000 0x24000 s = Some (0x30008, s') \<and>
     bytes_at (vload8 s') 0x30008 (replicate 512 33 @ replicate 88 34)"
proof -
  let ?img = "\<lambda>lba :: u32. replicate 512 (ucast lba :: u8)"
  from demo_volume obtain s :: fs_state where
    s: "mapped_region low_memory s" "machine_frame s = machine_frame boot_fs" "bytes_at (vload8 s) 0x21000 demo_bpb"
      "bytes_at (vload8 s) 0x22000 demo_fat" "bytes_at (vload8 s) 0x24000 demo_entry" by blast
  from demo_malloc [OF s(1,2)] obtain s1 where
    s1: "malloc 600 s = Some (0x30008, s1)" "mapped_region low_memory s1" "bpb s1 = 0x21000" "fat_buffer s1 = 0x22000"
      "data_area_start_sector s1 = 33" "\<forall>x \<in> low_memory. x \<notin> addr_range 0x30000 8 \<longrightarrow> vload8 s1 x = vload8 s x" by blast
  have keep: "bytes_at (vload8 s1) a bs" if "bytes_at (vload8 s) a bs" "unat a + length bs \<le> 0x30000" for a bs
    by (rule bytes_at_cong [OF that(1)]) (use that(2) s1(6) in \<open>simp add: addr_range_iff word_less_nat_alt\<close>)
  have b1: "bytes_at (vload8 s1) (bpb s1) demo_bpb" "bytes_at (vload8 s1) (fat_buffer s1) demo_fat"
      "bytes_at (vload8 s1) 0x24000 demo_entry"
    using keep s(3-5) demo_lengths by (simp_all add: s1(3,4))
  note mem = demo_members [OF b1(1,2)]
  have e: "demo_entry ! 26 = 2" "demo_entry ! 27 = 0" "demo_entry ! 28 = 0x58" "demo_entry ! 29 = 2"
      "demo_entry ! 30 = 0" "demo_entry ! 31 = 0"
    by (simp_all add: demo_entry_def nth_append)
  have low: "first_cluster_low 0x24000 s1 = Some 2"
  proof -
    have "vload8 s1 (0x24000 + of_nat i) = Some (demo_entry ! i)" if "i < 32" for i
      using b1(3) that demo_lengths(3) unfolding bytes_at_def by simp
    from this [of 26] this [of 27] show ?thesis by (simp add: first_cluster_low_def vload16_def e)
  qed
  have size: "file_size 0x24000 s = Some 600"
  proof -
    have "vload8 s (0x24000 + of_nat i) = Some (demo_entry ! i)" if "i < 32" for i
      using s(5) that demo_lengths(3) unfolding bytes_at_def by simp
    from this [of 28] this [of 29] this [of 30] this [of 31]
    have "bytes_at (vload8 s) 0x2401C [0x58, 2, 0, 0]" by (simp add: bytes_at_Cons bytes_at_Nil e)
    from vload32_bytes_at [OF s(1) _ _ this] show ?thesis
      by (simp add: file_size_def low_range push_bit_eq_mult)
  qed
  have "fs_buffers low_memory 0x20000 0x30008 (unat (600 :: u32)) demo_fat s1"
    using s1(2) mem(4) by (auto simp: fs_buffers_def s1(3,4) addr_range_iff demo_lengths word_less_nat_alt)
  moreover have "chain (fat_next demo_fat) 2 [2, 3]"
    using fat_next_fat12 [of "[0xFF0, 0xFFF, 3, 0xFFF]" 2] fat_next_fat12 [of "[0xFF0, 0xFFF, 3, 0xFFF]" 3]
    by (simp add: demo_fat_def)
  ultimately obtain s' where "fs_read_file (ata_device ?img) 0x20000 0x24000 s = Some (0x30008, s')"
      "bytes_at (vload8 s') 0x30008 (take 600 (concat (map (\<lambda>c. (sector_of \<circ> ?img) ((33 + (ucast c - 2)) AND 0x0FFFFFFF)) [2, 3 :: u16])))"
    using fs_read_file_correct [OF drive.ata_disk_axioms size _ s1(1) _ _ low mem(3,2), of low_memory "0x20000" demo_fat "[2, 3]" ?img]
    by (auto simp: s1(5))
  then show ?thesis by (intro exI) (simp add: sector_of_def)
qed

section \<open>Finding a file\<close>

text \<open>
  The directory form of a name, as a function of its text: up to eight characters before
  the first dot and up to three after it, in upper case and padded with spaces.
\<close>

definition pad :: "nat \<Rightarrow> bytes \<Rightarrow> bytes" where
  "pad n xs = xs @ replicate (n - length xs) (chr CHR '' '')"

text \<open>
  The name field that the two loops build, for any name; names that are not of the form
  base or base.extension are included.
\<close>

definition fat83 :: "bytes \<Rightarrow> bytes option" where
  "fat83 name =
     (let base = take 8 (takeWhile (\<lambda>c. c \<noteq> chr CHR ''.'') name);
          rest = drop (length base) name;
          ext = (if rest \<noteq> [] \<and> hd rest = chr CHR ''.'' then tl rest else rest)
      in if length ext \<le> 3 then Some (pad 8 (map upper base) @ pad 3 (map upper ext)) else None)"

lemma fat_name_base_run:
  assumes "0 \<notin> set t" and "j \<le> 8" and "length fat = 12"
  defines "b \<equiv> take (8 - j) (takeWhile (\<lambda>c. c \<noteq> chr CHR ''.'') t)"
  shows "fat_name_base (t @ 0 # z) j fat =
     Some (drop (length b) t @ 0 # z, take j fat @ map upper b @ drop (j + length b) fat)"
  using assms(1-3) unfolding b_def
proof (induction t arbitrary: j fat)
  case (Cons c t)
  show ?case
  proof (cases "c \<noteq> chr CHR ''.'' \<and> j < 8")
    case True
    then have "8 - j = Suc (8 - Suc j)" by linarith
    then show ?thesis
      using True Cons.prems Cons.IH [of "Suc j" "fat[j := upper c]"]
      by (simp add: take_Suc_update)
  next
    case False
    then have "c = chr CHR ''.'' \<or> j = 8" using Cons.prems(2) by linarith
    then show ?thesis using Cons.prems by (elim disjE) simp_all
  qed
qed simp

lemma fat_name_ext_run:
  assumes "0 \<notin> set t" and "j \<le> 11" and "length fat = 12"
  shows "fat_name_ext (t @ 0 # z) j fat =
     Some (drop (11 - j) t @ 0 # z, take j fat @ map upper (take (11 - j) t) @ drop (j + min (11 - j) (length t)) fat)"
  using assms
proof (induction t arbitrary: j fat)
  case (Cons c t)
  show ?case
  proof (cases "j < 11")
    case True
    then have "11 - j = Suc (11 - Suc j)" by linarith
    then show ?thesis
      using True Cons.prems Cons.IH [of "Suc j" "fat[j := upper c]"]
      by (simp add: take_Suc_update)
  next
    case False
    with Cons.prems show ?thesis by simp
  qed
qed simp

lemma fat_name_run:
  assumes "text_of filename = Some name"
  shows "fs_find_file filename s =
     (case fat83 name of None \<Rightarrow> Some 0 | Some n \<Rightarrow> find_entry (n @ [0]) 0 s)"
proof -
  from assms obtain z where z: "filename = name @ 0 # z" "0 \<notin> set name" by (rule text_of_SomeE)
  let ?sp = "chr CHR '' ''"
  have sp: "ucast (ucast ?sp :: u32) = ?sp" by (simp add: chr_def)
  define fat where "fat = replicate 11 ?sp @ [0]"
  have ms: "memset (replicate 12 0) (ucast ?sp) 11 = Some (replicate 11 ?sp @ [0])" by (simp add: memset_eq sp)
  have upd: "(replicate 11 ?sp @ [0])[11 := 0] = fat" by (simp add: fat_def list_update_append)
  define b where "b = take 8 (takeWhile (\<lambda>c. c \<noteq> chr CHR ''.'') name)"
  define r where "r = drop (length b) name"
  define e where "e = (if r \<noteq> [] \<and> hd r = chr CHR ''.'' then tl r else r)"
  have f83: "fat83 name = (if length e \<le> 3 then Some (pad 8 (map upper b) @ pad 3 (map upper e)) else None)"
    unfolding fat83_def Let_def b_def [symmetric] r_def [symmetric] e_def [symmetric] by (rule refl)
  have bl: "length b \<le> 8" by (simp add: b_def)
  have fb: "fat_name_base filename 0 fat = Some (r @ 0 # z, map upper b @ drop (length b) fat)"
    using fat_name_base_run [OF z(2), of 0 fat z] by (simp add: z(1) b_def r_def fat_def)
  have rz: "0 \<notin> set r" using z(2) by (auto simp: r_def dest: in_set_dropD)
  then have ez: "0 \<notin> set e" by (auto simp: e_def dest: list.set_sel(2))
  have skip: "(if hd (r @ 0 # z) = chr CHR ''.'' then tl (r @ 0 # z) else r @ 0 # z) = e @ 0 # z"
    by (cases r) (simp_all add: e_def chr_def)
  have fe: "fat_name_ext (e @ 0 # z) 8 (map upper b @ drop (length b) fat) =
      Some (drop 3 e @ 0 # z, pad 8 (map upper b) @ map upper (take 3 e) @ drop (8 + min 3 (length e)) fat)"
    using fat_name_ext_run [OF ez, of 8 "map upper b @ drop (length b) fat" z] bl
    by (simp add: fat_def pad_def)
  have run: "fs_find_file filename s = (if hd (drop 3 e @ 0 # z) \<noteq> 0 then Some 0
      else find_entry (pad 8 (map upper b) @ map upper (take 3 e) @ drop (8 + min 3 (length e)) fat) 0 s)"
    by (simp add: fs_find_file_def ms upd fb skip fe)
  show ?thesis
  proof (cases "length e \<le> 3")
    case True
    then have "map upper (take 3 e) @ drop (8 + min 3 (length e)) fat = pad 3 (map upper e) @ [0]"
      by (simp add: pad_def fat_def)
    moreover have "fat83 name = Some (pad 8 (map upper b) @ pad 3 (map upper e))"
      using True by (simp add: f83)
    ultimately show ?thesis using run True by simp
  next
    case False
    then have "drop 3 e \<noteq> []" by simp
    then have "hd (drop 3 e @ 0 # z) \<in> set e" by (metis hd_append2 hd_in_set in_set_dropD)
    then have "hd (drop 3 e @ 0 # z) \<noteq> 0" using ez by metis
    moreover have "fat83 name = None"
      using False by (simp add: f83)
    ultimately show ?thesis using run by simp
  qed
qed

text \<open>
  An entry that the search can return: no entry up to it starts with the end marker, it is
  neither deleted nor part of a long name nor the volume label, and its name matches.
\<close>

definition visible :: "bytes \<Rightarrow> bool" where
  "visible e \<longleftrightarrow> e ! 0 \<noteq> 0xE5 \<and> e ! 11 AND 0x0F \<noteq> 0x0F \<and> e ! 11 AND 0x08 = 0"

definition dir_match :: "bytes \<Rightarrow> bytes list \<Rightarrow> nat \<Rightarrow> bool" where
  "dir_match n es k \<longleftrightarrow> k < length es \<and> (\<forall>i \<le> k. es ! i ! 0 \<noteq> 0) \<and> visible (es ! k) \<and> take 11 (es ! k) = n"

text \<open>The search as a function of the entries.\<close>

fun dir_lookup :: "bytes \<Rightarrow> bytes list \<Rightarrow> nat option" where
  "dir_lookup n [] = None"
| "dir_lookup n (e # es) =
     (if e ! 0 = 0 then None
      else if visible e \<and> take 11 e = n then Some 0 else map_option Suc (dir_lookup n es))"

lemma dir_match_Cons:
  "dir_match n (e # es) k \<longleftrightarrow> e ! 0 \<noteq> 0 \<and>
     (case k of 0 \<Rightarrow> visible e \<and> take 11 e = n | Suc j \<Rightarrow> dir_match n es j)"
proof (cases k)
  case (Suc j)
  have "(\<forall>i \<le> Suc j. (e # es) ! i ! 0 \<noteq> 0) \<longleftrightarrow> e ! 0 \<noteq> 0 \<and> (\<forall>i \<le> j. es ! i ! 0 \<noteq> 0)"
    by (simp only: less_Suc_eq_le [symmetric] All_less_Suc2 nth_Cons_0 nth_Cons_Suc)
  then show ?thesis by (auto simp: dir_match_def Suc)
qed (auto simp: dir_match_def)

lemma dir_lookup_least:
  "dir_lookup n es = (if \<exists>k. dir_match n es k then Some (LEAST k. dir_match n es k) else None)"
proof (induction es)
  case Nil
  then show ?case by (simp add: dir_match_def)
next
  case (Cons e es)
  consider "e ! 0 = 0" | "e ! 0 \<noteq> 0" "visible e \<and> take 11 e = n" | "e ! 0 \<noteq> 0" "\<not> (visible e \<and> take 11 e = n)" by blast
  then show ?case
  proof cases
    case 2
    then have "dir_match n (e # es) 0" by (simp add: dir_match_Cons)
    then have "(LEAST k. dir_match n (e # es) k) = 0" by (intro Least_equality) simp_all
    with \<open>dir_match n (e # es) 0\<close> 2 show ?thesis by auto
  next
    case 3
    then have m: "dir_match n (e # es) k \<longleftrightarrow> (\<exists>j. k = Suc j \<and> dir_match n es j)" for k
      by (auto simp: dir_match_Cons split: nat.splits)
    have "(LEAST k. dir_match n (e # es) k) = Suc (LEAST k. dir_match n es k)" if "dir_match n es j" for j
      using Least_Suc [of "dir_match n (e # es)" "Suc j"] that m by simp
    then show ?thesis using Cons.IH 3 m by auto
  qed (auto simp: dir_match_Cons)
qed

text \<open>The directory in memory.\<close>

definition dir_loaded :: "'a fs_state_scheme \<Rightarrow> bytes list \<Rightarrow> bool" where
  "dir_loaded s es \<longleftrightarrow> unat (root_directory_size s) = 32 * length es \<and> (\<forall>e \<in> set es. length e = 32) \<and>
     bytes_at (vload8 s) (root_directory_buffer s) (concat es)"

lemma vload_bytes_at: "bytes_at (vload8 s) a bs \<Longrightarrow> vload_bytes (length bs) a s = Some bs"
  by (induction bs arbitrary: a) (simp_all add: bytes_at_Cons)

lemma length_concat_const: "\<forall>e \<in> set es. length e = n \<Longrightarrow> length (concat es) = n * length es"
  by (induction es) simp_all

lemma find_entry_run:
  assumes "dir_loaded s (pre @ es)" and "length n = 11"
  shows "find_entry (n @ [0]) (of_nat (32 * length pre)) s =
     Some (case dir_lookup n es of None \<Rightarrow> 0 | Some k \<Rightarrow> root_directory_buffer s + of_nat (32 * (length pre + k)))"
  using assms(1)
proof (induction es arbitrary: pre)
  case Nil
  then have "unat (root_directory_size s) = 32 * length pre" by (simp add: dir_loaded_def)
  then have "of_nat (32 * length pre) = root_directory_size s" by (metis of_nat_unat ucast_id)
  then show ?case by (subst find_entry.simps) simp
next
  case (Cons e es)
  let ?o = "of_nat (32 * length pre) :: u32" and ?r = "root_directory_buffer s"
  from Cons.prems have d: "unat (root_directory_size s) = 32 * (length pre + Suc (length es))" "length e = 32"
      "\<forall>e \<in> set pre. length e = 32" "bytes_at (vload8 s) ?r (concat pre @ e @ concat es)"
    by (simp_all add: dir_loaded_def)
  have "32 * length pre < unat (root_directory_size s)" using d(1) by simp
  also have "\<dots> < 4294967296" by simp
  finally have "32 * length pre < 4294967296" .
  then have lt: "?o < root_directory_size s" using d(1) by (simp add: word_less_nat_alt unat_of_nat_u32 del: of_nat_mult)
  have e: "bytes_at (vload8 s) (?r + ?o) e"
    using d(4) length_concat_const [OF d(3)] by (simp add: bytes_at_append del: of_nat_mult)
  have at: "vload8 s (?r + ?o + of_nat i) = Some (e ! i)" if "i < 32" for i
    using e that d(2) unfolding bytes_at_def by simp
  have e11: "entry_attributes (?r + ?o) s = Some (e ! 11)" using at [of 11] by (simp add: entry_attributes_def)
  have e0: "vload8 s (?r + ?o) = Some (e ! 0)" using at [of 0] by simp
  have "bytes_at (vload8 s) (?r + ?o) (take 8 e @ drop 8 e)" using e by simp
  then have "bytes_at (vload8 s) (?r + ?o) (take 8 e)" "bytes_at (vload8 s) (?r + ?o + 8) (take 3 (drop 8 e))"
    using d(2) unfolding bytes_at_append by (simp_all add: bytes_at_take)
  then have nm: "vload_bytes 8 (?r + ?o) s = Some (take 8 e)" "vload_bytes 3 (?r + ?o + 8) s = Some (take 3 (drop 8 e))"
    using vload_bytes_at [of s _ "take 8 e"] vload_bytes_at [of s _ "take 3 (drop 8 e)"] d(2) by fastforce+
  from memcmp_zero [of 8 "n @ [0]" "take 8 e"] assms(2) d(2) obtain c1 where
    c1: "memcmp (n @ [0]) (take 8 e) 8 = Some c1" "c1 = 0 \<longleftrightarrow> take 8 n = take 8 e" by auto
  from memcmp_zero [of 3 "drop 8 (n @ [0])" "take 3 (drop 8 e)"] assms(2) d(2) obtain c2 where
    c2: "memcmp (drop 8 (n @ [0])) (take 3 (drop 8 e)) 3 = Some c2" "c2 = 0 \<longleftrightarrow> drop 8 n = take 3 (drop 8 e)" by auto
  have "take 11 e = n \<longleftrightarrow> take 8 n @ drop 8 n = take 8 e @ take 3 (drop 8 e)" using take_add [of 8 3 e] by auto
  also have "\<dots> \<longleftrightarrow> take 8 n = take 8 e \<and> drop 8 n = take 3 (drop 8 e)"
    by (rule append_eq_append_conv) (simp add: assms(2) d(2))
  finally have eq: "take 11 e = n \<longleftrightarrow> c1 = 0 \<and> c2 = 0" by (simp only: c1(2) c2(2))
  have nx: "?o + 32 = of_nat (32 * length (pre @ [e]))" by (simp add: algebra_simps)
  have IH: "find_entry (n @ [0]) (?o + 32) s =
      Some (case dir_lookup n es of None \<Rightarrow> 0 | Some k \<Rightarrow> ?r + of_nat (32 * (length pre + Suc k)))"
    unfolding nx using Cons.IH [of "pre @ [e]"] Cons.prems by (simp del: of_nat_mult split: option.splits)
  show ?case
    using lt e0 e11 nm c1(1) c2(1) eq IH
    by (subst find_entry.simps) (auto simp: Let_def visible_def simp del: of_nat_mult split: option.splits)
qed

text \<open>
  The name field of a directory entry (FAT12): eight bytes for the name and three for the
  extension, in upper case and padded with spaces.
\<close>

definition fat_upper :: "u8 \<Rightarrow> u8" where
  "fat_upper c = (if 97 \<le> c \<and> c \<le> 122 then c - 32 else c)"

definition short_name :: "bytes \<Rightarrow> bytes \<Rightarrow> bytes" where
  "short_name base ext = pad 8 (map fat_upper base) @ pad 3 (map fat_upper ext)"

lemma length_short_name: "length base \<le> 8 \<Longrightarrow> length ext \<le> 3 \<Longrightarrow> length (short_name base ext) = 11"
  by (simp add: short_name_def pad_def)

lemma sint_u8: "sint c = (if uint c < 128 then uint c else uint c - 256)" for c :: u8
proof -
  have "sint c = uint c - 256 * of_bool (bit (uint c) 7)"
    using uint_lt2p [of c] by (simp add: sint_uint signed_take_bit_eq_take_bit_minus take_bit_int_eq_self)
  moreover have "bit (uint c) 7 \<longleftrightarrow> \<not> uint c < 128"
  proof -
    have "uint c div 128 < 2" "0 \<le> uint c div 128" using uint_lt2p [of c] by (simp_all add: pos_imp_zdiv_nonneg_iff)
    then show ?thesis by (simp add: bit_iff_odd) presburger
  qed
  ultimately show ?thesis by simp
qed

lemma upper_fat: "upper c = fat_upper c"
proof -
  have b: "0 \<le> uint c" "uint c < 256" using uint_lt2p [of c] by simp_all
  have u: "97 \<le> c \<and> c \<le> 122 \<longleftrightarrow> 97 \<le> uint c \<and> uint c \<le> 122" by (simp add: word_le_def)
  have w: "word_of_int (sint c) = c" by simp
  have s: "97 \<le> sint c \<and> sint c \<le> 122 \<longleftrightarrow> 97 \<le> uint c \<and> uint c \<le> 122" using b by (auto simp: sint_u8)
  show ?thesis
    unfolding upper_def fat_upper_def u toupper_def using s by (simp add: chr_def word_of_int_minus)
qed

lemma fat83_short_name:
  assumes "length base \<le> 8" and "chr CHR ''.'' \<notin> set base" and "base \<noteq> []"
  shows "fat83 (base @ (if ext = [] then [] else chr CHR ''.'' # ext)) =
     (if length ext \<le> 3 then Some (short_name base ext) else None)"
proof -
  have up: "upper = fat_upper" by (rule ext) (rule upper_fat)
  have tw: "takeWhile (\<lambda>c. c \<noteq> chr CHR ''.'') (base @ (if ext = [] then [] else chr CHR ''.'' # ext)) = base"
    using assms(2) by (subst takeWhile_append2) auto
  show ?thesis
    unfolding fat83_def Let_def tw using assms(1) by (simp add: short_name_def up)
qed

text \<open>C40. \<^verbatim>\<open>fs_find_file\<close> (fs.c) implements the lookup in the root directory. For a name of one to
  eight characters with an optional extension, the result is the address of the first entry
  with this name in any case that is neither deleted nor part of a long name nor a volume
  label and that stands before the end marker, or the null pointer when there is none. With
  an extension of more than three characters the file is not found. The search always
  returns.\<close>

theorem fs_find_file_correct:
  assumes "text_of filename = Some (base @ (if ext = [] then [] else chr CHR ''.'' # ext))"
    and "base \<noteq> []" and "length base \<le> 8" and "chr CHR ''.'' \<notin> set base \<union> set ext" and "dir_loaded s es"
  shows "fs_find_file filename s = Some
     (if length ext \<le> 3 \<and> (\<exists>k. dir_match (short_name base ext) es k)
      then root_directory_buffer s + of_nat (32 * (LEAST k. dir_match (short_name base ext) es k)) else 0)"
proof -
  let ?n = "short_name base ext"
  have f: "fs_find_file filename s = (if length ext \<le> 3 then find_entry (?n @ [0]) 0 s else Some 0)"
    using fat_name_run [OF assms(1), of s] fat83_short_name [OF assms(3) _ assms(2), of ext] assms(4) by simp
  show ?thesis
  proof (cases "length ext \<le> 3")
    case True
    from find_entry_run [OF _ length_short_name [OF assms(3) True], of s "[]" es] assms(5)
    have "find_entry (?n @ [0]) 0 s =
        Some (case dir_lookup ?n es of None \<Rightarrow> 0 | Some k \<Rightarrow> root_directory_buffer s + of_nat (32 * k))"
      by (simp del: of_nat_mult split: option.splits)
    with True f show ?thesis
      unfolding dir_lookup_least by (cases "\<exists>k. dir_match ?n es k") (auto simp del: of_nat_mult)
  next
    case False
    with f show ?thesis by simp
  qed
qed

theorem fs_find_file_correct_witness:
  "\<exists>s :: fs_state. dir_loaded s [demo_entry] \<and> fs_find_file (cstr ''Hello.txt'') s = Some 0x24000 \<and>
     fs_find_file (cstr ''hello.tx'') s = Some 0"
proof -
  from demo_volume obtain s :: fs_state where
    s: "machine_frame s = machine_frame boot_fs" "bytes_at (vload8 s) 0x24000 demo_entry" by blast
  from machine_frameD [OF s(1)] obtain m where "s = boot_fs\<lparr>phys := m\<rparr>" ..
  then have f: "root_directory_buffer s = 0x24000" "root_directory_size s = 32" by (simp_all add: boot_fs_fields)
  then have l: "dir_loaded s [demo_entry]" using s(2) by (simp add: dir_loaded_def demo_lengths)
  let ?dot = "\<lambda>ext. if ext = [] then [] else chr CHR ''.'' # ext"
  have t: "text_of (cstr ''Hello.txt'') = Some (map chr ''Hello'' @ ?dot (map chr ''txt''))"
      "text_of (cstr ''hello.tx'') = Some (map chr ''hello'' @ ?dot (map chr ''tx''))"
    by (simp_all add: cstr_def chr_def)
  have side: "length (map chr ''Hello'') \<le> 8" "length (map chr ''hello'') \<le> 8"
      "chr CHR ''.'' \<notin> set (map chr ''Hello'') \<union> set (map chr ''txt'')"
      "chr CHR ''.'' \<notin> set (map chr ''hello'') \<union> set (map chr ''tx'')"
      "map chr ''Hello'' \<noteq> []" "map chr ''hello'' \<noteq> []"
    by (simp_all add: chr_def)
  have n: "short_name (map chr ''Hello'') (map chr ''txt'') = map chr ''HELLO   TXT''"
      "short_name (map chr ''hello'') (map chr ''tx'') = map chr ''HELLO   TX ''"
    by (simp_all add: short_name_def pad_def chr_def fat_upper_def numeral_3_eq_3)
  have m: "dir_match (map chr ''HELLO   TXT'') [demo_entry] k \<longleftrightarrow> k = 0" "\<not> dir_match (map chr ''HELLO   TX '') [demo_entry] k" for k
    by (auto simp: dir_match_def demo_entry_def visible_def chr_def nth_append)
  have no: "\<not> (\<exists>k. dir_match (map chr ''HELLO   TX '') [demo_entry] k)" using m(2) by blast
  have least: "(LEAST k. dir_match (map chr ''HELLO   TXT'') [demo_entry] k) = 0" by (rule Least_equality) (simp_all only: m(1))
  have "fs_find_file (cstr ''Hello.txt'') s = Some 0x24000"
    using fs_find_file_correct [OF t(1) side(5,1,3) l] unfolding n(1) least f m(1) by simp
  moreover have "fs_find_file (cstr ''hello.tx'') s = Some 0"
    using fs_find_file_correct [OF t(2) side(6,2,4) l] unfolding n(2) by (simp only: no simp_thms if_False)
  ultimately show ?thesis using l by blast
qed

end
