(* ===== verification/Shell.thy ===== *)
theory Shell
  imports Vga Keyboard Process "HOL-Library.Monad_Syntax"
begin

text \<open>
  The line editor, the history and the command-line parser of \<^verbatim>\<open>kernel/shell.c\<close>.

  The shell's variables extend the state of the text-mode driver. The C arrays
  \<^verbatim>\<open>current_line\<close> and \<^verbatim>\<open>history_buffer\<close> are lists; an access outside an array is undefined
  behaviour in C and is the result \<^term>\<open>None\<close> here. The variables of type \<^verbatim>\<open>int\<close> are
  integers: they count characters of a line and entered commands. A pointer into
  \<^verbatim>\<open>current_line\<close> is an index. What the commands do is in the theory \<^verbatim>\<open>Kernel\<close>:
  \<^verbatim>\<open>shell_handle_input\<close> takes the operation to run for a complete line as an argument.
\<close>

section \<open>State\<close>

definition PROMPT :: string where "PROMPT = ''PGOS> ''"
definition MAX_CMD_LEN :: nat where "MAX_CMD_LEN = 256"
definition HISTORY_SIZE :: nat where "HISTORY_SIZE = 10"

lemmas shell_consts = MAX_CMD_LEN_def HISTORY_SIZE_def

record shell_state = vga_state +
  history_buffer :: "bytes list"
  history_count :: int
  history_index :: int
  current_line :: bytes
  cursor_pos :: int
  line_len :: int

section \<open>Drawing the line\<close>

definition draw_line :: "'a shell_state_scheme \<Rightarrow> int \<Rightarrow> (int \<Rightarrow> u16) \<Rightarrow> int \<Rightarrow> u16" where
  "draw_line s row b =
     (let b = vga_fill 80 (row * 80) (\<lambda>b k. blank_cell) b;
          prompt_len = length PROMPT;
          b = vga_fill prompt_len (row * 80) (\<lambda>b k. vga_cell (chr (PROMPT ! nat (k - row * 80))) 0x0F) b;
          start = row * 80 + int prompt_len
      in vga_fill (nat (line_len s)) start (\<lambda>b k. vga_cell (current_line s ! nat (k - start)) 0x0F) b)"

definition shell_redraw_line :: "'a shell_state_scheme \<Rightarrow> 'a shell_state_scheme option" where
  "shell_redraw_line s =
     (if length (current_line s) < nat (line_len s) then None
      else let current_row = vga_get_cursor_row s;
               s = s\<lparr>vga_buffer := draw_line s current_row (vga_buffer s)\<rparr>
           in Some (vga_set_cursor_pos current_row (int (length PROMPT) + cursor_pos s) s))"

definition shell_init :: "'a shell_state_scheme \<Rightarrow> 'a shell_state_scheme option" where
  "shell_init s =
     do {
       l \<leftarrow> memset (current_line s) 0 MAX_CMD_LEN;
       let s = s\<lparr>current_line := l, cursor_pos := 0, line_len := 0, history_index := history_count s\<rparr>;
       Some (print_lit PROMPT s)
     }"

section \<open>Keys\<close>

definition key_left :: "'a shell_state_scheme \<Rightarrow> 'a shell_state_scheme option" where
  "key_left s =
     (if cursor_pos s > 0 then shell_redraw_line (s\<lparr>cursor_pos := cursor_pos s - 1\<rparr>) else Some s)"

definition key_right :: "'a shell_state_scheme \<Rightarrow> 'a shell_state_scheme option" where
  "key_right s =
     (if cursor_pos s < line_len s then shell_redraw_line (s\<lparr>cursor_pos := cursor_pos s + 1\<rparr>) else Some s)"

text \<open>Copying a history entry into the line, and moving to the end of the line.\<close>

definition recall_line :: "'a shell_state_scheme \<Rightarrow> 'a shell_state_scheme option" where
  "recall_line s =
     do {
       let actual_index = history_index s mod int HISTORY_SIZE;
       h \<leftarrow> arr_get (history_buffer s) actual_index;
       l \<leftarrow> strncpy (current_line s) h MAX_CMD_LEN;
       Some (s\<lparr>current_line := l\<rparr>)
     }"

definition goto_end :: "'a shell_state_scheme \<Rightarrow> 'a shell_state_scheme option" where
  "goto_end s =
     do {
       n \<leftarrow> strlen (current_line s);
       shell_redraw_line (s\<lparr>line_len := uint n, cursor_pos := uint n\<rparr>)
     }"

definition key_up :: "'a shell_state_scheme \<Rightarrow> 'a shell_state_scheme option" where
  "key_up s =
     (if history_index s > 0
      then recall_line (s\<lparr>history_index := history_index s - 1\<rparr>) \<bind> goto_end
      else Some s)"

definition key_down :: "'a shell_state_scheme \<Rightarrow> 'a shell_state_scheme option" where
  "key_down s =
     (if history_index s < history_count s
      then do {
        let s = s\<lparr>history_index := history_index s + 1\<rparr>;
        s \<leftarrow> (if history_index s = history_count s
              then map_option (\<lambda>l. s\<lparr>current_line := l\<rparr>) (arr_set (current_line s) 0 0)
              else recall_line s);
        goto_end s
      }
      else Some s)"

text \<open>The shifting loops of deletion and insertion, \<^verbatim>\<open>n\<close> steps from index \<^verbatim>\<open>i\<close>.\<close>

fun shift_left :: "nat \<Rightarrow> int \<Rightarrow> bytes \<Rightarrow> bytes option" where
  "shift_left 0 i line = Some line"
| "shift_left (Suc n) i line =
     do { c \<leftarrow> arr_get line i; line \<leftarrow> arr_set line (i - 1) c; shift_left n (i + 1) line }"

fun shift_right :: "nat \<Rightarrow> int \<Rightarrow> bytes \<Rightarrow> bytes option" where
  "shift_right 0 i line = Some line"
| "shift_right (Suc n) i line =
     do { c \<leftarrow> arr_get line (i - 1); line \<leftarrow> arr_set line i c; shift_right n (i - 1) line }"

definition key_backspace :: "'a shell_state_scheme \<Rightarrow> 'a shell_state_scheme option" where
  "key_backspace s =
     (if cursor_pos s > 0
      then do {
        l \<leftarrow> shift_left (nat (line_len s - cursor_pos s)) (cursor_pos s) (current_line s);
        let s = s\<lparr>line_len := line_len s - 1\<rparr>;
        l \<leftarrow> arr_set l (line_len s) 0;
        shell_redraw_line (s\<lparr>current_line := l, cursor_pos := cursor_pos s - 1\<rparr>)
      }
      else Some s)"

definition key_print :: "u8 \<Rightarrow> 'a shell_state_scheme \<Rightarrow> 'a shell_state_scheme option" where
  "key_print c s =
     (if line_len s < int MAX_CMD_LEN - 1
      then do {
        l \<leftarrow> shift_right (nat (line_len s - cursor_pos s)) (line_len s) (current_line s);
        l \<leftarrow> arr_set l (cursor_pos s) c;
        shell_redraw_line (s\<lparr>current_line := l, line_len := line_len s + 1, cursor_pos := cursor_pos s + 1\<rparr>)
      }
      else Some s)"

text \<open>The characters are signed: \<^verbatim>\<open>c >= ' ' && c <= '~'\<close> excludes the bytes from 0x80 on.\<close>

definition printable :: "u8 \<Rightarrow> bool" where
  "printable c \<longleftrightarrow> sint (chr CHR '' '') \<le> sint c \<and> sint c \<le> sint (chr CHR ''~'')"

definition shell_handle_input ::
    "('a shell_state_scheme \<Rightarrow> 'a shell_state_scheme option) \<Rightarrow> u8 \<Rightarrow> 'a shell_state_scheme \<Rightarrow> 'a shell_state_scheme option" where
  "shell_handle_input process_command c s =
     (if c = ARROW_LEFT then key_left s
      else if c = ARROW_RIGHT then key_right s
      else if c = ARROW_UP then key_up s
      else if c = ARROW_DOWN then key_down s
      else if c = 10 then do {
        let s = print_char c s;
        l \<leftarrow> arr_set (current_line s) (line_len s) 0;
        process_command (s\<lparr>current_line := l\<rparr>)
      }
      else if c = 8 then key_backspace s
      else if printable c then key_print c s
      else Some s)"

section \<open>Parsing a command\<close>

function skip_spaces :: "bytes \<Rightarrow> nat \<Rightarrow> nat option" where
  "skip_spaces line p =
     (if p < length line then if line ! p = chr CHR '' '' then skip_spaces line (Suc p) else Some p else None)"
  by pat_completeness auto
termination
  by (relation "measure (\<lambda>(line, p). length line - p)") auto

function find_word_end :: "bytes \<Rightarrow> nat \<Rightarrow> nat option" where
  "find_word_end line p =
     (if p < length line
      then if line ! p \<noteq> 0 \<and> line ! p \<noteq> chr CHR '' '' then find_word_end line (Suc p) else Some p
      else None)"
  by pat_completeness auto
termination
  by (relation "measure (\<lambda>(line, p). length line - p)") auto

declare skip_spaces.simps [simp del] find_word_end.simps [simp del]

text \<open>The loop that fills \<^verbatim>\<open>argv\<close>, with \<^verbatim>\<open>n\<close> free places left in it.\<close>

fun parse_args :: "nat \<Rightarrow> bytes \<Rightarrow> nat \<Rightarrow> nat list \<Rightarrow> (bytes \<times> nat list) option" where
  "parse_args 0 line word_start argv = Some (line, argv)"
| "parse_args (Suc n) line word_start argv =
     do {
       c \<leftarrow> arr_get line (int word_start);
       if c = 0 then Some (line, argv)
       else do {
         word_end \<leftarrow> find_word_end line word_start;
         let argv = argv @ [word_start];
         if line ! word_end = chr CHR '' '' then do {
           line \<leftarrow> arr_set line (int word_end) 0;
           word_start \<leftarrow> skip_spaces line (word_end + 1);
           parse_args n line word_start argv
         }
         else Some (line, argv)
       }
     }"

text \<open>Saving a command that is not empty in the history.\<close>

definition save_history :: "nat \<Rightarrow> 'a shell_state_scheme \<Rightarrow> 'a shell_state_scheme option" where
  "save_history start s =
     do {
       n \<leftarrow> strlen (drop start (current_line s));
       if n > 0 then do {
         h \<leftarrow> arr_get (history_buffer s) (history_count s mod int HISTORY_SIZE);
         h \<leftarrow> strncpy h (drop start (current_line s)) MAX_CMD_LEN;
         hb \<leftarrow> arr_set (history_buffer s) (history_count s mod int HISTORY_SIZE) h;
         Some (s\<lparr>history_buffer := hb, history_count := history_count s + 1, history_index := history_count s + 1\<rparr>)
       }
       else Some s
     }"

text \<open>The part of \<^verbatim>\<open>process_command\<close> before the commands: trim, save in the history, split.\<close>

definition parse_command :: "'a shell_state_scheme \<Rightarrow> (nat list \<times> 'a shell_state_scheme) option" where
  "parse_command s =
     do {
       start \<leftarrow> skip_spaces (current_line s) 0;
       s \<leftarrow> save_history start s;
       (line, argv) \<leftarrow> parse_args MAX_ARGS (current_line s) start [];
       Some (argv, s\<lparr>current_line := line\<rparr>)
     }"

section \<open>The abstract editor\<close>

text \<open>
  What the user sees: the text before and after the cursor, the list of all commands
  entered so far and the position in it. The buffer keeps the last ten commands; looking
  further back shows the newer command that has taken the place of the old one.
\<close>

record editor =
  ed_left :: bytes
  ed_right :: bytes
  ed_hist :: "bytes list"
  ed_idx :: nat

definition recalled :: "bytes list \<Rightarrow> nat \<Rightarrow> bytes" where
  "recalled hist i = hist ! (i + 10 * ((length hist - 1 - i) div 10))"

definition ed_key :: "u8 \<Rightarrow> editor \<Rightarrow> editor" where
  "ed_key c e =
     (if c = ARROW_LEFT then
        (if ed_left e = [] then e
         else e\<lparr>ed_left := butlast (ed_left e), ed_right := last (ed_left e) # ed_right e\<rparr>)
      else if c = ARROW_RIGHT then
        (case ed_right e of [] \<Rightarrow> e | x # xs \<Rightarrow> e\<lparr>ed_left := ed_left e @ [x], ed_right := xs\<rparr>)
      else if c = ARROW_UP then
        (if ed_idx e = 0 then e
         else e\<lparr>ed_idx := ed_idx e - 1, ed_left := recalled (ed_hist e) (ed_idx e - 1), ed_right := []\<rparr>)
      else if c = ARROW_DOWN then
        (if ed_idx e < length (ed_hist e)
         then e\<lparr>ed_idx := ed_idx e + 1,
                ed_left := (if ed_idx e + 1 = length (ed_hist e) then [] else recalled (ed_hist e) (ed_idx e + 1)),
                ed_right := []\<rparr>
         else e)
      else if c = 8 then (if ed_left e = [] then e else e\<lparr>ed_left := butlast (ed_left e)\<rparr>)
      else if printable c then
        (if length (ed_left e @ ed_right e) < 255 then e\<lparr>ed_left := ed_left e @ [c]\<rparr> else e)
      else e)"

lemma recalled_recent: "i < length hist \<Longrightarrow> length hist \<le> i + 10 \<Longrightarrow> recalled hist i = hist ! i"
  by (simp add: recalled_def)

text \<open>
  The line buffer holds the text, the variables its length and the cursor, and every history
  slot the command that was stored there last. No text contains a NUL.
\<close>

definition shell_rel :: "'a shell_state_scheme \<Rightarrow> editor \<Rightarrow> bool" where
  "shell_rel s e \<longleftrightarrow>
     length (current_line s) = 256 \<and> take (length (ed_left e @ ed_right e)) (current_line s) = ed_left e @ ed_right e \<and>
     length (ed_left e @ ed_right e) \<le> 255 \<and> 0 \<notin> set (ed_left e @ ed_right e) \<and>
     line_len s = int (length (ed_left e @ ed_right e)) \<and> cursor_pos s = int (length (ed_left e)) \<and>
     length (history_buffer s) = 10 \<and> (\<forall>h \<in> set (history_buffer s). length h = 256) \<and>
     history_count s = int (length (ed_hist e)) \<and> history_index s = int (ed_idx e) \<and> ed_idx e \<le> length (ed_hist e) \<and>
     (\<forall>i < length (ed_hist e). text_of (history_buffer s ! (i mod 10)) = Some (recalled (ed_hist e) i))"

text \<open>Drawing changes the screen only.\<close>

lemma redraw_some:
  assumes "line_len s \<le> int (length (current_line s))"
  obtains s' where "shell_redraw_line s = Some s'" "current_line s' = current_line s" "line_len s' = line_len s"
    "cursor_pos s' = cursor_pos s" "history_buffer s' = history_buffer s" "history_count s' = history_count s"
    "history_index s' = history_index s" "cursor_row s' = cursor_row s"
proof -
  have "\<not> length (current_line s) < nat (line_len s)" using assms by linarith
  then show thesis
    by (intro that [of "the (shell_redraw_line s)"]) (simp_all add: shell_redraw_line_def Let_def vga_set_cursor_pos_def vga_get_cursor_row_def
        update_cursor_def port_byte_out_def)
qed

lemma shell_rel_redraw:
  assumes "shell_rel s e"
  shows "\<exists>s'. shell_redraw_line s = Some s' \<and> shell_rel s' e"
proof -
  have "line_len s \<le> int (length (current_line s))" using assms by (simp add: shell_rel_def)
  then obtain s' where "shell_redraw_line s = Some s'" "current_line s' = current_line s" "line_len s' = line_len s"
    "cursor_pos s' = cursor_pos s" "history_buffer s' = history_buffer s" "history_count s' = history_count s"
    "history_index s' = history_index s" by (rule redraw_some)
  with assms show ?thesis by (auto simp: shell_rel_def)
qed

section \<open>The array loops\<close>

lemma shift_left_run:
  assumes "Suc i + n \<le> length line"
  shows "shift_left n (int (Suc i)) line =
     Some (take i line @ take n (drop (Suc i) line) @ drop (i + n) line)"
  using assms
proof (induction n arbitrary: i line)
  case 0
  then show ?case by simp
next
  case (Suc n)
  let ?l = "line[i := line ! Suc i]"
  have "shift_left (Suc n) (int (Suc i)) line = shift_left n (int (Suc (Suc i))) ?l"
    using Suc.prems by (simp add: arr_get_def arr_set_def nat_add_distrib algebra_simps)
  also have "\<dots> = Some (take (Suc i) ?l @ take n (drop (Suc (Suc i)) ?l) @ drop (Suc i + n) ?l)"
    using Suc.IH [of "Suc i" ?l] Suc.prems by simp
  also have "\<dots> = Some (take i line @ take (Suc n) (drop (Suc i) line) @ drop (i + Suc n) line)"
  proof -
    have "take (Suc i) ?l = take i line @ [line ! Suc i]" using Suc.prems by (simp add: take_Suc_update)
    moreover have "take (Suc n) (drop (Suc i) line) = line ! Suc i # take n (drop (Suc (Suc i)) line)"
      using Suc.prems by (metis Cons_nth_drop_Suc Suc_le_lessD add_Suc_right le_add1 le_trans not_less_eq_eq take_Suc_Cons)
    ultimately show ?thesis by (simp add: drop_update_cancel)
  qed
  finally show ?case .
qed

lemma shift_right_run:
  assumes "i + n < length line"
  shows "shift_right n (int (i + n)) line = Some (take (Suc i) line @ take n (drop i line) @ drop (Suc (i + n)) line)"
  using assms
proof (induction n arbitrary: line)
  case 0
  then show ?case by (simp add: take_Suc_conv_app_nth Cons_nth_drop_Suc)
next
  case (Suc n)
  let ?l = "line[Suc (i + n) := line ! (i + n)]"
  have "shift_right (Suc n) (int (i + Suc n)) line = shift_right n (int (i + n)) ?l"
    using Suc.prems by (simp add: arr_get_def arr_set_def nat_add_distrib)
  also have "\<dots> = Some (take (Suc i) ?l @ take n (drop i ?l) @ drop (Suc (i + n)) ?l)"
    using Suc.IH [of ?l] Suc.prems by simp
  also have "\<dots> = Some (take (Suc i) line @ take (Suc n) (drop i line) @ drop (Suc (i + Suc n)) line)"
  proof -
    have "take n (drop i ?l) = take n (drop i line)" "take (Suc i) ?l = take (Suc i) line"
      by (simp_all add: drop_update_swap)
    moreover have "drop (Suc (i + n)) ?l = line ! (i + n) # drop (Suc (Suc (i + n))) line"
      using Suc.prems by (simp add: drop_update_swap flip: Cons_nth_drop_Suc)
    moreover have "take (Suc n) (drop i line) = take n (drop i line) @ [line ! (i + n)]"
      using Suc.prems by (simp add: take_Suc_conv_app_nth)
    ultimately show ?thesis by simp
  qed
  finally show ?case .
qed

section \<open>Every key refines the editor\<close>

lemma shell_rel_line:
  assumes "shell_rel s e"
  obtains rest where "current_line s = ed_left e @ ed_right e @ rest" "rest \<noteq> []"
proof -
  let ?n = "length (ed_left e @ ed_right e)"
  have "take ?n (current_line s) = ed_left e @ ed_right e" using assms by (simp add: shell_rel_def)
  then have "current_line s = ed_left e @ ed_right e @ drop ?n (current_line s)"
    using append_take_drop_id [of ?n "current_line s"] by simp
  moreover have "drop ?n (current_line s) \<noteq> []" using assms by (simp add: shell_rel_def)
  ultimately show thesis by (rule that)
qed

text \<open>A new text in the line, with the history as it was.\<close>

lemma shell_rel_text:
  assumes "shell_rel s e" and "current_line s' = l @ r @ rest" "line_len s' = int (length (l @ r))" "cursor_pos s' = int (length l)"
    and "history_buffer s' = history_buffer s" "history_count s' = history_count s" "history_index s' = history_index s"
    and "length (l @ r @ rest) = 256" and "rest \<noteq> []" and "0 \<notin> set (l @ r)"
  shows "shell_rel s' (e\<lparr>ed_left := l, ed_right := r\<rparr>)"
proof -
  have "0 < length rest" using assms(9) by blast
  then have "length (l @ r) \<le> 255" using assms(8) unfolding length_append by linarith
  then show ?thesis using assms by (simp add: shell_rel_def)
qed

lemma shell_rel_unchanged:
  assumes "shell_rel s e" and "current_line s = ed_left e @ ed_right e @ rest" and "l @ r = ed_left e @ ed_right e"
  shows "shell_rel (s\<lparr>cursor_pos := int (length l)\<rparr>) (e\<lparr>ed_left := l, ed_right := r\<rparr>)"
proof -
  have "length (ed_left e @ ed_right e) = length (l @ r)" "set (ed_left e @ ed_right e) = set (l @ r)" using assms(3) by simp_all
  then show ?thesis using assms(1,3) by (simp add: shell_rel_def)
qed

lemma key_left_refines:
  assumes "shell_rel s e"
  shows "\<exists>s'. key_left s = Some s' \<and> shell_rel s' (ed_key ARROW_LEFT e)"
proof (cases "ed_left e = []")
  case True
  then show ?thesis using assms by (simp add: key_left_def ed_key_def shell_rel_def)
next
  case False
  from assms obtain rest where l: "current_line s = ed_left e @ ed_right e @ rest" by (rule shell_rel_line)
  have c: "cursor_pos s = int (length (ed_left e))" "0 < length (ed_left e)" using assms False by (simp_all add: shell_rel_def)
  then have "cursor_pos s - 1 = int (length (butlast (ed_left e)))" unfolding length_butlast by linarith
  moreover have "butlast (ed_left e) @ last (ed_left e) # ed_right e = ed_left e @ ed_right e" using False by simp
  ultimately have "shell_rel (s\<lparr>cursor_pos := cursor_pos s - 1\<rparr>) (ed_key ARROW_LEFT e)"
    using shell_rel_unchanged [OF assms l, of "butlast (ed_left e)" "last (ed_left e) # ed_right e"] False
    by (simp add: ed_key_def)
  then show ?thesis using c shell_rel_redraw by (simp add: key_left_def)
qed

lemma key_right_refines:
  assumes "shell_rel s e"
  shows "\<exists>s'. key_right s = Some s' \<and> shell_rel s' (ed_key ARROW_RIGHT e)"
proof (cases "ed_right e")
  case Nil
  then show ?thesis using assms by (simp add: key_right_def ed_key_def arrow_defs shell_rel_def)
next
  case (Cons x xs)
  from assms obtain rest where l: "current_line s = ed_left e @ ed_right e @ rest" by (rule shell_rel_line)
  have c: "cursor_pos s = int (length (ed_left e))" "cursor_pos s < line_len s" using assms Cons by (simp_all add: shell_rel_def)
  then have "shell_rel (s\<lparr>cursor_pos := cursor_pos s + 1\<rparr>) (ed_key ARROW_RIGHT e)"
    using shell_rel_unchanged [OF assms l, of "ed_left e @ [x]" xs] Cons by (simp add: ed_key_def arrow_defs add.commute)
  then show ?thesis using c shell_rel_redraw by (simp add: key_right_def)
qed

lemma key_backspace_refines:
  assumes "shell_rel s e"
  shows "\<exists>s'. key_backspace s = Some s' \<and> shell_rel s' (ed_key 8 e)"
proof (cases "ed_left e = []")
  case True
  then show ?thesis using assms by (simp add: key_backspace_def ed_key_def arrow_defs shell_rel_def)
next
  case False
  then obtain l x where lx: "ed_left e = l @ [x]" by (metis append_butlast_last_id)
  from assms obtain rest where line: "current_line s = ed_left e @ ed_right e @ rest" "rest \<noteq> []" by (rule shell_rel_line)
  let ?r = "ed_right e" and ?i = "length l"
  have v: "cursor_pos s = int (Suc ?i)" "line_len s = int (Suc ?i + length ?r)" "length (current_line s) = 256"
      "0 \<notin> set (l @ ?r)"
    using assms lx by (auto simp: shell_rel_def)
  have len: "Suc ?i + length ?r \<le> length (current_line s)" unfolding line(1) lx by simp
  have "shift_left (length ?r) (int (Suc ?i)) (current_line s) = Some (l @ ?r @ drop (?i + length ?r) (current_line s))"
    using shift_left_run [OF len] unfolding line(1) lx by simp
  moreover have "drop (?i + length ?r) (current_line s) = (x # ?r @ rest) ! length ?r # rest"
    unfolding line(1) lx by (cases ?r rule: rev_cases) (simp_all add: nth_append)
  ultimately obtain y where sh: "shift_left (length ?r) (int (Suc ?i)) (current_line s) = Some (l @ ?r @ y # rest)" by auto
  let ?s = "s\<lparr>line_len := int (length (l @ ?r)), current_line := l @ ?r @ 0 # rest, cursor_pos := int (length l)\<rparr>"
  have set: "arr_set (l @ ?r @ y # rest) (int (length (l @ ?r))) 0 = Some (l @ ?r @ 0 # rest)"
    by (simp add: arr_set_def list_update_append nat_add_distrib)
  have run: "key_backspace s = shell_redraw_line ?s"
    using v sh set by (simp add: key_backspace_def nat_add_distrib add.commute)
  have "shell_rel ?s (e\<lparr>ed_left := l, ed_right := ?r\<rparr>)"
    by (rule shell_rel_text [OF assms, where rest = "0 # rest"]) (use v line lx in simp_all)
  moreover have "e\<lparr>ed_left := l, ed_right := ?r\<rparr> = ed_key 8 e" using lx by (simp add: ed_key_def arrow_defs)
  ultimately show ?thesis using run shell_rel_redraw by metis
qed

lemma printable_key: "printable c \<Longrightarrow> c \<noteq> 0 \<and> c \<noteq> 8 \<and> c \<noteq> 10 \<and> c \<noteq> ARROW_LEFT \<and> c \<noteq> ARROW_RIGHT \<and> c \<noteq> ARROW_UP \<and> c \<noteq> ARROW_DOWN"
  by (auto simp: printable_def arrow_defs chr_def)

lemma key_print_refines:
  assumes "shell_rel s e" and "printable c"
  shows "\<exists>s'. key_print c s = Some s' \<and> shell_rel s' (ed_key c e)"
proof (cases "length (ed_left e @ ed_right e) < 255")
  case False
  then have "\<not> line_len s < 255" using assms(1) by (simp add: shell_rel_def)
  then have "key_print c s = Some s" by (simp add: key_print_def shell_consts)
  moreover have "ed_key c e = e" using False printable_key [OF assms(2)] by (simp add: ed_key_def)
  ultimately show ?thesis using assms(1) by simp
next
  case True
  from assms(1) obtain rest where line: "current_line s = ed_left e @ ed_right e @ rest" "rest \<noteq> []" by (rule shell_rel_line)
  then obtain y rest' where rest: "rest = y # rest'" by (cases rest) auto
  let ?l = "ed_left e" and ?r = "ed_right e"
  have v: "cursor_pos s = int (length ?l)" "line_len s = int (length ?l + length ?r)" "length (current_line s) = 256" "0 \<notin> set (?l @ ?r)"
    using assms(1) by (simp_all add: shell_rel_def)
  have len: "length ?l + length ?r < length (current_line s)" unfolding line(1) using line(2) by simp
  have "take (Suc (length ?l)) (current_line s) = ?l @ [(?r @ rest) ! 0]"
    unfolding line(1) rest by (cases ?r) simp_all
  then have "shift_right (length ?r) (int (length ?l + length ?r)) (current_line s) = Some (?l @ (?r @ rest) ! 0 # ?r @ rest')"
    using shift_right_run [OF len] unfolding line(1) rest by simp
  then obtain z where sh: "shift_right (length ?r) (int (length ?l + length ?r)) (current_line s) = Some (?l @ z # ?r @ rest')" ..
  have set: "arr_set (?l @ z # ?r @ rest') (int (length ?l)) c = Some (?l @ c # ?r @ rest')"
    by (simp add: arr_set_def list_update_append)
  let ?s = "s\<lparr>current_line := (?l @ [c]) @ ?r @ rest', line_len := int (length ((?l @ [c]) @ ?r)), cursor_pos := int (length (?l @ [c]))\<rparr>"
  have run: "key_print c s = shell_redraw_line ?s"
    using v sh set True by (simp add: key_print_def shell_consts nat_add_distrib algebra_simps)
  have "rest' \<noteq> []" using True v(3) unfolding line(1) rest by auto
  then have "shell_rel ?s (e\<lparr>ed_left := ?l @ [c], ed_right := ?r\<rparr>)"
    by (intro shell_rel_text [OF assms(1), where rest = rest']) (use v(3,4) line rest printable_key [OF assms(2)] in auto)
  moreover have "e\<lparr>ed_left := ?l @ [c], ed_right := ?r\<rparr> = ed_key c e"
    using True printable_key [OF assms(2)] assms(2) by (simp add: ed_key_def)
  ultimately show ?thesis using run shell_rel_redraw by metis
qed

lemma shell_rel_idx:
  "shell_rel s e \<Longrightarrow> i \<le> length (ed_hist e) \<Longrightarrow> shell_rel (s\<lparr>history_index := int i\<rparr>) (e\<lparr>ed_idx := i\<rparr>)"
  by (simp add: shell_rel_def)

lemma goto_end_refines:
  assumes "shell_rel s e" and "current_line s' = t @ 0 # z" "length (t @ 0 # z) = 256" "0 \<notin> set t"
    and "history_buffer s' = history_buffer s" "history_count s' = history_count s" "history_index s' = history_index s"
  shows "\<exists>s''. goto_end s' = Some s'' \<and> shell_rel s'' (e\<lparr>ed_left := t, ed_right := []\<rparr>)"
proof -
  have len: "length t < 256" using assms(3) by simp
  have "uint (of_nat (length t) :: u32) = int (length t)"
  proof -
    have "unat (of_nat (length t) :: u32) = length t" by (rule unat_of_nat_u32) (use len in linarith)
    then show ?thesis by (metis uint_nat)
  qed
  then have run: "goto_end s' = shell_redraw_line (s'\<lparr>line_len := int (length t), cursor_pos := int (length t)\<rparr>)"
    using assms(4) by (simp add: goto_end_def assms(2) strlen_text)
  have "shell_rel (s'\<lparr>line_len := int (length t), cursor_pos := int (length t)\<rparr>) (e\<lparr>ed_left := t, ed_right := []\<rparr>)"
    by (rule shell_rel_text [OF assms(1), where rest = "0 # z"]) (use assms in simp_all)
  then show ?thesis using run shell_rel_redraw by metis
qed

lemma recall_refines:
  assumes "shell_rel s e" and "i < length (ed_hist e)"
  shows "\<exists>s'. recall_line (s\<lparr>history_index := int i\<rparr>) \<bind> goto_end = Some s' \<and>
     shell_rel s' (e\<lparr>ed_idx := i, ed_left := recalled (ed_hist e) i, ed_right := []\<rparr>)"
proof -
  let ?h = "history_buffer s ! (i mod 10)" and ?t = "recalled (ed_hist e) i"
  have h: "length (history_buffer s) = 10" "text_of ?h = Some ?t" "length (current_line s) = 256" "\<forall>h \<in> set (history_buffer s). length h = 256"
    using assms by (simp_all add: shell_rel_def)
  then have "length ?h = 256" by simp
  then have t: "length ?t < 256" "0 \<notin> set ?t" using text_of_length [OF h(2)] text_of_nonzero [OF h(2)] by simp_all
  then obtain k where k: "256 - length ?t = Suc k" by (metis Suc_diff_Suc diff_Suc_eq_diff_pred)
  have get: "arr_get (history_buffer s) (int i mod 10) = Some ?h"
    using h(1) by (simp add: arr_get_def nat_mod_distrib)
  have "strncpy (current_line s) ?h 256 = Some (?t @ 0 # replicate k 0)"
    using strncpy_text [OF h(2), of 256 "current_line s"] h(3) t(1) k by simp
  then have run: "recall_line (s\<lparr>history_index := int i\<rparr>) =
      Some (s\<lparr>history_index := int i, current_line := ?t @ 0 # replicate k 0\<rparr>)"
    using get by (simp add: recall_line_def shell_consts)
  have rel: "shell_rel (s\<lparr>history_index := int i\<rparr>) (e\<lparr>ed_idx := i\<rparr>)" using shell_rel_idx [OF assms(1)] assms(2) by simp
  have "length (?t @ 0 # replicate k 0) = 256" using k t(1) by simp
  from goto_end_refines [OF rel, of "s\<lparr>history_index := int i, current_line := ?t @ 0 # replicate k 0\<rparr>", OF _ this t(2)]
  show ?thesis using run by simp
qed

lemma key_up_refines:
  assumes "shell_rel s e"
  shows "\<exists>s'. key_up s = Some s' \<and> shell_rel s' (ed_key ARROW_UP e)"
proof (cases "ed_idx e = 0")
  case True
  then show ?thesis using assms by (simp add: key_up_def ed_key_def arrow_defs shell_rel_def)
next
  case False
  have "history_index s = int (ed_idx e)" "ed_idx e - 1 < length (ed_hist e)" using assms False by (auto simp: shell_rel_def)
  moreover from this have "history_index s - 1 = int (ed_idx e - 1)" using False by linarith
  ultimately show ?thesis
    using recall_refines [OF assms, of "ed_idx e - 1"] False by (simp add: key_up_def ed_key_def arrow_defs)
qed

lemma key_down_refines:
  assumes "shell_rel s e"
  shows "\<exists>s'. key_down s = Some s' \<and> shell_rel s' (ed_key ARROW_DOWN e)"
proof -
  have v: "history_index s = int (ed_idx e)" "history_count s = int (length (ed_hist e))" "length (current_line s) = 256"
    using assms by (simp_all add: shell_rel_def)
  consider "\<not> ed_idx e < length (ed_hist e)" | "ed_idx e + 1 = length (ed_hist e)" | "ed_idx e + 1 < length (ed_hist e)"
    by linarith
  then show ?thesis
  proof cases
    case 1
    then show ?thesis using assms v by (simp add: key_down_def ed_key_def arrow_defs)
  next
    case 2
    from v(3) obtain x xs where x: "current_line s = x # xs" "length xs = 255" by (cases "current_line s") auto
    let ?s = "s\<lparr>history_index := int (ed_idx e + 1)\<rparr>"
    have rel: "shell_rel ?s (e\<lparr>ed_idx := ed_idx e + 1\<rparr>)" using shell_rel_idx [OF assms] 2 by (metis order_refl)
    have "history_count s = int (ed_idx e) + 1" using v(2) 2 by linarith
    then have run: "key_down s = goto_end (?s\<lparr>current_line := 0 # xs\<rparr>)"
      using v(1) x by (simp add: key_down_def arr_set_def add.commute)
    have eq: "ed_key ARROW_DOWN e = e\<lparr>ed_idx := ed_idx e + 1, ed_left := [], ed_right := []\<rparr>"
      using 2 by (simp add: ed_key_def arrow_defs)
    show ?thesis
      using goto_end_refines [OF rel, of "?s\<lparr>current_line := 0 # xs\<rparr>" "[]" xs] x unfolding run eq by simp
  next
    case 3
    then have "key_down s = recall_line (s\<lparr>history_index := int (ed_idx e + 1)\<rparr>) \<bind> goto_end"
      using v by (simp add: key_down_def add.commute)
    with recall_refines [OF assms, of "ed_idx e + 1"] 3 show ?thesis by (simp add: ed_key_def arrow_defs)
  qed
qed

text \<open>C12. The shell's line editor (\<^verbatim>\<open>shell_handle_input\<close>, shell.c) refines a text cursor: from a
  state that represents an editor (text before and after the cursor, entered commands,
  position in the history), every key but Enter succeeds, in particular no access leaves
  the 256-byte line or the ten history slots, and the new state represents the editor after
  that key. Insertion and deletion act at the cursor, a full line ignores further input,
  and the arrow keys move in the line and in the history.\<close>

theorem shell_editor_refines:
  assumes "shell_rel s e" and "c \<noteq> 10"
  shows "\<exists>s'. shell_handle_input process_command c s = Some s' \<and> shell_rel s' (ed_key c e)"
proof -
  have d: "ARROW_LEFT \<noteq> ARROW_RIGHT" "ARROW_LEFT \<noteq> ARROW_UP" "ARROW_LEFT \<noteq> ARROW_DOWN" "ARROW_RIGHT \<noteq> ARROW_UP"
      "ARROW_RIGHT \<noteq> ARROW_DOWN" "ARROW_UP \<noteq> ARROW_DOWN"
    by (simp_all add: arrow_defs)
  consider "c = ARROW_LEFT" | "c = ARROW_RIGHT" | "c = ARROW_UP" | "c = ARROW_DOWN" | "c = 8" | "printable c"
    | "c \<notin> {ARROW_LEFT, ARROW_RIGHT, ARROW_UP, ARROW_DOWN, 8}" "\<not> printable c" by blast
  then show ?thesis
  proof cases
    case 5
    then show ?thesis using key_backspace_refines [OF assms(1)] by (simp add: shell_handle_input_def arrow_defs)
  next
    case 6
    then show ?thesis
      using key_print_refines [OF assms(1) 6] printable_key [OF 6] by (simp add: shell_handle_input_def)
  next
    case 7
    then show ?thesis using assms by (simp add: shell_handle_input_def ed_key_def)
  qed (use key_left_refines [OF assms(1)] key_right_refines [OF assms(1)] key_up_refines [OF assms(1)]
      key_down_refines [OF assms(1)] d in \<open>simp_all add: shell_handle_input_def\<close>)
qed

definition sample_shell :: shell_state where
  "sample_shell = \<lparr>io_trace = [], intr_flag = True, cursor_row = 3, cursor_col = 8, vga_buffer = (\<lambda>_. blank_cell),
     history_buffer = replicate 10 (replicate 256 0), history_count = 0, history_index = 0,
     current_line = map chr ''ls'' @ replicate 254 0, cursor_pos = 2, line_len = 2\<rparr>"

theorem shell_editor_refines_witness:
  "\<exists>s'. shell_handle_input Some (chr CHR ''x'') sample_shell = Some s' \<and>
     shell_rel s' \<lparr>ed_left = map chr ''lsx'', ed_right = [], ed_hist = [], ed_idx = 0\<rparr>"
proof -
  let ?e = "\<lparr>ed_left = map chr ''ls'', ed_right = [], ed_hist = [], ed_idx = 0\<rparr>"
  have r: "shell_rel sample_shell ?e" by (auto simp: shell_rel_def sample_shell_def chr_def)
  have k: "chr CHR ''x'' \<noteq> 10" "ed_key (chr CHR ''x'') ?e = \<lparr>ed_left = map chr ''lsx'', ed_right = [], ed_hist = [], ed_idx = 0\<rparr>"
    by (simp_all add: ed_key_def arrow_defs chr_def printable_def)
  from shell_editor_refines [OF r k(1)] show ?thesis unfolding k(2) .
qed

section \<open>The words of a command\<close>

text \<open>The reference: the maximal runs of characters other than the space.\<close>

function words :: "bytes \<Rightarrow> bytes list" where
  "words t =
     (case dropWhile (\<lambda>c. c = chr CHR '' '') t of
        [] \<Rightarrow> []
      | x # xs \<Rightarrow> (x # takeWhile (\<lambda>c. c \<noteq> chr CHR '' '') xs) # words (dropWhile (\<lambda>c. c \<noteq> chr CHR '' '') xs))"
  by pat_completeness auto
termination
proof (relation "measure length")
  fix t :: bytes and x xs
  assume "dropWhile (\<lambda>c. c = chr CHR '' '') t = x # xs"
  then have "length (x # xs) \<le> length t" by (metis length_dropWhile_le)
  moreover have "length (dropWhile (\<lambda>c. c \<noteq> chr CHR '' '') xs) \<le> length xs" by (rule length_dropWhile_le)
  ultimately show "(dropWhile (\<lambda>c. c \<noteq> chr CHR '' '') xs, t) \<in> measure length" by simp
qed simp

declare words.simps [simp del]

lemma words_Nil [simp]: "words [] = []"
  by (subst words.simps) simp

lemma words_skip: "words (replicate k (chr CHR '' '') @ t) = words t"
  by (induction k) (simp_all, metis (mono_tags, lifting) dropWhile.simps(2) words.simps)

lemma words_Cons:
  "x \<noteq> chr CHR '' '' \<Longrightarrow> words (x # xs) =
     (x # takeWhile (\<lambda>c. c \<noteq> chr CHR '' '') xs) # words (dropWhile (\<lambda>c. c \<noteq> chr CHR '' '') xs)"
  by (subst words.simps) simp

lemma leading_spaces:
  obtains k u where "t = replicate k (chr CHR '' '') @ u" "u = [] \<or> hd u \<noteq> chr CHR '' ''"
    "dropWhile (\<lambda>c. c = chr CHR '' '') t = u"
proof -
  let ?P = "\<lambda>c. c = chr CHR '' ''"
  have "takeWhile ?P t = replicate (length (takeWhile ?P t)) (chr CHR '' '')"
    by (rule replicate_eqI [symmetric, THEN sym]) (auto dest: set_takeWhileD)
  then have "t = replicate (length (takeWhile ?P t)) (chr CHR '' '') @ dropWhile ?P t"
    by (metis takeWhile_dropWhile_id)
  moreover have "dropWhile ?P t = [] \<or> hd (dropWhile ?P t) \<noteq> chr CHR '' ''"
    using hd_dropWhile [of ?P t] by auto
  ultimately show thesis using that by blast
qed

lemma nth_of_drop: "drop p line = x # xs \<Longrightarrow> p < length line \<and> line ! p = x \<and> drop (Suc p) line = xs"
  by (metis Cons_nth_drop_Suc drop_all leI list.distinct(1) list.inject)

lemma skip_spaces_run:
  "drop p line = replicate k (chr CHR '' '') @ y # u \<Longrightarrow> y \<noteq> chr CHR '' '' \<Longrightarrow> skip_spaces line p = Some (p + k)"
proof (induction k arbitrary: p)
  case 0
  then show ?case using nth_of_drop [of p line] by (subst skip_spaces.simps) simp
next
  case (Suc k)
  then show ?case using nth_of_drop [of p line] by (subst skip_spaces.simps) simp
qed

lemma find_word_end_run:
  "drop p line = w @ y # u \<Longrightarrow> 0 \<notin> set w \<Longrightarrow> chr CHR '' '' \<notin> set w \<Longrightarrow> y = 0 \<or> y = chr CHR '' '' \<Longrightarrow>
     find_word_end line p = Some (p + length w)"
proof (induction w arbitrary: p)
  case Nil
  then show ?case using nth_of_drop [of p line] by (subst find_word_end.simps) auto
next
  case (Cons x w)
  then show ?case using nth_of_drop [of p line] by (subst find_word_end.simps) auto
qed

lemma drop_word: "drop p line = w @ v \<Longrightarrow> drop (p + length w) line = v"
  by (metis add.commute append_eq_conv_conj drop_drop)

lemma arr_get_drop: "drop p line = x # xs \<Longrightarrow> arr_get line (int p) = Some x"
  using nth_of_drop [of p line x xs] by (simp add: arr_get_def)

text \<open>A line that agrees with another one up to \<^verbatim>\<open>q\<close> has the same word before \<^verbatim>\<open>q\<close>.\<close>

lemma word_kept:
  assumes "take q line' = take q line" and "drop p line = w @ 0 # u" and "p + length w < q" and "0 \<notin> set w"
    and "length line' = length line"
  shows "text_of (drop p line') = Some w"
proof -
  have "take (q - p) (drop p line') = take (q - p) (drop p line)"
    using assms(1) by (metis drop_take)
  moreover have "take (q - p) (drop p line) = w @ 0 # take (q - p - Suc (length w)) u"
    using assms(2,3) by (simp add: take_Cons')
  ultimately have "drop p line' = w @ 0 # take (q - p - Suc (length w)) u @ drop (q - p) (drop p line')"
    by (metis append_Cons append_assoc append_take_drop_id)
  then show ?thesis using assms(4) by (metis text_of_append_NUL)
qed

lemma parse_args_run:
  assumes "drop p line = t @ 0 # z" and "0 \<notin> set t" and "t = [] \<or> hd t \<noteq> chr CHR '' ''"
  shows "\<exists>line' ps. parse_args n line p argv = Some (line', argv @ ps) \<and> length line' = length line \<and>
     take p line' = take p line \<and> map (\<lambda>q. text_of (drop q line')) ps = map Some (take n (words t))"
  using assms
proof (induction n arbitrary: line p t argv)
  case 0
  then show ?case by simp
next
  case (Suc n)
  let ?sp = "chr CHR '' ''"
  have sp: "?sp \<noteq> 0" by (simp add: chr_def)
  show ?case
  proof (cases t)
    case Nil
    then show ?thesis using Suc.prems arr_get_drop [of p line 0 z] by simp
  next
    case (Cons x xs)
    then have x: "x \<noteq> ?sp" "x \<noteq> 0" using Suc.prems by auto
    have get: "arr_get line (int p) = Some x" using Suc.prems(1) Cons arr_get_drop by simp
    define w where "w = x # takeWhile (\<lambda>c. c \<noteq> ?sp) xs"
    define r where "r = dropWhile (\<lambda>c. c \<noteq> ?sp) xs"
    have t: "t = w @ r" using Cons by (simp add: w_def r_def)
    have w: "0 \<notin> set w" "?sp \<notin> set w" using Suc.prems(2) t x by (auto simp: w_def dest: set_takeWhileD)
    have words: "words t = w # words r" using words_Cons [OF x(1)] Cons by (simp add: w_def r_def)
    show ?thesis
    proof (cases r)
      case Nil
      then have d: "drop p line = w @ 0 # z" using Suc.prems(1) t by simp
      from find_word_end_run [OF d w] have we: "find_word_end line p = Some (p + length w)" by simp
      have "line ! (p + length w) = 0" using nth_of_drop [OF drop_word [OF d]] by simp
      then have "parse_args (Suc n) line p argv = Some (line, argv @ [p])" using get x we sp by simp
      then show ?thesis using d w(1) words Nil by (intro exI [of _ line] exI [of _ "[p]"]) simp
    next
      case (Cons y r')
      then have y: "y = ?sp" using hd_dropWhile [of "\<lambda>c. c \<noteq> ?sp" xs] by (simp add: r_def)
      have d: "drop p line = w @ ?sp # r' @ 0 # z" using Suc.prems(1) t Cons y by simp
      from find_word_end_run [OF d w] have we: "find_word_end line p = Some (p + length w)" by simp
      have dw: "drop (p + length w) line = ?sp # r' @ 0 # z" by (rule drop_word [OF d])
      note at = nth_of_drop [OF dw]
      define line1 where "line1 = line[p + length w := 0]"
      have set: "arr_set line (int (p + length w)) 0 = Some line1" using at by (simp add: arr_set_def line1_def nat_add_distrib)
      have d1: "drop p line1 = w @ 0 # r' @ 0 # z" using d at by (simp add: line1_def drop_update_swap list_update_append)
      have d2: "drop (Suc (p + length w)) line1 = r' @ 0 # z" using at by (simp add: line1_def)
      obtain k u where ku: "r' = replicate k ?sp @ u" "u = [] \<or> hd u \<noteq> ?sp" by (rule leading_spaces [of r'])
      let ?q = "Suc (p + length w) + k"
      have "u @ 0 # z = hd (u @ [0]) # tl (u @ [0]) @ z" by (cases u) simp_all
      then have "skip_spaces line1 (Suc (p + length w)) = Some ?q"
        using skip_spaces_run [of "Suc (p + length w)" line1 k "hd (u @ [0])" "tl (u @ [0]) @ z"] d2 ku sp by (cases u) auto
      moreover have "drop ?q line1 = u @ 0 # z"
      proof -
        have "drop k (drop (Suc (p + length w)) line1) = u @ 0 # z" unfolding d2 ku(1) by simp
        then show ?thesis by (simp add: add.commute)
      qed
      moreover have "0 \<notin> set u" using Suc.prems(2) t Cons ku(1) by auto
      ultimately obtain line' ps where
        ih: "parse_args n line1 ?q (argv @ [p]) = Some (line', (argv @ [p]) @ ps)" "length line' = length line1"
          "take ?q line' = take ?q line1" "map (\<lambda>q. text_of (drop q line')) ps = map Some (take n (words u))"
        and sk: "skip_spaces line1 (Suc (p + length w)) = Some ?q"
        using Suc.IH [of ?q line1 u "argv @ [p]"] ku(2) by blast
      have run: "parse_args (Suc n) line p argv = Some (line', argv @ p # ps)"
        using get x we at set sk ih(1) by simp
      have first: "text_of (drop p line') = Some w"
        using word_kept [OF ih(3) d1 _ w(1) ih(2)] by simp
      have "take p line' = take p (take ?q line')" by (simp add: min_def)
      also have "\<dots> = take p line1" unfolding ih(3) by (simp add: min_def)
      also have "\<dots> = take p line" by (simp add: line1_def)
      finally have "take p line' = take p line" .
      moreover have "words r = words u" using Cons y ku(1) words_skip [of "Suc k" u] by simp
      ultimately show ?thesis
        using run first words ih(2,4) by (intro exI [of _ line'] exI [of _ "p # ps"]) (simp add: line1_def)
    qed
  qed
qed

section \<open>The history\<close>

lemma recalled_snoc_new: "i \<le> length hist \<Longrightarrow> i mod 10 = length hist mod 10 \<Longrightarrow> recalled (hist @ [x]) i = x"
proof -
  assume i: "i \<le> length hist" "i mod 10 = length hist mod 10"
  then have "10 dvd length hist - i" by (metis mod_eq_dvd_iff_nat)
  then have "i + 10 * ((length hist - i) div 10) = length hist" using i(1) by simp
  then show ?thesis by (simp add: recalled_def)
qed

lemma recalled_snoc_old: "i < length hist \<Longrightarrow> i mod 10 \<noteq> length hist mod 10 \<Longrightarrow> recalled (hist @ [x]) i = recalled hist i"
proof -
  assume i: "i < length hist" "i mod 10 \<noteq> length hist mod 10"
  define d where "d = length hist - i"
  have n: "length hist = i + d" using i(1) by (simp add: d_def)
  have r: "d mod 10 \<noteq> 0" using i(2) unfolding n by (metis add.right_neutral mod_add_right_eq)
  define q r where "q = d div 10" and "r = d mod 10"
  have d: "d = 10 * q + r" "0 < r" "r < 10" using r by (simp_all add: q_def r_def)
  have bound: "10 * q < d" using d by linarith
  have "(d - 1) div 10 = q" by (intro div_nat_eqI) (use d in simp_all)
  moreover have "length hist - 1 - i = d - 1" "length (hist @ [x]) - 1 - i = d" by (simp_all add: n)
  ultimately show ?thesis
    unfolding recalled_def using bound n by (simp only: q_def [symmetric]) (simp add: nth_append)
qed

text \<open>The state at the end of a command: the line is cleared.\<close>

definition reset_line :: "'a shell_state_scheme \<Rightarrow> 'a shell_state_scheme option" where
  "reset_line s = map_option (\<lambda>l. s\<lparr>current_line := l, line_len := 0, cursor_pos := 0\<rparr>) (memset (current_line s) 0 MAX_CMD_LEN)"

text \<open>Saving a command extends the history by it, in the slot of the oldest one.\<close>

lemma history_text:
  assumes "0 \<notin> set u" and "length u < 256" and "length old = 256"
  shows "\<exists>h. strncpy old (u @ 0 # z) MAX_CMD_LEN = Some h \<and> length h = 256 \<and> text_of h = Some u"
proof (intro exI conjI)
  let ?h = "u @ replicate (256 - length u) 0"
  have "text_of (u @ 0 # z) = Some u" using assms(1) by simp
  from strncpy_text [OF this, of 256 old] assms(2,3) show "strncpy old (u @ 0 # z) MAX_CMD_LEN = Some ?h"
    by (simp add: shell_consts)
  show "length ?h = 256" using assms(2) by simp
  obtain m where "256 - length u = Suc m" using assms(2) by (metis Suc_diff_Suc diff_Suc_eq_diff_pred)
  then show "text_of ?h = Some u" using assms(1) by simp
qed

lemma history_extended:
  assumes "shell_rel s e" and "text_of h = Some u" and "length h = 256"
  defines "n \<equiv> length (ed_hist e)"
  shows "shell_rel (s\<lparr>history_buffer := (history_buffer s)[n mod 10 := h], history_count := history_count s + 1,
       history_index := history_count s + 1, current_line := replicate 256 0, line_len := 0, cursor_pos := 0\<rparr>)
     \<lparr>ed_left = [], ed_right = [], ed_hist = ed_hist e @ [u], ed_idx = n + 1\<rparr>"
proof -
  have rel: "length (history_buffer s) = 10" "history_count s = int n" "\<forall>h \<in> set (history_buffer s). length h = 256"
      "\<forall>i < n. text_of (history_buffer s ! (i mod 10)) = Some (recalled (ed_hist e) i)"
    using assms(1) by (simp_all add: shell_rel_def n_def)
  have hist: "text_of ((history_buffer s)[n mod 10 := h] ! (i mod 10)) = Some (recalled (ed_hist e @ [u]) i)"
    if "i < n + 1" for i
  proof (cases "i mod 10 = n mod 10")
    case True
    then show ?thesis using that assms(2) rel(1) recalled_snoc_new [of i "ed_hist e" u] by (simp add: n_def)
  next
    case False
    then have "i < n" using that by (metis Suc_eq_plus1 less_antisym)
    then show ?thesis using False rel(4) recalled_snoc_old [of i "ed_hist e" u] by (simp add: n_def)
  qed
  have "set ((history_buffer s)[n mod 10 := h]) \<subseteq> insert h (set (history_buffer s))" by (rule set_update_subset_insert)
  then have lens: "\<forall>x \<in> set ((history_buffer s)[n mod 10 := h]). length x = 256" using assms(3) rel(3) by blast
  show ?thesis using hist lens rel(1,2) by (simp add: shell_rel_def n_def)
qed

lemma save_history_run:
  assumes "shell_rel s e" and "drop k (current_line s) = u @ 0 # z" and "0 \<notin> set u" and "length u < 256"
  shows "\<exists>s1. save_history k s = Some s1 \<and> current_line s1 = current_line s \<and> (u = [] \<longrightarrow> s1 = s) \<and>
     (u \<noteq> [] \<longrightarrow> shell_rel (s1\<lparr>current_line := replicate 256 0, line_len := 0, cursor_pos := 0\<rparr>)
        \<lparr>ed_left = [], ed_right = [], ed_hist = ed_hist e @ [u], ed_idx = length (ed_hist e) + 1\<rparr>)"
proof -
  let ?slot = "length (ed_hist e) mod 10"
  have rel: "length (history_buffer s) = 10" "history_count s = int (length (ed_hist e))" "\<forall>h \<in> set (history_buffer s). length h = 256"
    using assms(1) by (simp_all add: shell_rel_def)
  have slot: "history_count s mod int HISTORY_SIZE = int ?slot" using rel(2) by (simp add: shell_consts zmod_int)
  obtain h where h: "strncpy (history_buffer s ! ?slot) (u @ 0 # z) MAX_CMD_LEN = Some h" "length h = 256" "text_of h = Some u"
    using history_text [OF assms(3,4), of "history_buffer s ! ?slot" z] rel(1,3) by auto
  have n: "strlen (drop k (current_line s)) = Some (of_nat (length u))" using assms(2,3) by (simp add: strlen_text)
  have "unat (of_nat (length u) :: u32) = length u" by (rule unat_of_nat_u32) (use assms(4) in linarith)
  then have npos: "(0 :: u32) < of_nat (length u) \<longleftrightarrow> u \<noteq> []" by (auto simp: word_less_nat_alt)
  show ?thesis
  proof (cases "u = []")
    case True
    then show ?thesis using n by (simp add: save_history_def)
  next
    case False
    then have "save_history k s = Some (s\<lparr>history_buffer := (history_buffer s)[?slot := h],
        history_count := history_count s + 1, history_index := history_count s + 1\<rparr>)"
      using n npos h(1) rel(1) assms(2) unfolding save_history_def slot by (simp add: arr_get_def arr_set_def)
    with False history_extended [OF assms(1) h(3,2)] show ?thesis by simp
  qed
qed

text \<open>C13. Entering a command (\<^verbatim>\<open>process_command\<close> of shell.c up to the dispatch): for every line, the
  pointers stored in \<^verbatim>\<open>argv\<close> are NUL-terminated strings that spell the first sixteen words of
  the line in order; a line that is not blank is added to the history without its leading
  spaces, and the history position moves to its end. After the line is cleared, the shell
  again represents an editor, with the extended history; a blank line gives no argument and
  leaves the state as it was. No access leaves an array.\<close>

theorem parse_command_correct:
  assumes "shell_rel s e" and "current_line s ! nat (line_len s) = 0"
  defines "t \<equiv> ed_left e @ ed_right e"
  defines "c \<equiv> dropWhile (\<lambda>c. c = chr CHR '' '') t"
  shows "\<exists>argv s1. parse_command s = Some (argv, s1) \<and>
     map (\<lambda>p. text_of (drop p (current_line s1))) argv = map Some (take 16 (words t)) \<and>
     (if c = [] then argv = [] \<and> s1 = s
      else \<exists>s2. reset_line s1 = Some s2 \<and>
        shell_rel s2 \<lparr>ed_left = [], ed_right = [], ed_hist = ed_hist e @ [c], ed_idx = length (ed_hist e) + 1\<rparr>)"
proof -
  from assms(1) obtain rest where line: "current_line s = t @ rest" "rest \<noteq> []"
    by (rule shell_rel_line) (simp add: t_def)
  have rel: "length (current_line s) = 256" "0 \<notin> set t" "nat (line_len s) = length t"
    using assms(1) by (simp_all add: shell_rel_def t_def nat_add_distrib)
  from line(2) obtain z where z: "rest = 0 # z" using assms(2) line(1) rel(3) by (cases rest) (simp_all add: nth_append)
  obtain k u where ku: "t = replicate k (chr CHR '' '') @ u" "u = [] \<or> hd u \<noteq> chr CHR '' ''" "c = u"
    unfolding c_def by (rule leading_spaces [of t])
  have "chr CHR '' '' \<noteq> 0" by (simp add: chr_def)
  moreover have "drop 0 (current_line s) = replicate k (chr CHR '' '') @ hd (u @ [0]) # tl (u @ [0]) @ z"
    using line z ku(1) by (cases u) simp_all
  ultimately have skip: "skip_spaces (current_line s) 0 = Some k" using skip_spaces_run ku(2) by (cases u) auto
  have u: "drop k (current_line s) = u @ 0 # z" "0 \<notin> set u" "length u < 256" using line z ku(1) rel by auto
  from save_history_run [OF assms(1) u] obtain s1 where s1: "save_history k s = Some s1" "current_line s1 = current_line s"
      "u = [] \<Longrightarrow> s1 = s" "u \<noteq> [] \<Longrightarrow> shell_rel (s1\<lparr>current_line := replicate 256 0, line_len := 0, cursor_pos := 0\<rparr>)
        \<lparr>ed_left = [], ed_right = [], ed_hist = ed_hist e @ [u], ed_idx = length (ed_hist e) + 1\<rparr>" by auto
  from parse_args_run [OF u(1,2) ku(2), of 16 "[]"] obtain line' ps where
    p: "parse_args MAX_ARGS (current_line s) k [] = Some (line', ps)" "length line' = 256"
      "map (\<lambda>q. text_of (drop q line')) ps = map Some (take 16 (words u))"
    using rel(1) by (auto simp: MAX_ARGS_def)
  have run: "parse_command s = Some (ps, s1\<lparr>current_line := line'\<rparr>)" using skip s1(1,2) p(1) by (simp add: parse_command_def)
  have reset: "reset_line (s1\<lparr>current_line := line'\<rparr>) = Some (s1\<lparr>current_line := replicate 256 0, line_len := 0, cursor_pos := 0\<rparr>)"
    using p(2) by (simp add: reset_line_def memset_eq shell_consts)
  have "ps = []" "s1\<lparr>current_line := line'\<rparr> = s" if "u = []"
    using that s1(3) p(1) arr_get_drop [OF u(1) [unfolded that, simplified]] by (simp_all add: MAX_ARGS_def numeral_eq_Suc)
  moreover have "words t = words u" unfolding ku(1) by (rule words_skip)
  ultimately show ?thesis
    using run reset p(3) ku(3) s1(4) by (intro exI [of _ ps] exI [of _ "s1\<lparr>current_line := line'\<rparr>"]) simp
qed

theorem parse_command_correct_witness:
  "\<exists>argv s1 s2. parse_command sample_shell = Some (argv, s1) \<and> reset_line s1 = Some s2 \<and>
     map (\<lambda>p. text_of (drop p (current_line s1))) argv = [Some (map chr ''ls'')] \<and>
     shell_rel s2 \<lparr>ed_left = [], ed_right = [], ed_hist = [map chr ''ls''], ed_idx = 1\<rparr>"
proof -
  let ?e = "\<lparr>ed_left = map chr ''ls'', ed_right = [], ed_hist = [], ed_idx = 0\<rparr>"
  have r: "shell_rel sample_shell ?e" by (auto simp: shell_rel_def sample_shell_def chr_def)
  have l: "current_line sample_shell ! nat (line_len sample_shell) = 0" by (simp add: sample_shell_def)
  have "words (map chr ''ls'') = [map chr ''ls'']" by (simp add: words_Cons chr_def)
  moreover have "dropWhile (\<lambda>c. c = chr CHR '' '') (map chr ''ls'') = map chr ''ls''" by (simp add: chr_def)
  ultimately show ?thesis using parse_command_correct [OF r l] by auto
qed

end
