(* ===== verification/Descriptors.thy ===== *)
theory Descriptors
  imports Machine Process Io "HOL-Library.Monad_Syntax"
begin

text \<open>
  The descriptor tables of the processor and the interrupt dispatcher:
  \<^verbatim>\<open>kernel/cpu/gdt.c\<close>, \<^verbatim>\<open>kernel/cpu/idt.c\<close>, \<^verbatim>\<open>kernel/cpu/tss.c\<close> and \<^verbatim>\<open>kernel/cpu/irq.c\<close>, with
  the instructions \<^verbatim>\<open>lgdt\<close>, \<^verbatim>\<open>lidt\<close> and \<^verbatim>\<open>ltr\<close> of \<^verbatim>\<open>gdt_load.asm\<close>, \<^verbatim>\<open>idt.c\<close> and
  \<^verbatim>\<open>tss_flush.asm\<close>. The addresses of the tables and of the assembly stubs are decided by the
  linker and are arguments. The second half says how the processor reads a descriptor and
  proves what the installed tables let user programs reach.
\<close>

section \<open>Data\<close>

record gdt_entry_struct =
  g_limit_low :: u16
  g_base_low :: u16
  g_base_middle :: u8
  g_access :: u8
  g_granularity :: u8
  g_base_high :: u8

record idt_entry_struct =
  i_base_low :: u16
  i_selector :: u16
  i_always0 :: u8
  i_flags :: u8
  i_base_high :: u16

record table_ptr =
  ptr_limit :: u16
  ptr_base :: u32

record tss_entry_struct =
  t_prev_tss :: u32  t_esp0 :: u32  t_ss0 :: u32  t_esp1 :: u32  t_ss1 :: u32
  t_esp2 :: u32  t_ss2 :: u32  t_cr3 :: u32  t_eip :: u32  t_eflags :: u32
  t_eax :: u32  t_ecx :: u32  t_edx :: u32  t_ebx :: u32  t_esp :: u32
  t_ebp :: u32  t_esi :: u32  t_edi :: u32  t_es :: u32  t_cs :: u32
  t_ss :: u32  t_ds :: u32  t_fs :: u32  t_gs :: u32  t_ldt :: u32
  t_reserved1 :: u16  t_iomap_base :: u16

text \<open>The tables, and the three registers that point to them (\<^term>\<open>None\<close>: not loaded yet).\<close>

record desc_state =
  gdt_entries :: "gdt_entry_struct list"
  gdt_ptr :: table_ptr
  idt_entries :: "idt_entry_struct list"
  idt_ptr :: table_ptr
  tss_entry :: tss_entry_struct
  gdtr :: "table_ptr option"
  idtr :: "table_ptr option"
  task_register :: "u16 option"

definition zero_gdt_entry :: gdt_entry_struct where
  "zero_gdt_entry = \<lparr>g_limit_low = 0, g_base_low = 0, g_base_middle = 0, g_access = 0, g_granularity = 0, g_base_high = 0\<rparr>"

definition zero_idt_entry :: idt_entry_struct where
  "zero_idt_entry = \<lparr>i_base_low = 0, i_selector = 0, i_always0 = 0, i_flags = 0, i_base_high = 0\<rparr>"

definition zero_tss :: tss_entry_struct where
  "zero_tss = \<lparr>t_prev_tss = 0, t_esp0 = 0, t_ss0 = 0, t_esp1 = 0, t_ss1 = 0, t_esp2 = 0, t_ss2 = 0, t_cr3 = 0,
     t_eip = 0, t_eflags = 0, t_eax = 0, t_ecx = 0, t_edx = 0, t_ebx = 0, t_esp = 0, t_ebp = 0, t_esi = 0,
     t_edi = 0, t_es = 0, t_cs = 0, t_ss = 0, t_ds = 0, t_fs = 0, t_gs = 0, t_ldt = 0, t_reserved1 = 0,
     t_iomap_base = 0\<rparr>"

text \<open>The tables are static variables of C: they start zeroed, and no register is loaded.\<close>

definition desc_start :: desc_state where
  "desc_start = \<lparr>gdt_entries = replicate 6 zero_gdt_entry, gdt_ptr = \<lparr>ptr_limit = 0, ptr_base = 0\<rparr>,
     idt_entries = replicate 256 zero_idt_entry, idt_ptr = \<lparr>ptr_limit = 0, ptr_base = 0\<rparr>,
     tss_entry = zero_tss, gdtr = None, idtr = None, task_register = None\<rparr>"

section \<open>The segment table\<close>

definition gdt_set_gate ::
    "int \<Rightarrow> u32 \<Rightarrow> u32 \<Rightarrow> u8 \<Rightarrow> u8 \<Rightarrow> 'a desc_state_scheme \<Rightarrow> 'a desc_state_scheme option" where
  "gdt_set_gate num base limit access gran s =
     (if 0 \<le> num \<and> nat num < length (gdt_entries s)
      then Some (s\<lparr>gdt_entries := (gdt_entries s)[nat num := (gdt_entries s ! nat num)
        \<lparr>g_base_low := ucast (base AND 0xFFFF),
         g_base_middle := ucast (drop_bit 16 base AND 0xFF),
         g_base_high := ucast (drop_bit 24 base AND 0xFF),
         g_limit_low := ucast (limit AND 0xFFFF),
         g_granularity := ucast (drop_bit 16 limit AND 0x0F) OR (gran AND 0xF0),
         g_access := access\<rparr>]\<rparr>)
      else None)"

text \<open>\<^verbatim>\<open>gdt_flush\<close> also reloads the segment registers with the selectors 0x08 and 0x10.\<close>

definition gdt_flush :: "table_ptr \<Rightarrow> 'a desc_state_scheme \<Rightarrow> 'a desc_state_scheme" where
  "gdt_flush p s = s\<lparr>gdtr := Some p\<rparr>"

definition gdt_install :: "u32 \<Rightarrow> 'a desc_state_scheme \<Rightarrow> 'a desc_state_scheme option" where
  "gdt_install gdt_addr s =
     do {
       let s = s\<lparr>gdt_ptr := \<lparr>ptr_limit = 8 * 6 - 1, ptr_base = gdt_addr\<rparr>\<rparr>;
       s \<leftarrow> gdt_set_gate 0 0 0 0 0 s;
       s \<leftarrow> gdt_set_gate 1 0 0xFFFFFFFF 0x9A 0xCF s;
       s \<leftarrow> gdt_set_gate 2 0 0xFFFFFFFF 0x92 0xCF s;
       s \<leftarrow> gdt_set_gate 3 0 0xFFFFFFFF 0xFA 0xCF s;
       s \<leftarrow> gdt_set_gate 4 0 0xFFFFFFFF 0xF2 0xCF s;
       Some (gdt_flush (gdt_ptr s) s)
     }"

section \<open>The interrupt table\<close>

definition idt_set_gate ::
    "u8 \<Rightarrow> u32 \<Rightarrow> u16 \<Rightarrow> u8 \<Rightarrow> 'a desc_state_scheme \<Rightarrow> 'a desc_state_scheme" where
  "idt_set_gate num base selector flags s =
     s\<lparr>idt_entries := (idt_entries s)[unat num := (idt_entries s ! unat num)
       \<lparr>i_base_low := ucast (base AND 0xFFFF),
        i_base_high := ucast (drop_bit 16 base AND 0xFFFF),
        i_selector := selector,
        i_always0 := 0,
        i_flags := flags\<rparr>]\<rparr>"

definition idt_load_inline :: "table_ptr \<Rightarrow> 'a desc_state_scheme \<Rightarrow> 'a desc_state_scheme" where
  "idt_load_inline p s = s\<lparr>idtr := Some p\<rparr>"

text \<open>
  The gates of a group of stubs: \<^verbatim>\<open>n\<close> vectors from \<^verbatim>\<open>v\<close> on. The source writes one call per
  vector; \<^verbatim>\<open>stub i\<close> is the address of the stub for the \<^verbatim>\<open>i\<close>-th vector of the group.
\<close>

fun set_gates ::
    "nat \<Rightarrow> nat \<Rightarrow> nat \<Rightarrow> (nat \<Rightarrow> u32) \<Rightarrow> u16 \<Rightarrow> u8 \<Rightarrow> 'a desc_state_scheme \<Rightarrow> 'a desc_state_scheme" where
  "set_gates 0 v i stub selector flags s = s"
| "set_gates (Suc n) v i stub selector flags s =
     set_gates n v (Suc i) stub selector flags (idt_set_gate (of_nat (v + i)) (stub i) selector flags s)"

definition idt_install ::
    "u32 \<Rightarrow> (nat \<Rightarrow> u32) \<Rightarrow> (nat \<Rightarrow> u32) \<Rightarrow> u32 \<Rightarrow> 'a desc_state_scheme \<Rightarrow> 'a desc_state_scheme" where
  "idt_install idt_addr isr irq isr128 s =
     (let s = s\<lparr>idt_ptr := \<lparr>ptr_limit = 8 * 256 - 1, ptr_base = idt_addr\<rparr>\<rparr>;
          s = set_gates 256 0 0 (\<lambda>_. 0) 0 0 s;
          s = set_gates 32 0 0 isr 0x08 0x8F s;
          s = set_gates 16 32 0 irq 0x08 0x8E s;
          s = idt_set_gate 128 isr128 0x08 0xEE s
      in idt_load_inline (idt_ptr s) s)"

section \<open>The task state segment\<close>

definition tss_flush :: "'a desc_state_scheme \<Rightarrow> 'a desc_state_scheme" where
  "tss_flush s = s\<lparr>task_register := Some 0x28\<rparr>"

definition tss_install ::
    "u32 \<Rightarrow> 'a desc_state_scheme \<Rightarrow> 'b pmm_state_scheme \<Rightarrow>
     ('a desc_state_scheme \<times> 'b pmm_state_scheme) option" where
  "tss_install tss_addr s m =
     do {
       let limit = 104;
       s \<leftarrow> gdt_set_gate 5 tss_addr limit 0x89 0x40 s;
       let s = s\<lparr>tss_entry := zero_tss\<rparr>;
       let s = s\<lparr>tss_entry := (tss_entry s)\<lparr>t_iomap_base := 104\<rparr>\<rparr>;
       (stack, m) \<leftarrow> pmm_alloc_frame m;
       let s = s\<lparr>tss_entry := (tss_entry s)\<lparr>t_ss0 := 0x10, t_esp0 := (stack + PMM_FRAME_SIZE) AND NOT 0xF\<rparr>\<rparr>;
       Some (tss_flush s, m)
     }"

section \<open>The dispatcher of hardware interrupts\<close>

text \<open>
  The table of handlers; a handler is identified by a value of any type, and
  \<^verbatim>\<open>irq_handler\<close> takes the operation that runs it. An index outside the table is undefined
  behaviour, \<^term>\<open>None\<close>. The interrupt number is the one the stub pushed.
\<close>

definition irq_install_handler :: "int \<Rightarrow> 'h \<Rightarrow> 'h option list \<Rightarrow> 'h option list option" where
  "irq_install_handler irq handler tbl =
     (if 0 \<le> irq \<and> nat irq < length tbl then Some (tbl[nat irq := Some handler]) else None)"

definition irq_uninstall_handler :: "int \<Rightarrow> 'h option list \<Rightarrow> 'h option list option" where
  "irq_uninstall_handler irq tbl =
     (if 0 \<le> irq \<and> nat irq < length tbl then Some (tbl[nat irq := None]) else None)"

definition irq_handler ::
    "('h \<Rightarrow> registers_t \<Rightarrow> 'a io_state_scheme \<Rightarrow> (registers_t \<times> 'a io_state_scheme) option) \<Rightarrow>
     'h option list \<Rightarrow> registers_t \<Rightarrow> 'a io_state_scheme \<Rightarrow> (registers_t \<times> 'a io_state_scheme) option" where
  "irq_handler call irq_routines r s =
     do {
       let idx = unat (r_int_no r - 32);
       handler \<leftarrow> (if idx < length irq_routines then Some (irq_routines ! idx) else None);
       (r, s) \<leftarrow> (case handler of Some h \<Rightarrow> call h r s | None \<Rightarrow> Some (r, s));
       let s = (if r_int_no r \<ge> 40 then port_byte_out 0xA0 0x20 s else s);
       Some (r, port_byte_out 0x20 0x20 s)
     }"

section \<open>How the processor reads the tables\<close>

definition seg_base :: "gdt_entry_struct \<Rightarrow> u32" where
  "seg_base e = ucast (g_base_low e) OR push_bit 16 (ucast (g_base_middle e)) OR push_bit 24 (ucast (g_base_high e))"

definition seg_limit :: "gdt_entry_struct \<Rightarrow> u32" where
  "seg_limit e =
     (let l = ucast (g_limit_low e) OR push_bit 16 (ucast (g_granularity e AND 0x0F))
      in if bit (g_granularity e) 7 then push_bit 12 l OR 0xFFF else l)"

definition dpl :: "u8 \<Rightarrow> nat" where
  "dpl access = unat (drop_bit 5 access AND 3)"

definition code_segment :: "gdt_entry_struct \<Rightarrow> bool" where
  "code_segment e \<longleftrightarrow> bit (g_access e) 7 \<and> bit (g_access e) 4 \<and> bit (g_access e) 3"

definition gate_offset :: "idt_entry_struct \<Rightarrow> u32" where
  "gate_offset g = ucast (i_base_low g) OR push_bit 16 (ucast (i_base_high g))"

text \<open>
  The delivery of vector \<^verbatim>\<open>v\<close> at privilege level \<^verbatim>\<open>cpl\<close>; \<^verbatim>\<open>software\<close> for an \<^verbatim>\<open>int\<close> instruction,
  which the level of the gate restricts. The result is the address the processor jumps to,
  the level it runs at and whether interrupts stay enabled (a trap gate). \<^term>\<open>None\<close>: a fault.
\<close>

definition deliver :: "'a desc_state_scheme \<Rightarrow> nat \<Rightarrow> bool \<Rightarrow> nat \<Rightarrow> (u32 \<times> nat \<times> bool) option" where
  "deliver s v software cpl =
     (let g = idt_entries s ! v;
          ty = i_flags g AND 0x1F;
          k = unat (i_selector g) div 8;
          e = gdt_entries s ! k
      in if bit (i_flags g) 7 \<and> (ty = 0xE \<or> ty = 0xF) \<and> (software \<longrightarrow> cpl \<le> dpl (i_flags g)) \<and>
            k < length (gdt_entries s) \<and> code_segment e \<and> dpl (g_access e) \<le> cpl \<and> gate_offset g \<le> seg_limit e
         then Some (seg_base e + gate_offset g, dpl (g_access e), ty = 0xF)
         else None)"

section \<open>Encoding and decoding\<close>

lemma word_split:
  "ucast (ucast (b AND 0xFFFF) :: u16) OR push_bit 16 (ucast (ucast (drop_bit 16 b AND 0xFFFF) :: u16)) = (b :: u32)"
proof (rule bit_word_eqI)
  fix n :: nat
  assume "n < LENGTH(32)"
  moreover have m: "(0xFFFF :: u32) = mask 16" by (simp add: mask_eq_exp_minus_1)
  ultimately show "bit ((ucast :: u16 \<Rightarrow> u32) (ucast (b AND 0xFFFF) :: u16) OR push_bit 16 (ucast (ucast (drop_bit 16 b AND 0xFFFF) :: u16))) n \<longleftrightarrow> bit b n"
    by (cases "n < 16") (auto simp: bit_simps m)
qed

lemma word_split3:
  "ucast (ucast (b AND 0xFFFF) :: u16) OR push_bit 16 (ucast (ucast (drop_bit 16 b AND 0xFF) :: u8)) OR
     push_bit 24 (ucast (ucast (drop_bit 24 b AND 0xFF) :: u8)) = (b :: u32)"
proof (rule bit_word_eqI)
  fix n :: nat
  assume "n < LENGTH(32)"
  moreover have m: "(0xFFFF :: u32) = mask 16" "(0xFF :: u32) = mask 8" by (simp_all add: mask_eq_exp_minus_1)
  ultimately show "bit ((ucast :: u16 \<Rightarrow> u32) (ucast (b AND 0xFFFF) :: u16) OR push_bit 16 (ucast (ucast (drop_bit 16 b AND 0xFF) :: u8)) OR
     push_bit 24 (ucast (ucast (drop_bit 24 b AND 0xFF) :: u8))) n \<longleftrightarrow> bit b n"
    by (cases "n < 16"; cases "n < 24") (auto simp: bit_simps m)
qed

text \<open>What a call of \<^verbatim>\<open>gdt_set_gate\<close> leaves in its entry, as the processor decodes it.\<close>

definition seg_entry :: "u32 \<Rightarrow> u32 \<Rightarrow> u8 \<Rightarrow> u8 \<Rightarrow> gdt_entry_struct" where
  "seg_entry base limit access gran =
     \<lparr>g_limit_low = ucast (limit AND 0xFFFF), g_base_low = ucast (base AND 0xFFFF),
      g_base_middle = ucast (drop_bit 16 base AND 0xFF), g_access = access,
      g_granularity = ucast (drop_bit 16 limit AND 0x0F) OR (gran AND 0xF0), g_base_high = ucast (drop_bit 24 base AND 0xFF)\<rparr>"

lemma gdt_set_gate_eq:
  "0 \<le> num \<Longrightarrow> nat num < length (gdt_entries s) \<Longrightarrow>
     gdt_set_gate num base limit access gran s =
       Some (s\<lparr>gdt_entries := (gdt_entries s)[nat num := seg_entry base limit access gran]\<rparr>)"
  by (cases "gdt_entries s ! nat num") (simp add: gdt_set_gate_def seg_entry_def)

lemma seg_entry_base [simp]: "seg_base (seg_entry base limit access gran) = base"
  by (simp add: seg_base_def seg_entry_def word_split3)

lemma seg_entry_access [simp]: "g_access (seg_entry base limit access gran) = access"
  by (simp add: seg_entry_def)

text \<open>The gate that \<^verbatim>\<open>idt_set_gate\<close> writes.\<close>

definition gate :: "u32 \<Rightarrow> u16 \<Rightarrow> u8 \<Rightarrow> idt_entry_struct" where
  "gate base selector flags =
     \<lparr>i_base_low = ucast (base AND 0xFFFF), i_selector = selector, i_always0 = 0, i_flags = flags,
      i_base_high = ucast (drop_bit 16 base AND 0xFFFF)\<rparr>"

lemma gate_fields [simp]:
  "gate_offset (gate base selector flags) = base" "i_selector (gate base selector flags) = selector"
  "i_flags (gate base selector flags) = flags"
  by (simp_all add: gate_offset_def gate_def word_split)

lemma idt_set_gate_eq:
  "idt_set_gate num base selector flags s =
     s\<lparr>idt_entries := (idt_entries s)[unat num := gate base selector flags]\<rparr>"
  by (cases "idt_entries s ! unat num") (simp add: idt_set_gate_def gate_def)

lemma set_gates_nth:
  assumes "length (idt_entries s) = 256" and "v + i + n \<le> 256" and "k < 256"
  shows "idt_entries (set_gates n v i stub selector flags s) ! k =
     (if v + i \<le> k \<and> k < v + i + n then gate (stub (k - v)) selector flags else idt_entries s ! k)"
  using assms
proof (induction n v i stub selector flags s rule: set_gates.induct)
  case (2 n v i stub selector flags s)
  have "unat (of_nat (v + i) :: u8) = v + i" using 2(3) by (simp add: unat_of_nat del: of_nat_add)
  then show ?case using 2 by (auto simp: idt_set_gate_eq nth_list_update)
qed auto

lemma set_gates_frame:
  "length (idt_entries (set_gates n v i stub selector flags s)) = length (idt_entries s)"
  "gdt_entries (set_gates n v i stub selector flags s) = gdt_entries s"
  "idt_ptr (set_gates n v i stub selector flags s) = idt_ptr s"
  by (induction n v i stub selector flags s rule: set_gates.induct) (simp_all add: idt_set_gate_eq)

lemma idt_install_nth:
  assumes "length (idt_entries s) = 256" and "v < 256"
  shows "idt_entries (idt_install ia isr irq isr128 s) ! v =
     (if v < 32 then gate (isr v) 0x08 0x8F
      else if v < 48 then gate (irq (v - 32)) 0x08 0x8E
      else if v = 128 then gate isr128 0x08 0xEE
      else gate 0 0 0)"
  using assms
  by (simp add: idt_install_def Let_def idt_load_inline_def idt_set_gate_eq set_gates_nth set_gates_frame nth_list_update)

section \<open>The installed tables\<close>

lemma gdt_install_entries:
  assumes "length (gdt_entries s) = 6"
  obtains s' where "gdt_install ga s = Some s'"
    "gdt_entries s' = [seg_entry 0 0 0 0, seg_entry 0 0xFFFFFFFF 0x9A 0xCF, seg_entry 0 0xFFFFFFFF 0x92 0xCF,
       seg_entry 0 0xFFFFFFFF 0xFA 0xCF, seg_entry 0 0xFFFFFFFF 0xF2 0xCF, gdt_entries s ! 5]"
    "idt_entries s' = idt_entries s" "idtr s' = idtr s"
    "gdtr s' = Some \<lparr>ptr_limit = 47, ptr_base = ga\<rparr>"
proof -
  obtain a b c d e f where "gdt_entries s = [a, b, c, d, e, f]"
    using assms by (auto simp: numeral_eq_Suc length_Suc_conv)
  then show thesis
    using that by (simp add: gdt_install_def gdt_set_gate_eq gdt_flush_def)
qed

text \<open>C23. The tables that \<^verbatim>\<open>idt_install\<close> (idt.c) and \<^verbatim>\<open>gdt_install\<close> (gdt.c) build, read the way the
  processor reads them: exceptions 0 to 31 enter their stubs through trap gates, the hardware
  interrupts 32 to 47 enter theirs with interrupts disabled, the system call 128 enters its
  own, always at ring 0 and at exactly the address of the stub, and every other vector
  faults. An \<^verbatim>\<open>int\<close> instruction of a user program can reach the system call and nothing else.\<close>

theorem interrupt_entry_points:
  assumes "length (gdt_entries s) = 6" and "length (idt_entries s) = 256"
  shows "\<exists>s'. gdt_install ga (idt_install ia isr irq isr128 s) = Some s' \<and>
     idtr s' = Some \<lparr>ptr_limit = 2047, ptr_base = ia\<rparr> \<and> gdtr s' = Some \<lparr>ptr_limit = 47, ptr_base = ga\<rparr> \<and>
     (\<forall>v < 256. v \<noteq> 128 \<longrightarrow> (\<forall>cpl. deliver s' v False cpl =
        (if v < 32 then Some (isr v, 0, True) else if v < 48 then Some (irq (v - 32), 0, False) else None))) \<and>
     (\<forall>software cpl. cpl \<le> 3 \<longrightarrow> (\<exists>enabled. deliver s' 128 software cpl = Some (isr128, 0, enabled))) \<and>
     (\<forall>v < 256. v \<noteq> 128 \<longrightarrow> deliver s' v True 3 = None)"
proof -
  let ?s = "idt_install ia isr irq isr128 s"
  have g: "gdt_entries ?s = gdt_entries s" "idtr ?s = Some \<lparr>ptr_limit = 2047, ptr_base = ia\<rparr>"
    by (simp_all add: idt_install_def Let_def idt_load_inline_def idt_set_gate_eq set_gates_frame)
  from assms(1) g(1) have "length (gdt_entries ?s) = 6" by simp
  then obtain s' where s': "gdt_install ga ?s = Some s'"
    "gdt_entries s' = [seg_entry 0 0 0 0, seg_entry 0 0xFFFFFFFF 0x9A 0xCF, seg_entry 0 0xFFFFFFFF 0x92 0xCF,
       seg_entry 0 0xFFFFFFFF 0xFA 0xCF, seg_entry 0 0xFFFFFFFF 0xF2 0xCF, gdt_entries ?s ! 5]"
    "idt_entries s' = idt_entries ?s" "idtr s' = idtr ?s" "gdtr s' = Some \<lparr>ptr_limit = 47, ptr_base = ga\<rparr>"
    by (rule gdt_install_entries)
  let ?cs = "seg_entry 0 0xFFFFFFFF 0x9A 0xCF"
  have cs: "code_segment ?cs" "seg_limit ?cs = 0xFFFFFFFF" "dpl 0x9A = 0" "dpl 0x8F = 0" "dpl 0x8E = 0" "dpl 0xEE = 3"
    by (simp_all add: code_segment_def seg_limit_def seg_entry_def dpl_def)
  have top: "b \<le> (0xFFFFFFFF :: u32)" for b
    using unat_u32_bound [of b] by (simp add: word_le_nat_alt del: unat_u32_bound)
  note idt = idt_install_nth [OF assms(2)]
  have "deliver s' v False cpl = (if v < 32 then Some (isr v, 0, True) else if v < 48 then Some (irq (v - 32), 0, False)
      else None)" if "v < 256" "v \<noteq> 128" for v cpl
    using that by (simp add: deliver_def s'(2,3) idt cs top)
  moreover have "\<exists>enabled. deliver s' 128 software cpl = Some (isr128, 0, enabled)" if "cpl \<le> 3" for software cpl
    using that by (intro exI [of _ False]) (simp add: deliver_def s'(2,3) idt cs top)
  moreover have "deliver s' v True 3 = None" if "v < 256" "v \<noteq> 128" for v
    using that by (simp add: deliver_def s'(2,3) idt cs top)
  ultimately show ?thesis using s' g(2) by simp
qed

theorem interrupt_entry_points_witness:
  "\<exists>s'. gdt_install 0x9000 (idt_install 0x9800 (\<lambda>n. 0x1000 + 16 * of_nat n) (\<lambda>n. 0x2000 + 16 * of_nat n) 0x3000 desc_start) = Some s' \<and>
     deliver s' 14 False 3 = Some (0x10E0, 0, True) \<and> deliver s' 33 False 3 = Some (0x2010, 0, False) \<and>
     (\<exists>enabled. deliver s' 128 True 3 = Some (0x3000, 0, enabled)) \<and> deliver s' 32 True 3 = None"
proof -
  have l: "length (gdt_entries desc_start) = 6" "length (idt_entries desc_start) = 256" by (simp_all add: desc_start_def)
  from interrupt_entry_points [OF l, where ga = "0x9000" and ia = "0x9800" and
      isr = "\<lambda>n. 0x1000 + 16 * of_nat n" and irq = "\<lambda>n. 0x2000 + 16 * of_nat n" and ?isr128.0 = "0x3000"]
  show ?thesis by (elim exE conjE) (rule exI, intro conjI, assumption, simp_all)
qed

lemma stack_top_aligned: "(frame_addr i + 4096) AND - 16 = frame_addr i + 4096"
proof -
  have f: "frame_addr i + 4096 = push_bit 12 (of_nat (Suc i) :: u32)"
    by (simp add: frame_addr_def PMM_FRAME_SIZE_def push_bit_eq_mult algebra_simps)
  have m: "(- 16 :: u32) = NOT (mask 4)" by (simp add: mask_eq_exp_minus_1)
  show ?thesis unfolding f m by (intro bit_word_eqI) (auto simp: bit_simps simp del: of_nat_Suc)
qed

text \<open>C24. \<^verbatim>\<open>tss_install\<close> (tss.c) after \<^verbatim>\<open>gdt_install\<close>: when a frame is free, entry 5 of the segment
  table becomes a present descriptor of a 32-bit task state segment at its address, the code
  and data segments stay as they are, and the stack for entering the kernel is the end of a
  frame that was free and is now taken, in the kernel's data segment. The segment has no I/O
  permission map, so user programs reach no port.\<close>

theorem tss_install_correct:
  assumes "length (gdt_entries s) = 6" and "pmm_inv m" and "free_frames m \<noteq> {}"
  shows "\<exists>i s' m'. tss_install tss_addr s m = Some (s', m') \<and> i \<in> free_frames m \<and> free_frames m' = free_frames m - {i} \<and>
     t_esp0 (tss_entry s') = frame_addr i + 4096 \<and> t_ss0 (tss_entry s') = 0x10 \<and>
     seg_base (gdt_entries s' ! 5) = tss_addr \<and> seg_limit (gdt_entries s' ! 5) = 104 \<and> g_access (gdt_entries s' ! 5) = 0x89 \<and>
     seg_limit (gdt_entries s' ! 5) \<le> ucast (t_iomap_base (tss_entry s')) \<and>
     (\<forall>k < 5. gdt_entries s' ! k = gdt_entries s ! k) \<and> task_register s' = Some (8 * 5)"
proof -
  let ?i = "Min (free_frames m)"
  from pmm.alloc_some [OF assms(2,3)] obtain m' where
    m': "pmm_alloc_frame m = Some (frame_addr ?i, m')" "free_frames m' = free_frames m - {?i}" by blast
  have i: "?i \<in> free_frames m" by (rule pmm.Min_avail [OF assms(2,3)])
  have limit: "seg_limit (seg_entry tss_addr 104 0x89 0x40) = 104" by (simp add: seg_limit_def seg_entry_def)
  show ?thesis
    using assms(1) m' i limit
    by (intro exI [of _ ?i]) (simp add: tss_install_def gdt_set_gate_eq tss_flush_def stack_top_aligned PMM_FRAME_SIZE_def)
qed

definition tss_demo_pmm :: pmm_state where
  "tss_demo_pmm = \<lparr>pmm_bitmap = [7], pmm_total_frames = 32, pmm_bitmap_size = 4\<rparr>"

theorem tss_install_correct_witness:
  "\<exists>i s' m'. tss_install 0xA000 desc_start tss_demo_pmm = Some (s', m') \<and> i \<in> free_frames tss_demo_pmm \<and>
     t_esp0 (tss_entry s') = frame_addr i + 4096 \<and> seg_base (gdt_entries s' ! 5) = 0xA000"
proof -
  have l: "length (gdt_entries desc_start) = 6" by (simp add: desc_start_def)
  have p: "pmm_inv tss_demo_pmm" by (simp add: pmm_inv_def free_frames_def frame_used_def tss_demo_pmm_def)
  have "3 \<in> free_frames tss_demo_pmm" by (simp add: free_frames_def managed_frames_def frame_used_def tss_demo_pmm_def)
  then have f: "free_frames tss_demo_pmm \<noteq> {}" by blast
  from tss_install_correct [OF l p f, of "0xA000"] show ?thesis by blast
qed

end
