(* ===== verification/Debug.thy ===== *)
theory Debug
  imports Vga Machine Process
begin

text \<open>
  The debug console of the emulator, \<^verbatim>\<open>kernel/debug.c\<close>: every character is a byte written to
  port 0xE9, which nothing reads.
\<close>

section \<open>Operations\<close>

fun qemu_debug_string :: "bytes \<Rightarrow> 'a io_state_scheme \<Rightarrow> 'a io_state_scheme option" where
  "qemu_debug_string [] s = None"
| "qemu_debug_string (c # str) s = (if c \<noteq> 0 then qemu_debug_string str (port_byte_out 0xE9 c s) else Some s)"

text \<open>Writing a string literal of the source.\<close>

definition debug_lit :: "string \<Rightarrow> 'a io_state_scheme \<Rightarrow> 'a io_state_scheme" where
  "debug_lit l s = foldl (\<lambda>s c. port_byte_out 0xE9 c s) s (map chr l)"

definition qemu_debug_hex :: "u32 \<Rightarrow> 'a io_state_scheme \<Rightarrow> 'a io_state_scheme" where
  "qemu_debug_hex n s =
     foldl (\<lambda>s i. port_byte_out 0xE9 (hex_digit (drop_bit i n AND 0xF)) s) (debug_lit ''0x'' s) hex_shifts"

text \<open>The loop of \<^verbatim>\<open>qemu_debug_memdump\<close>, \<^verbatim>\<open>n\<close> bytes from index \<^verbatim>\<open>i\<close> on.\<close>

definition nibble_char :: "u8 \<Rightarrow> u8" where
  "nibble_char x = (if x > 9 then x - 10 + 65 else x + 48)"

fun dump_bytes :: "'b machine_state_scheme \<Rightarrow> u32 \<Rightarrow> nat \<Rightarrow> u32 \<Rightarrow> 'a io_state_scheme \<Rightarrow> 'a io_state_scheme option" where
  "dump_bytes m addr 0 i s = Some s"
| "dump_bytes m addr (Suc n) i s =
     (case vload8 m (addr + i) of
        None \<Rightarrow> None
      | Some byte \<Rightarrow>
          (let s = port_byte_out 0xE9 (nibble_char (drop_bit 4 byte AND 0xF)) s;
               s = port_byte_out 0xE9 (nibble_char (byte AND 0xF)) s;
               s = port_byte_out 0xE9 (chr CHR '' '') s;
               s = (if (i + 1) mod 16 = 0 then port_byte_out 0xE9 10 s else s)
           in dump_bytes m addr n (i + 1) s))"

definition qemu_debug_memdump ::
    "u32 \<Rightarrow> u32 \<Rightarrow> 'b machine_state_scheme \<Rightarrow> 'a io_state_scheme \<Rightarrow> 'a io_state_scheme option" where
  "qemu_debug_memdump addr sz m s =
     (let s = debug_lit ''Dumping memory at '' s;
          s = qemu_debug_hex addr s;
          s = debug_lit '' for '' s;
          s = qemu_debug_hex sz s;
          s = debug_lit ('' bytes...'' @ nl) s
      in map_option (port_byte_out 0xE9 10) (dump_bytes m addr (unat sz) 0 s))"

text \<open>A label followed by a number.\<close>

definition debug_field :: "string \<Rightarrow> u32 \<Rightarrow> 'a io_state_scheme \<Rightarrow> 'a io_state_scheme" where
  "debug_field l n s = qemu_debug_hex n (debug_lit l s)"

definition qemu_debug_regs :: "registers_t \<Rightarrow> 'a io_state_scheme \<Rightarrow> 'a io_state_scheme" where
  "qemu_debug_regs r s =
     (let s = debug_lit (''-- REGISTER DUMP --'' @ nl) s;
          s = debug_field ''EAX: '' (r_eax r) s; s = debug_field ''  EBX: '' (r_ebx r) s;
          s = debug_field ''  ECX: '' (r_ecx r) s; s = debug_field (nl @ ''EDX: '') (r_edx r) s;
          s = debug_field ''  ESI: '' (r_esi r) s; s = debug_field ''  EDI: '' (r_edi r) s;
          s = debug_lit (nl @ ''-- SEGMENT DUMP --'' @ nl) s;
          s = debug_field ''CS:  '' (r_cs r) s; s = debug_field ''  DS:  '' (r_ds r) s;
          s = debug_field ''  SS:  '' (r_ss r) s;
          s = debug_lit (nl @ ''-- CONTROL DUMP --'' @ nl) s;
          s = debug_field ''EIP: '' (r_eip r) s;
          s = debug_field ''  EFLAGS: '' (r_eflags r) s;
          s = debug_lit (nl @ ''-- STACK DUMP --'' @ nl) s;
          s = debug_field ''ESP: '' (r_esp r) s;
          s = debug_field ''  EBP: '' (r_ebp r) s;
          s = debug_field ''  UESP: '' (r_useresp r) s
      in debug_lit nl s)"

definition qemu_debug_cpu_state :: "cpu_state_t \<Rightarrow> 'a io_state_scheme \<Rightarrow> 'a io_state_scheme" where
  "qemu_debug_cpu_state c s =
     (let s = debug_lit (''-- CPU STATE DUMP --'' @ nl) s;
          s = debug_field ''EAX: '' (c_eax c) s; s = debug_field ''  EBX: '' (c_ebx c) s;
          s = debug_field ''  ECX: '' (c_ecx c) s; s = debug_field (nl @ ''EDX: '') (c_edx c) s;
          s = debug_field ''  ESI: '' (c_esi c) s; s = debug_field ''  EDI: '' (c_edi c) s;
          s = debug_lit (nl @ ''-- SEGMENT DUMP --'' @ nl) s;
          s = debug_field ''CS:  '' (c_cs c) s; s = debug_field ''  SS:  '' (c_ss c) s;
          s = debug_lit (nl @ ''-- CONTROL DUMP --'' @ nl) s;
          s = debug_field ''EIP: '' (c_eip c) s;
          s = debug_field ''  EFLAGS: '' (c_eflags c) s;
          s = debug_lit (nl @ ''-- STACK DUMP --'' @ nl) s;
          s = debug_field ''ESP: '' (c_esp c) s;
          s = debug_field ''  EBP: '' (c_ebp c) s;
          s = debug_lit (nl @ ''-- PAGING DUMP --'' @ nl) s;
          s = debug_field ''CR3: '' (c_cr3 c) s
      in debug_lit nl s)"

text \<open>
  \<^verbatim>\<open>qemu_debug_dec\<close> collects the digits in \<^verbatim>\<open>char buf[12]\<close>, the last one first, and writes them
  backwards.
\<close>

function collect_digits :: "u32 \<Rightarrow> bytes \<Rightarrow> int \<Rightarrow> (bytes \<times> int) option" where
  "collect_digits n buf i =
     (if n > 0
      then case arr_set buf i (ucast (n mod 10 + 48)) of
             None \<Rightarrow> None
           | Some buf \<Rightarrow> collect_digits (n div 10) buf (i + 1)
      else Some (buf, i))"
  by pat_completeness auto
termination
  by (relation "measure (\<lambda>(n, buf, i). unat n)") (auto simp: unat_div word_less_nat_alt)

fun write_back :: "nat \<Rightarrow> bytes \<Rightarrow> 'a io_state_scheme \<Rightarrow> 'a io_state_scheme option" where
  "write_back 0 buf s = Some s"
| "write_back (Suc i) buf s =
     (case arr_get buf (int i) of None \<Rightarrow> None | Some c \<Rightarrow> write_back i buf (port_byte_out 0xE9 c s))"

definition qemu_debug_dec :: "u32 \<Rightarrow> 'a io_state_scheme \<Rightarrow> 'a io_state_scheme option" where
  "qemu_debug_dec n s =
     (if n = 0 then Some (port_byte_out 0xE9 48 s)
      else case collect_digits n (replicate 12 0) 0 of
             None \<Rightarrow> None
           | Some (buf, i) \<Rightarrow> write_back (nat i) buf s)"

declare collect_digits.simps [simp del]

section \<open>What is written\<close>

definition debug_out :: "bytes \<Rightarrow> 'a io_state_scheme \<Rightarrow> 'a io_state_scheme" where
  "debug_out cs s = s\<lparr>io_trace := io_trace s @ map (OutB 0xE9) cs\<rparr>"

lemma debug_out_Nil [simp]: "debug_out [] s = s"
  by (simp add: debug_out_def)

lemma debug_out_Cons: "debug_out (c # cs) s = debug_out cs (port_byte_out 0xE9 c s)"
  by (simp add: debug_out_def port_byte_out_def)

lemma debug_out_append: "debug_out (cs @ ds) s = debug_out ds (debug_out cs s)"
  by (simp add: debug_out_def)

lemma foldl_debug_out: "foldl (\<lambda>s i. port_byte_out 0xE9 (f i) s) s xs = debug_out (map f xs) s"
  by (induction xs arbitrary: s) (simp_all add: debug_out_Cons)

lemma debug_lit_out: "debug_lit l s = debug_out (map chr l) s"
  using foldl_debug_out [of id s "map chr l"] by (simp add: debug_lit_def)

lemma qemu_debug_hex_out: "qemu_debug_hex n s = debug_out (map chr ''0x'' @ hex_chars n) s"
  unfolding qemu_debug_hex_def foldl_debug_out debug_lit_out debug_out_append hex_chars_def ..

lemma qemu_debug_string_out: "qemu_debug_string p s = map_option (\<lambda>t. debug_out t s) (text_of p)"
  by (induction p s rule: qemu_debug_string.induct) (auto simp: option.map_comp o_def debug_out_Cons)

text \<open>The number of digits of a 32-bit number.\<close>

lemma dec_digits_pos: "dec_digits n \<noteq> []"
  by (subst dec_digits.simps) simp

lemma dec_digits_length: "n < 10 ^ k \<Longrightarrow> 0 < k \<Longrightarrow> length (dec_digits n) \<le> k"
proof (induction k arbitrary: n)
  case (Suc k)
  show ?case
  proof (cases "n < 10")
    case True
    then show ?thesis by (subst dec_digits.simps) simp
  next
    case False
    then have "0 < k" using Suc.prems(1) by (cases k) simp_all
    moreover have "n div 10 < 10 ^ k" using Suc.prems(1) by (simp add: less_mult_imp_div_less mult.commute)
    ultimately show ?thesis using Suc.IH False by (subst dec_digits.simps) simp
  qed
qed simp

text \<open>
  The loop puts the reversed digits into the buffer from \<^verbatim>\<open>i\<close> on, provided they fit.
\<close>

lemma collect_digits_run:
  assumes "n \<noteq> 0" and "i + length (dec_digits (unat n)) \<le> length buf"
  shows "collect_digits n buf (int i) =
     Some (take i buf @ rev (dec_digits (unat n)) @ drop (i + length (dec_digits (unat n))) buf,
           int (i + length (dec_digits (unat n))))"
  using assms
proof (induction n arbitrary: i buf rule: measure_induct_rule [of unat])
  case (less n)
  let ?c = "of_nat (unat n mod 10 + 48) :: u8"
  have i: "i < length buf" using less.prems(2) dec_digits_pos [of "unat n"] by (cases "dec_digits (unat n)") auto
  have step: "collect_digits n buf (int i) = collect_digits (n div 10) (buf[i := ?c]) (int (Suc i))"
    using less.prems(1) i 
    by (subst collect_digits.simps) (simp add: arr_set_def dec_char word_gt_0 add.commute [of "int i" 1] del: of_nat_add)
  have put: "take (Suc i) (buf[i := ?c]) = take i buf @ [?c]" using i by (rule take_Suc_update)
  show ?case
  proof (cases "unat n < 10")
    case True
    then have d: "dec_digits (unat n) = [?c]" "n div 10 = 0"
      by (simp_all add: dec_digits.simps [of "unat n"] unat_eq_zero [symmetric] unat_div del: unat_eq_zero)
    have "buf[i := ?c] = take i buf @ ?c # drop (Suc i) buf" using i by (rule upd_conv_take_nth_drop)
    then show ?thesis unfolding step d by (subst collect_digits.simps) simp
  next
    case False
    then have m: "unat (n div 10) = unat n div 10" "n div 10 \<noteq> 0" by (auto simp: unat_div unat_eq_zero [symmetric])
    have d: "dec_digits (unat n) = dec_digits (unat (n div 10)) @ [?c]"
      using False m(1) by (simp add: dec_digits.simps [of "unat n"])
    have "unat (n div 10) < unat n" using False m(1) by simp
    from less.IH [OF this m(2), of "Suc i" "buf[i := ?c]"] less.prems(2) d
    show ?thesis unfolding step using put by simp
  qed
qed

lemma write_back_run: "i \<le> length buf \<Longrightarrow> write_back i buf s = Some (debug_out (rev (take i buf)) s)"
  by (induction i arbitrary: s) (simp_all add: arr_get_def take_Suc_conv_app_nth debug_out_Cons)

lemma qemu_debug_dec_out:
  "qemu_debug_dec n s = Some (debug_out (dec_digits (unat n)) s)"
proof (cases "n = 0")
  case True
  then show ?thesis by (simp add: qemu_debug_dec_def dec_digits.simps [of 0] debug_out_Cons)
next
  case False
  let ?d = "dec_digits (unat n)"
  have "unat n < 4294967296" by (rule unat_u32_bound)
  then have "unat n < 10 ^ 10" by (rule less_trans) simp
  then have len: "length ?d \<le> 10" by (rule dec_digits_length) simp
  have "collect_digits n (replicate 12 0) (int 0) = Some (rev ?d @ replicate (12 - length ?d) 0, int (length ?d))"
    using collect_digits_run [OF False, of 0 "replicate 12 0"] len by simp
  then show ?thesis
    using False by (simp add: qemu_debug_dec_def write_back_run)
qed

text \<open>C29. \<^verbatim>\<open>qemu_debug_dec\<close> (debug.c) writes exactly the decimal digits of every 32-bit number to
  the debug console, most significant first, and nothing else; its twelve-byte buffer is
  always large enough.\<close>

theorem qemu_debug_dec_correct:
  "qemu_debug_dec n s = Some (debug_out (dec_digits (unat n)) s)"
  by (rule qemu_debug_dec_out)

end
