(* ===== verification/Exec.thy ===== *)
theory Exec
  imports Fs Process
begin

text \<open>
  Building the address space of a program: the part of \<^verbatim>\<open>exec_program\<close> (\<^verbatim>\<open>kernel/cpu/process.c\<close>)
  between the switch to the new page directory and the switch back, with the ELF structures
  of \<^verbatim>\<open>include/kernel/elf.h\<close>. The fields of a header are read from the file buffer every time
  the code reads them, because the copies into the new address space write to memory.
\<close>

section \<open>The ELF structures\<close>

definition ELF_MAGIC :: u32 where "ELF_MAGIC = 0x464C457F"
definition PT_LOAD :: u32 where "PT_LOAD = 1"
definition USER_STACK_PAGES :: nat where "USER_STACK_PAGES = 4"

definition eh_magic :: "u32 \<Rightarrow> 'a machine_state_scheme \<Rightarrow> u32 option" where "eh_magic h s = vload32 s h"
definition eh_entry :: "u32 \<Rightarrow> 'a machine_state_scheme \<Rightarrow> u32 option" where "eh_entry h s = vload32 s (h + 24)"
definition eh_phoff :: "u32 \<Rightarrow> 'a machine_state_scheme \<Rightarrow> u32 option" where "eh_phoff h s = vload32 s (h + 28)"
definition eh_phnum :: "u32 \<Rightarrow> 'a machine_state_scheme \<Rightarrow> u16 option" where "eh_phnum h s = vload16 s (h + 44)"

definition ph_type :: "u32 \<Rightarrow> 'a machine_state_scheme \<Rightarrow> u32 option" where "ph_type p s = vload32 s p"
definition ph_offset :: "u32 \<Rightarrow> 'a machine_state_scheme \<Rightarrow> u32 option" where "ph_offset p s = vload32 s (p + 4)"
definition ph_vaddr :: "u32 \<Rightarrow> 'a machine_state_scheme \<Rightarrow> u32 option" where "ph_vaddr p s = vload32 s (p + 8)"
definition ph_filesz :: "u32 \<Rightarrow> 'a machine_state_scheme \<Rightarrow> u32 option" where "ph_filesz p s = vload32 s (p + 16)"
definition ph_memsz :: "u32 \<Rightarrow> 'a machine_state_scheme \<Rightarrow> u32 option" where "ph_memsz p s = vload32 s (p + 20)"

section \<open>Segments\<close>

text \<open>The loop that maps the pages of a segment; \<^term>\<open>False\<close>: out of physical memory.\<close>

definition user_page :: "u32 \<Rightarrow> u32 \<Rightarrow> u32 \<Rightarrow> 'a machine_state_scheme \<Rightarrow> 'a machine_state_scheme option" where
  "user_page new_dir virt_addr phys_frame s =
     paging_map_page new_dir virt_addr phys_frame (PAGING_FLAG_PRESENT OR PAGING_FLAG_RW OR PAGING_FLAG_USER) s"

partial_function (option) map_segment ::
    "u32 \<Rightarrow> u32 \<Rightarrow> u32 \<Rightarrow> 'a machine_state_scheme \<Rightarrow> (bool \<times> 'a machine_state_scheme) option" where
  "map_segment new_dir phdr p s =
     do {
       memsz \<leftarrow> ph_memsz phdr s;
       if p < memsz then do {
         vaddr \<leftarrow> ph_vaddr phdr s;
         let virt_addr = vaddr + p;
         (phys_frame, s) \<leftarrow> pmm_alloc_frame s;
         if phys_frame = 0 then Some (False, s)
         else do {
           s \<leftarrow> user_page new_dir virt_addr phys_frame s;
           map_segment new_dir phdr (p + PMM_FRAME_SIZE) s
         }
       }
       else Some (True, s)
     }"

text \<open>Copying the contents of the segment and clearing the rest of it.\<close>

definition fill_segment :: "u32 \<Rightarrow> u32 \<Rightarrow> 'a machine_state_scheme \<Rightarrow> 'a machine_state_scheme option" where
  "fill_segment file_buffer phdr s =
     do {
       vaddr \<leftarrow> ph_vaddr phdr s;
       offset \<leftarrow> ph_offset phdr s;
       filesz \<leftarrow> ph_filesz phdr s;
       s \<leftarrow> vmemcpy (unat filesz) vaddr (file_buffer + offset) s;
       memsz \<leftarrow> ph_memsz phdr s;
       filesz \<leftarrow> ph_filesz phdr s;
       if memsz > filesz then do {
         vaddr \<leftarrow> ph_vaddr phdr s;
         let bss_start = vaddr + filesz;
         let bss_size = memsz - filesz;
         vmemset (unat bss_size) bss_start 0 s
       }
       else Some s
     }"

text \<open>The loop over the program headers, from index \<^verbatim>\<open>i\<close> on.\<close>

partial_function (option) load_segments ::
    "u32 \<Rightarrow> u32 \<Rightarrow> u32 \<Rightarrow> u32 \<Rightarrow> 'a machine_state_scheme \<Rightarrow> (bool \<times> 'a machine_state_scheme) option" where
  "load_segments new_dir file_buffer phdrs i s =
     do {
       phnum \<leftarrow> eh_phnum file_buffer s;
       if i < ucast phnum then do {
         let phdr = phdrs + 32 * i;
         type \<leftarrow> ph_type phdr s;
         if type = PT_LOAD then do {
           (ok, s) \<leftarrow> map_segment new_dir phdr 0 s;
           if ok then do {
             s \<leftarrow> fill_segment file_buffer phdr s;
             load_segments new_dir file_buffer phdrs (i + 1) s
           }
           else Some (False, s)
         }
         else load_segments new_dir file_buffer phdrs (i + 1) s
       }
       else Some (True, s)
     }"

section \<open>The user stack\<close>

fun map_user_stack :: "u32 \<Rightarrow> nat \<Rightarrow> u32 \<Rightarrow> 'a machine_state_scheme \<Rightarrow> (bool \<times> 'a machine_state_scheme) option" where
  "map_user_stack new_dir 0 i s = Some (True, s)"
| "map_user_stack new_dir (Suc n) i s =
     do {
       let virt_addr = USER_STACK_TOP - (i + 1) * PMM_FRAME_SIZE;
       (phys_frame, s) \<leftarrow> pmm_alloc_frame s;
       if phys_frame = 0 then Some (False, s)
       else do {
         s \<leftarrow> user_page new_dir virt_addr phys_frame s;
         map_user_stack new_dir n (i + 1) s
       }
     }"

text \<open>
  Copying the arguments. A kernel string is an array; \<^verbatim>\<open>copy_out\<close> is \<^verbatim>\<open>memcpy\<close> from it to a
  virtual address. \<^verbatim>\<open>push_strings\<close> takes the arguments in the order of the loop, the last one
  first, and returns the addresses in the order of \<^verbatim>\<open>user_argv\<close>, which has \<^verbatim>\<open>MAX_ARGS\<close> places.
\<close>

fun copy_out :: "nat \<Rightarrow> u32 \<Rightarrow> bytes \<Rightarrow> 'a machine_state_scheme \<Rightarrow> 'a machine_state_scheme option" where
  "copy_out 0 dst src s = Some s"
| "copy_out (Suc n) dst [] s = None"
| "copy_out (Suc n) dst (c # src) s = vstore8 dst c s \<bind> copy_out n (dst + 1) src"

fun push_strings ::
    "bytes list \<Rightarrow> u32 \<Rightarrow> u32 list \<Rightarrow> 'a machine_state_scheme \<Rightarrow> (u32 \<times> u32 list \<times> 'a machine_state_scheme) option" where
  "push_strings [] user_stack_ptr user_argv s = Some (user_stack_ptr, user_argv, s)"
| "push_strings (arg # args) user_stack_ptr user_argv s =
     do {
       n \<leftarrow> strlen arg;
       let len = n + 1;
       let user_stack_ptr = user_stack_ptr - len;
       s \<leftarrow> copy_out (unat len) user_stack_ptr arg s;
       push_strings args user_stack_ptr (user_stack_ptr # user_argv) s
     }"

fun store_words :: "u32 list \<Rightarrow> u32 \<Rightarrow> 'a machine_state_scheme \<Rightarrow> 'a machine_state_scheme option" where
  "store_words [] a s = Some s"
| "store_words (w # ws) a s = vstore32 a w s \<bind> store_words ws (a + 4)"

text \<open>
  The words below the strings: the argument array with its NULL, the address of the array
  and the count; the result is the final stack pointer.
\<close>

definition write_block :: "u32 list \<Rightarrow> u32 \<Rightarrow> 'a machine_state_scheme \<Rightarrow> (u32 \<times> 'a machine_state_scheme) option" where
  "write_block user_argv argv_on_stack s =
     do {
       let argc = of_nat (length user_argv);
       s \<leftarrow> store_words user_argv argv_on_stack s;
       s \<leftarrow> vstore32 (argv_on_stack + 4 * argc) 0 s;
       let user_stack_ptr = argv_on_stack - 4;
       s \<leftarrow> vstore32 user_stack_ptr argv_on_stack s;
       let user_stack_ptr = user_stack_ptr - 4;
       s \<leftarrow> vstore32 user_stack_ptr argc s;
       Some (user_stack_ptr, s)
     }"

definition push_args :: "bytes list \<Rightarrow> 'a machine_state_scheme \<Rightarrow> (u32 \<times> 'a machine_state_scheme) option" where
  "push_args argv s =
     (if length argv > MAX_ARGS then None else do {
       let argc = of_nat (length argv);
       (user_stack_ptr, user_argv, s) \<leftarrow> push_strings (rev argv) USER_STACK_TOP [] s;
       let user_stack_ptr = user_stack_ptr AND NOT 0x3;
       let user_stack_ptr = user_stack_ptr - 4 * (argc + 1);
       write_block user_argv user_stack_ptr s
     })"

section \<open>Writing to mapped memory\<close>

definition word_bytes :: "u32 \<Rightarrow> bytes" where
  "word_bytes v = [ucast v, ucast (drop_bit 8 v), ucast (drop_bit 16 v), ucast (drop_bit 24 v)]"

lemma length_word_bytes [simp]: "length (word_bytes v) = 4"
  by (simp add: word_bytes_def)

lemma vload32_word_bytes:
  assumes "mapped_region R s" and "addr_range a 4 \<subseteq> R" and "4 dvd unat a" and "bytes_at (vload8 s) a (word_bytes v)"
  shows "vload32 s a = Some v"
  using vload32_bytes_at [OF assms(1-3) assms(4) [unfolded word_bytes_def]] by (simp add: bytes_of_word)

lemma vstore32_word:
  assumes "mapped_region R s" and "addr_range a 4 \<subseteq> R" and "4 dvd unat a"
  shows "\<exists>s'. vstore32 a v s = Some s' \<and> mapped_region R s' \<and> space_view s' = space_view s \<and>
     bytes_at (vload8 s') a (word_bytes v) \<and> (\<forall>b \<in> R. b \<notin> addr_range a 4 \<longrightarrow> vload8 s' b = vload8 s b)"
proof -
  have wf: "paging_wf s" and "a \<in> R" using assms(1,2) addr_rangeI [of 0 4 a] by (auto simp: mapped_region_def)
  with assms(1) obtain pa where pa: "translate s a = Some pa" "frame_of pa \<notin> table_frames s" by (auto simp: mapped_region_def)
  note w = translate_word [OF wf pa(1) assms(3)]
  let ?s = "s\<lparr>phys := store32 (phys s) pa v\<rparr>"
  have view: "space_view ?s = space_view s" by (rule space_view_outside [OF wf pa(2) w(4)])
  from vstore32_run [OF assms, of v] w(3) [of v] have
    run: "mapped_region R ?s" "\<forall>b \<in> R. b \<notin> addr_range a 4 \<longrightarrow> vload8 ?s b = vload8 s b"
    by auto
  have tr: "translate ?s = translate s" using outside_tables(3) [OF wf pa(2) w(4) [of v]] by (rule ext)
  have "vload8 ?s (a + of_nat i) = Some (word_bytes v ! i)" if i: "i < 4" for i
  proof -
    have "vload8 ?s (a + of_nat i) = Some (store32 (phys s) pa v (pa + of_nat i))"
      using translate_byte [OF paging_wfD(1) [OF wf] pa(1) assms(3) i] by (simp add: vload8_def tr)
    moreover have "i \<in> {0, 1, 2, 3}" using i by auto
    ultimately show ?thesis by (auto simp: store32_apply word_bytes_def)
  qed
  then show ?thesis using run view w(3) by (intro exI [of _ ?s]) (simp add: bytes_at_def)
qed

lemma addr_range_append: "addr_range a (length (bs @ cs)) = addr_range a (length bs) \<union> addr_range (a + of_nat (length bs)) (length cs)"
  by (simp add: addr_range_add)

text \<open>Writing two adjacent parts one after the other.\<close>

lemma bytes_at_keep:
  assumes "bytes_at (vload8 s) a bs" and "\<forall>b \<in> R. b \<notin> W \<longrightarrow> vload8 s' b = vload8 s b"
    and "addr_range a (length bs) \<subseteq> R" and "addr_range a (length bs) \<inter> W = {}"
  shows "bytes_at (vload8 s') a bs"
  by (rule bytes_at_cong [OF assms(1)]) (use assms(2-4) in blast)

lemma addr_range_disjoint:
  assumes "unat a + m \<le> 4294967296" and "unat b + n \<le> 4294967296" and "unat a + m \<le> unat b \<or> unat b + n \<le> unat a"
  shows "addr_range a m \<inter> addr_range b n = {}"
  using assms(3) by (auto simp: addr_range_iff [OF assms(1)] addr_range_iff [OF assms(2)])

lemma unat_add_nat: "unat (a :: u32) + n < 4294967296 \<Longrightarrow> unat (a + of_nat n) = unat a + n"
  by (simp add: unat_plus_u32_small unat_of_nat_u32)

lemma copy_out_run:
  assumes "mapped_region R s" and "addr_range dst (length bs) \<subseteq> R" and "unat dst + length bs < 4294967296"
  shows "\<exists>s'. copy_out (length bs) dst (bs @ rest) s = Some s' \<and> mapped_region R s' \<and> space_view s' = space_view s \<and>
     bytes_at (vload8 s') dst bs \<and> (\<forall>b \<in> R. b \<notin> addr_range dst (length bs) \<longrightarrow> vload8 s' b = vload8 s b)"
  using assms
proof (induction bs arbitrary: dst s)
  case Nil
  then show ?case by (simp add: bytes_at_Nil)
next
  case (Cons c bs)
  from Cons.prems(2) have d: "dst \<in> R" "addr_range (dst + 1) (length bs) \<subseteq> R" by (simp_all add: addr_range_Suc)
  have u: "unat (dst + 1) = unat dst + 1" using unat_add_nat [of dst 1] Cons.prems(3) by simp
  from vmf.wr_some [OF Cons.prems(1) d(1), of c] obtain s1 where
    s1: "vstore8 dst c s = Some s1" "mapped_region R s1" "space_view s1 = space_view s"
      "vload8 s1 dst = Some c" "\<forall>b \<in> R. b \<noteq> dst \<longrightarrow> vload8 s1 b = vload8 s b" by blast
  from Cons.IH [OF s1(2) d(2)] u Cons.prems(3) obtain s' where
    s': "copy_out (length bs) (dst + 1) (bs @ rest) s1 = Some s'" "mapped_region R s'" "space_view s' = space_view s1"
      "bytes_at (vload8 s') (dst + 1) bs" "\<forall>b \<in> R. b \<notin> addr_range (dst + 1) (length bs) \<longrightarrow> vload8 s' b = vload8 s1 b" by auto
  have "dst \<notin> addr_range (dst + 1) (length bs)"
    using addr_range_iff [of "dst + 1" "length bs" dst] u Cons.prems(3) by simp
  then have "vload8 s' dst = Some c" using s'(5) s1(4) d(1) by simp
  then show ?case
    using s1 s' by (intro exI [of _ s']) (auto simp: bytes_at_Cons addr_range_Suc)
qed

lemma store_words_run:
  assumes "mapped_region R s" and "addr_range a (4 * length ws) \<subseteq> R" and "unat a + 4 * length ws < 4294967296" and "4 dvd unat a"
  shows "\<exists>s'. store_words ws a s = Some s' \<and> mapped_region R s' \<and> space_view s' = space_view s \<and>
     bytes_at (vload8 s') a (concat (map word_bytes ws)) \<and> (\<forall>b \<in> R. b \<notin> addr_range a (4 * length ws) \<longrightarrow> vload8 s' b = vload8 s b)"
  using assms
proof (induction ws arbitrary: a s)
  case Nil
  then show ?case by (simp add: bytes_at_Nil)
next
  case (Cons w ws)
  have split: "addr_range a (4 * length (w # ws)) = addr_range a 4 \<union> addr_range (a + 4) (4 * length ws)"
    using addr_range_add [of a 4 "4 * length ws"] by simp
  have u: "unat (a + 4) = unat a + 4" using unat_add_nat [of a 4] Cons.prems(3) by simp
  from vstore32_word [OF Cons.prems(1) _ Cons.prems(4), of w] Cons.prems(2) obtain s1 where
    s1: "vstore32 a w s = Some s1" "mapped_region R s1" "space_view s1 = space_view s"
      "bytes_at (vload8 s1) a (word_bytes w)" "\<forall>b \<in> R. b \<notin> addr_range a 4 \<longrightarrow> vload8 s1 b = vload8 s b"
    unfolding split by blast
  have "4 dvd unat (a + 4)" using Cons.prems(4) unfolding u by simp
  with Cons.IH [OF s1(2), of "a + 4"] u Cons.prems(2,3) obtain s' where
    s': "store_words ws (a + 4) s1 = Some s'" "mapped_region R s'" "space_view s' = space_view s1"
      "bytes_at (vload8 s') (a + 4) (concat (map word_bytes ws))"
      "\<forall>b \<in> R. b \<notin> addr_range (a + 4) (4 * length ws) \<longrightarrow> vload8 s' b = vload8 s1 b"
    unfolding split by auto
  have "addr_range a 4 \<inter> addr_range (a + 4) (4 * length ws) = {}"
    by (rule addr_range_disjoint) (use u Cons.prems(3) in simp_all)
  then have "bytes_at (vload8 s') a (word_bytes w)"
    using bytes_at_keep [OF s1(4) s'(5)] Cons.prems(2) unfolding split by simp
  then show ?case
    using s1 s' unfolding split by (intro exI [of _ s']) (auto simp: bytes_at_append)
qed

section \<open>The arguments on the stack\<close>

definition texts_size :: "bytes list \<Rightarrow> nat" where
  "texts_size ts = sum_list (map (\<lambda>t. length t + 1) ts)"

lemma texts_size_simps [simp]: "texts_size [] = 0" "texts_size (t # ts) = length t + 1 + texts_size ts"
  by (simp_all add: texts_size_def)

lemma texts_size_rev [simp]: "texts_size (rev ts) = texts_size ts"
  by (simp add: texts_size_def rev_map flip: rev_map)

lemma unat_sub_nat: "n \<le> unat (a :: u32) \<Longrightarrow> unat (a - of_nat n) = unat a - n"
  using unat_u32_bound [of a] by (simp add: unat_sub_if' unat_of_nat_u32 del: unat_u32_bound)

lemma push_strings_run:
  assumes "mapped_region R s" and "list_all2 (\<lambda>a t. text_of a = Some t) args ts" and "texts_size ts \<le> unat sp"
    and "addr_range (sp - of_nat (texts_size ts)) (texts_size ts) \<subseteq> R"
  shows "\<exists>s' ps. push_strings args sp acc s = Some (sp - of_nat (texts_size ts), rev ps @ acc, s') \<and>
     mapped_region R s' \<and> space_view s' = space_view s \<and>
     list_all2 (\<lambda>p t. unat sp - texts_size ts \<le> unat p \<and> unat p + length t < unat sp \<and> bytes_at (vload8 s') p (t @ [0])) ps ts \<and>
     (\<forall>b \<in> R. b \<notin> addr_range (sp - of_nat (texts_size ts)) (texts_size ts) \<longrightarrow> vload8 s' b = vload8 s b)"
  using assms
proof (induction args arbitrary: ts sp acc s)
  case Nil
  then show ?case by simp
next
  case (Cons arg args)
  from Cons.prems(2) obtain t ts' where ts: "ts = t # ts'" "text_of arg = Some t" "list_all2 (\<lambda>a t. text_of a = Some t) args ts'"
    by (auto simp: list_all2_Cons1)
  define n where "n = length t + 1"
  define sp1 where "sp1 = sp - of_nat n"
  define sp2 where "sp2 = sp1 - of_nat (texts_size ts')"
  have sz: "texts_size ts = n + texts_size ts'" by (simp add: ts n_def)
  have u1: "unat sp1 = unat sp - n" unfolding sp1_def by (rule unat_sub_nat) (use Cons.prems(3) sz in simp)
  have u2: "unat sp2 = unat sp - texts_size ts" unfolding sp2_def
    using unat_sub_nat [of "texts_size ts'" sp1] u1 Cons.prems(3) sz by simp
  have sp: "sp - of_nat (texts_size ts) = sp2" "sp2 + of_nat (texts_size ts') = sp1"
    by (simp_all add: sp2_def sp1_def sz)
  have len: "n < 4294967296" using Cons.prems(3) unat_u32_bound [of sp] sz by linarith
  obtain rest where arg: "arg = (t @ [0]) @ rest" using ts(2) by (auto elim: text_of_SomeE)
  have split: "addr_range sp2 (texts_size ts) = addr_range sp2 (texts_size ts') \<union> addr_range sp1 n"
    using addr_range_add [of sp2 "texts_size ts'" n] sp(2) sz by (simp add: add.commute)
  have R: "addr_range sp1 n \<subseteq> R" "addr_range sp2 (texts_size ts') \<subseteq> R"
    using Cons.prems(4) unfolding sp split by simp_all
  have "addr_range sp1 (length (t @ [0])) \<subseteq> R" "unat sp1 + length (t @ [0]) < 4294967296"
    using R(1) u1 Cons.prems(3) sz unat_u32_bound [of sp] by (simp_all add: n_def del: unat_u32_bound)
  from copy_out_run [OF Cons.prems(1) this, of rest] obtain s1 where
    s1: "copy_out n sp1 arg s = Some s1" "mapped_region R s1" "space_view s1 = space_view s"
      "bytes_at (vload8 s1) sp1 (t @ [0])" "\<forall>b \<in> R. b \<notin> addr_range sp1 n \<longrightarrow> vload8 s1 b = vload8 s b"
    using arg by (auto simp: n_def)
  have "texts_size ts' \<le> unat sp1" using u1 Cons.prems(3) sz by linarith
  from Cons.IH [OF s1(2) ts(3) this R(2) [unfolded sp2_def], of "sp1 # acc"] obtain s' ps where
    s': "push_strings args sp1 (sp1 # acc) s1 = Some (sp2, rev ps @ sp1 # acc, s')" "mapped_region R s'"
      "space_view s' = space_view s1"
      "list_all2 (\<lambda>p t. unat sp1 - texts_size ts' \<le> unat p \<and> unat p + length t < unat sp1 \<and> bytes_at (vload8 s') p (t @ [0])) ps ts'"
      "\<forall>b \<in> R. b \<notin> addr_range sp2 (texts_size ts') \<longrightarrow> vload8 s' b = vload8 s1 b"
    unfolding sp2_def by blast
  have "addr_range sp1 n \<inter> addr_range sp2 (texts_size ts') = {}"
    by (rule addr_range_disjoint) (use u1 u2 Cons.prems(3) sz unat_u32_bound [of sp] in linarith)+
  then have first: "bytes_at (vload8 s') sp1 (t @ [0])"
    using bytes_at_keep [OF s1(4) s'(5)] R(1) by (simp add: n_def)
  have strlen: "strlen arg = Some (of_nat (length t))" using ts(2) by (simp add: strlen_text)
  have cn: "of_nat (length t) + 1 = (of_nat n :: u32)" "unat (of_nat n :: u32) = n"
    using len by (simp_all add: n_def unat_of_nat_u32 del: of_nat_add of_nat_Suc) simp
  have run: "push_strings (arg # args) sp acc s = Some (sp2, rev (sp1 # ps) @ acc, s')"
    using strlen s1(1) s'(1) by (simp add: cn sp1_def [symmetric])
  have "list_all2 (\<lambda>p t. unat sp - texts_size ts \<le> unat p \<and> unat p + length t < unat sp \<and> bytes_at (vload8 s') p (t @ [0])) (sp1 # ps) ts"
    unfolding ts(1) list.rel_inject
  proof
    show "unat sp - texts_size (t # ts') \<le> unat sp1 \<and> unat sp1 + length t < unat sp \<and> bytes_at (vload8 s') sp1 (t @ [0])"
      using first u1 Cons.prems(3) sz by (simp add: ts n_def)
    show "list_all2 (\<lambda>p u. unat sp - texts_size (t # ts') \<le> unat p \<and> unat p + length u < unat sp \<and> bytes_at (vload8 s') p (u @ [0])) ps ts'"
      by (rule list_all2_mono [OF s'(4)]) (use u1 sz ts(1) in auto)
  qed
  moreover have "\<forall>b \<in> R. b \<notin> addr_range sp2 (texts_size ts) \<longrightarrow> vload8 s' b = vload8 s b"
    unfolding split using s1(5) s'(5) by simp
  ultimately show ?case
    unfolding sp using run s'(2,3) s1(3) by (intro exI [of _ s'] exI [of _ "sp1 # ps"]) simp
qed

lemma unat_align4: "unat ((a :: u32) AND NOT 0x3) = unat a div 4 * 4"
proof -
  have m: "(0x3 :: u32) = mask 2" by (simp add: mask_eq_exp_minus_1)
  have "a AND NOT (mask 2) = push_bit 2 (drop_bit 2 a)"
  proof (rule bit_word_eqI)
    fix n
    have "2 \<le> n \<Longrightarrow> Suc (Suc (n - 2)) = n" by simp
    then show "bit (a AND NOT (mask 2)) n = bit (push_bit 2 (drop_bit 2 a)) n" by (auto simp: bit_simps not_less)
  qed
  moreover have "unat a div 4 * 4 < 4294967296"
    using unat_u32_bound [of a] by (meson div_times_less_eq_dividend order_le_less_trans)
  ultimately show ?thesis
    unfolding m by (simp add: push_bit_eq_mult drop_bit_eq_div unat_word_ariths unat_div_distrib)
qed

text \<open>
  What the entry code of a program finds on its stack: the number of arguments, the address of
  the argument array, which follows immediately and ends with NULL, and the strings.
\<close>

definition user_args :: "(u32 \<Rightarrow> u8 option) \<Rightarrow> u32 \<Rightarrow> bytes list \<Rightarrow> bool" where
  "user_args m sp args \<longleftrightarrow>
     (\<exists>ptrs. bytes_at m sp (concat (map word_bytes (of_nat (length args) # (sp + 8) # ptrs @ [0]))) \<and>
        list_all2 (\<lambda>p t. bytes_at m p (t @ [0])) ptrs args)"

text \<open>The addresses of the block, as numbers.\<close>

lemma args_block:
  fixes sp0 :: u32
  assumes "unat sp0 = 3221225472 - z" and "z \<le> 16000" and "n \<le> 16"
  defines "av \<equiv> (sp0 AND NOT 0x3) - 4 * (of_nat n + 1)"
  shows "4 dvd unat av" "3221209100 \<le> unat av" "unat av + 4 * n + 4 \<le> unat sp0"
    "unat (av - 4) = unat av - 4" "unat (av - 8) = unat av - 8" "av - 8 + 4 = av - 4"
    "unat (av + of_nat (4 * n)) = unat av + 4 * n"
proof -
  let ?q = "unat sp0 div 4 * 4"
  have q: "?q \<le> unat sp0" "unat sp0 < ?q + 4" by simp_all
  have "4 * (of_nat n + 1) = (of_nat (4 * n + 4) :: u32)" by simp
  then have av: "unat av = ?q - (4 * n + 4)"
    unfolding av_def using unat_sub_nat [of "4 * n + 4" "sp0 AND NOT 0x3"] q assms(1-3) by (simp only: unat_align4)
  show "4 dvd unat av" unfolding av using assms(1-3) q by (simp add: dvd_diff_nat)
  show ge: "3221209100 \<le> unat av" "unat av + 4 * n + 4 \<le> unat sp0" using av q assms(1-3) by linarith+
  show "unat (av - 4) = unat av - 4" using unat_sub_nat [of 4 av] ge by simp
  show "unat (av - 8) = unat av - 8" using unat_sub_nat [of 8 av] ge by simp
  show "av - 8 + 4 = av - 4" by simp
  show "unat (av + of_nat (4 * n)) = unat av + 4 * n"
    using unat_add_nat [of av "4 * n"] ge assms(1) by (simp del: of_nat_mult)
qed

lemma write_block_run:
  fixes av :: u32
  assumes "mapped_region R s1" and inR: "\<And>a m. 3221209088 \<le> unat a \<Longrightarrow> unat a + m \<le> 3221225472 \<Longrightarrow> addr_range a m \<subseteq> R"
    and av: "4 dvd unat av" "3221209100 \<le> unat av" "unat av + 4 * length ws + 4 \<le> 3221225472"
  shows "\<exists>s5. write_block ws av s1 = Some (av - 8, s5) \<and> mapped_region R s5 \<and> space_view s5 = space_view s1 \<and>
     bytes_at (vload8 s5) (av - 8) (concat (map word_bytes (of_nat (length ws) # av # ws @ [0]))) \<and>
     (\<forall>b \<in> R. b \<notin> addr_range (av - 8) (4 * length ws + 12) \<longrightarrow> vload8 s5 b = vload8 s1 b)"
proof -
  let ?n = "length ws"
  let ?e = "av + of_nat (4 * ?n)"
  have u: "unat (av - 4) = unat av - 4" "unat (av - 8) = unat av - 8" "unat ?e = unat av + 4 * ?n"
    using unat_sub_nat [of 4 av] unat_sub_nat [of 8 av] unat_add_nat [of av "4 * ?n"] av by (simp_all del: of_nat_mult)
  have dis: "addr_range a m \<inter> addr_range b k = {}"
    if "unat a + m \<le> 3221225472" "unat b + k \<le> 3221225472" "unat a + m \<le> unat b \<or> unat b + k \<le> unat a" for a b m k
    by (rule addr_range_disjoint) (use that in simp_all)
  have d4: "4 dvd unat ?e" "4 dvd unat (av - 4)" "4 dvd unat (av - 8)" unfolding u using av(1) by (auto intro: dvd_diff_nat)
  have r: "addr_range av (4 * ?n) \<subseteq> R" "addr_range ?e 4 \<subseteq> R" "addr_range (av - 4) 4 \<subseteq> R" "addr_range (av - 8) 4 \<subseteq> R"
    by (rule inR; use av u in linarith)+
  have "unat av + 4 * ?n < 4294967296" using av(3) by linarith
  from store_words_run [OF assms(1) r(1) this av(1)] obtain s2 where
    s2: "store_words ws av s1 = Some s2" "mapped_region R s2" "space_view s2 = space_view s1"
      "bytes_at (vload8 s2) av (concat (map word_bytes ws))" "\<forall>b \<in> R. b \<notin> addr_range av (4 * ?n) \<longrightarrow> vload8 s2 b = vload8 s1 b" by blast
  from vstore32_word [OF s2(2) r(2) d4(1), of 0] obtain s3 where
    s3: "vstore32 ?e 0 s2 = Some s3" "mapped_region R s3" "space_view s3 = space_view s2"
      "bytes_at (vload8 s3) ?e (word_bytes 0)" "\<forall>b \<in> R. b \<notin> addr_range ?e 4 \<longrightarrow> vload8 s3 b = vload8 s2 b" by blast
  from vstore32_word [OF s3(2) r(3) d4(2), of av] obtain s4 where
    s4: "vstore32 (av - 4) av s3 = Some s4" "mapped_region R s4" "space_view s4 = space_view s3"
      "bytes_at (vload8 s4) (av - 4) (word_bytes av)" "\<forall>b \<in> R. b \<notin> addr_range (av - 4) 4 \<longrightarrow> vload8 s4 b = vload8 s3 b" by blast
  from vstore32_word [OF s4(2) r(4) d4(3), of "of_nat ?n"] obtain s5 where
    s5: "vstore32 (av - 8) (of_nat ?n) s4 = Some s5" "mapped_region R s5" "space_view s5 = space_view s4"
      "bytes_at (vload8 s5) (av - 8) (word_bytes (of_nat ?n))" "\<forall>b \<in> R. b \<notin> addr_range (av - 8) 4 \<longrightarrow> vload8 s5 b = vload8 s4 b" by blast
  have all: "addr_range (av - 8) (4 * ?n + 12) = addr_range (av - 8) 4 \<union> addr_range (av - 4) 4 \<union> addr_range av (4 * ?n) \<union> addr_range ?e 4"
    using addr_range_add [of "av - 8" 4 "4 + (4 * ?n + 4)"] addr_range_add [of "av - 4" 4 "4 * ?n + 4"] addr_range_add [of av "4 * ?n" 4]
    by (simp add: add.commute Un_assoc)
  have cl: "length (concat (map word_bytes ws)) = 4 * ?n" by (induction ws) simp_all
  have keep4: "bytes_at (vload8 s5) a bs"
    if "bytes_at (vload8 s4) a bs" "3221209088 \<le> unat a" "unat a + length bs \<le> 3221225472" "unat av - 4 \<le> unat a" for a bs
    by (rule bytes_at_keep [OF that(1) s5(5)]; (rule inR dis)?; use that av u in linarith)
  have keep3: "bytes_at (vload8 s5) a bs"
    if "bytes_at (vload8 s3) a bs" "3221209088 \<le> unat a" "unat a + length bs \<le> 3221225472" "unat av \<le> unat a" for a bs
    by (rule keep4 [OF bytes_at_keep [OF that(1) s4(5)]]; (rule inR dis)?; use that av u in linarith)
  have "bytes_at (vload8 s3) av (concat (map word_bytes ws))"
    by (rule bytes_at_keep [OF s2(4) s3(5)]; unfold cl; (rule inR dis)?; use av u in linarith)
  then have "bytes_at (vload8 s5) av (concat (map word_bytes ws))" by (rule keep3) (use av in \<open>simp_all only: cl\<close>)
  moreover have "bytes_at (vload8 s5) ?e (word_bytes 0)" by (rule keep3 [OF s3(4)]) (use av u in \<open>simp_all only: length_word_bytes\<close>)
  moreover have "bytes_at (vload8 s5) (av - 4) (word_bytes av)" by (rule keep4 [OF s4(4)]) (use av u in \<open>simp_all only: length_word_bytes\<close>)
  ultimately have "bytes_at (vload8 s5) (av - 8) (concat (map word_bytes (of_nat ?n # av # ws @ [0])))"
    using s5(4) cl by (simp add: bytes_at_append)
  moreover have "write_block ws av s1 = Some (av - 8, s5)" using s2(1) s3(1) s4(1) s5(1) by (simp add: write_block_def)
  ultimately show ?thesis
    using s2(3,5) s3(3,5) s4(3,5) s5(2,3,5) unfolding all by (intro exI [of _ s5]) simp
qed

text \<open>The whole block in mapped stack pages.\<close>

lemma push_args_run:
  assumes "mapped_region R s" and "addr_range 0xBFFFC000 16384 \<subseteq> R"
    and "list_all2 (\<lambda>a t. text_of a = Some t) argv args" and "length args \<le> 16" and "texts_size args \<le> 16000"
  shows "\<exists>sp s'. push_args argv s = Some (sp, s') \<and> user_args (vload8 s') sp args \<and> 4 dvd unat sp \<and>
     unat (0xBFFFC000 :: u32) \<le> unat sp \<and> unat sp < unat USER_STACK_TOP \<and>
     mapped_region R s' \<and> space_view s' = space_view s \<and>
     (\<forall>b \<in> R. unat b < unat sp \<or> unat USER_STACK_TOP \<le> unat b \<longrightarrow> vload8 s' b = vload8 s b)"
proof -
  let ?n = "length args"
  let ?z = "texts_size args"
  define sp0 where "sp0 = USER_STACK_TOP - of_nat ?z"
  define av where "av = (sp0 AND NOT 0x3) - 4 * (of_nat ?n + 1)"
  have top: "unat USER_STACK_TOP = 3221225472" by (simp add: USER_STACK_TOP_def)
  have u0: "unat sp0 = 3221225472 - ?z" unfolding sp0_def
    using unat_sub_nat [of ?z USER_STACK_TOP] assms(5) top by simp
  note blk = args_block [OF u0 assms(5,4), folded av_def]
  have inR: "addr_range a m \<subseteq> R" if "3221209088 \<le> unat a" "unat a + m \<le> 3221225472" for a m
  proof -
    have "addr_range a m \<subseteq> addr_range 0xBFFFC000 16384" using that by (auto simp: addr_range_iff)
    then show ?thesis using assms(2) by blast
  qed
  have lens: "length argv = ?n" using assms(3) by (rule list_all2_lengthD)
  from assms(3) have rev: "list_all2 (\<lambda>a t. text_of a = Some t) (rev argv) (rev args)" by (simp add: list_all2_rev)
  have r0: "addr_range sp0 ?z \<subseteq> R" by (rule inR) (use u0 assms(5) in linarith)+
  from push_strings_run [OF assms(1) rev, of USER_STACK_TOP "[]"] r0 top assms(5) obtain s1 ps where
    s1: "push_strings (rev argv) USER_STACK_TOP [] s = Some (sp0, rev ps, s1)" "mapped_region R s1" "space_view s1 = space_view s"
      "list_all2 (\<lambda>p t. unat sp0 \<le> unat p \<and> unat p + length t < 3221225472 \<and> bytes_at (vload8 s1) p (t @ [0])) ps (rev args)"
      "\<forall>b \<in> R. b \<notin> addr_range sp0 ?z \<longrightarrow> vload8 s1 b = vload8 s b"
    by (auto simp: sp0_def [symmetric] u0)
  have psl: "length (rev ps) = ?n" using list_all2_lengthD [OF s1(4)] by simp
  have fit: "unat av + 4 * length (rev ps) + 4 \<le> 3221225472" unfolding psl using blk(3) u0 by linarith
  from write_block_run [OF s1(2) inR blk(1,2) fit] obtain s5 where
    s5: "write_block (rev ps) av s1 = Some (av - 8, s5)" "mapped_region R s5" "space_view s5 = space_view s1"
      "bytes_at (vload8 s5) (av - 8) (concat (map word_bytes (of_nat ?n # av # rev ps @ [0])))"
      "\<forall>b \<in> R. b \<notin> addr_range (av - 8) (4 * ?n + 12) \<longrightarrow> vload8 s5 b = vload8 s1 b"
    unfolding psl by blast
  have run: "push_args argv s = Some (av - 8, s5)"
    using assms(4) lens s1(1) s5(1) psl
    by (simp add: push_args_def MAX_ARGS_def av_def Let_def)
  have kept: "vload8 s5 b = vload8 s1 b" if "b \<in> R" "unat b < unat (av - 8) \<or> unat sp0 \<le> unat b" for b
    using that s5(5) blk(2,3,5) u0 addr_range_iff [of "av - 8" "4 * ?n + 12" b] by auto
  have "list_all2 (\<lambda>p t. bytes_at (vload8 s5) p (t @ [0])) ps (rev args)"
  proof (rule list_all2_mono [OF s1(4)])
    fix p t
    assume p: "unat sp0 \<le> unat p \<and> unat p + length t < 3221225472 \<and> bytes_at (vload8 s1) p (t @ [0])"
    have "addr_range p (length (t @ [0])) \<subseteq> R" by (rule inR) (use p u0 assms(5) in auto)
    moreover have "unat sp0 \<le> unat x" if "x \<in> addr_range p (length (t @ [0]))" for x
      using that addr_range_iff [of p "length (t @ [0])" x] p by simp
    ultimately have "vload8 s5 x = vload8 s1 x" if "x \<in> addr_range p (length (t @ [0]))" for x
      using that kept [of x] by blast
    then show "bytes_at (vload8 s5) p (t @ [0])" using p by (intro bytes_at_cong [of "vload8 s1" p "t @ [0]" "vload8 s5"]) simp_all
  qed
  then have "list_all2 (\<lambda>p t. bytes_at (vload8 s5) p (t @ [0])) (rev ps) args" by (metis list_all2_rev1 rev_rev_ident)
  then have "user_args (vload8 s5) (av - 8) args" unfolding user_args_def using s5(4) by (intro exI [of _ "rev ps"]) simp
  moreover have "vload8 s5 b = vload8 s b" if "b \<in> R" "unat b < unat (av - 8) \<or> 3221225472 \<le> unat b" for b
  proof -
    have "b \<notin> addr_range sp0 ?z" using that(2) addr_range_iff [of sp0 ?z b] u0 blk(2,3,5) assms(5) by auto
    moreover have "unat b < unat (av - 8) \<or> unat sp0 \<le> unat b" using that(2) u0 by linarith
    ultimately show ?thesis using that(1) kept [of b] s1(5) by simp
  qed
  moreover have "4 dvd unat (av - 8)" unfolding blk(5) using blk(1) by (auto intro: dvd_diff_nat)
  moreover have "3221209088 \<le> unat (av - 8)" "unat (av - 8) < 3221225472" using blk(2,3,5) u0 by linarith+
  ultimately show ?thesis
    using run s5(2,3) s1(3) by (intro exI [of _ "av - 8"] exI [of _ s5]) (simp add: top)
qed

section \<open>Fresh user pages\<close>

text \<open>
  The active address space is well formed, and no free frame is in use as a page table.
\<close>

definition space_inv :: "'a machine_state_scheme \<Rightarrow> bool" where
  "space_inv s \<longleftrightarrow> paging_wf s \<and> pmm_inv s \<and> (\<forall>i \<in> free_frames s. frame_addr i \<notin> table_frames s)"

text \<open>A page table for the address exists already, or the frame after the next one can become it.\<close>

definition table_ready :: "u32 \<Rightarrow> 'a machine_state_scheme \<Rightarrow> bool" where
  "table_ready va s \<longleftrightarrow>
     (if present (read_pde s (pd_index va)) then bit (read_pde s (pd_index va)) 2
      else let r = free_frames s - {Min (free_frames s)} in r \<noteq> {} \<and> identity_mapped s (frame_addr (Min r)))"

lemma table_frames_ext:
  assumes "paging_wf s" and "paging_wf s'" and "cr3 s' = cr3 s" and "i < 1024"
    and "\<forall>k < 1024. k \<noteq> 1023 \<longrightarrow> k \<noteq> i \<longrightarrow> read_pde s' k = read_pde s k"
  shows "table_frames s' \<subseteq> insert (frame_of (read_pde s' i)) (table_frames s)"
proof
  fix f assume "f \<in> table_frames s'"
  then obtain k where k: "k < 1024" "present (read_pde s' k)" "f = frame_of (read_pde s' k)" by (auto simp: table_frames_def)
  show "f \<in> insert (frame_of (read_pde s' i)) (table_frames s)"
  proof (cases "k = i")
    case False
    show ?thesis
    proof (cases "k = 1023")
      case True
      then have "f = frame_of (read_pde s 1023)" using k(3) paging_wfD(4) [OF assms(1)] paging_wfD(4) [OF assms(2)] assms(3) by simp
      then show ?thesis using paging_wfD(3) [OF assms(1)] by (auto simp: table_frames_def)
    next
      case f: False
      then show ?thesis using assms(5) k False by (auto simp: table_frames_def)
    qed
  qed (use k in simp)
qed

lemma fresh_user_page:
  assumes "space_inv s" and "free_frames s \<noteq> {}" and "pd_index va \<noteq> 1023" and "table_ready va s"
  defines "i \<equiv> Min (free_frames s)"
  obtains s1 s' where "pmm_alloc_frame s = Some (frame_addr i, s1)" "frame_addr i \<noteq> 0"
    "user_page dir va (frame_addr i) s1 = Some s'" "space_inv s'"
    "present (read_pde s' (pd_index va))" "bit (read_pde s' (pd_index va)) 2"
    "free_frames s' = (if present (read_pde s (pd_index va)) then free_frames s - {i} else free_frames s - {i} - {Min (free_frames s - {i})})"
    "lookup_pte s' va = Some (frame_addr i OR 7)" "frame_addr i \<notin> table_frames s'"
    "table_frames s' \<subseteq> table_frames s \<union> frame_addr ` (free_frames s - free_frames s')"
    "\<forall>a. frame_of a \<notin> table_frames s \<union> frame_addr ` (free_frames s - free_frames s') \<longrightarrow> phys s' a = phys s a"
    "\<forall>va'. pd_index va' \<noteq> 1023 \<longrightarrow> (pd_index va', pt_index va') \<noteq> (pd_index va, pt_index va) \<longrightarrow>
       translate s' va' = translate s va' \<and> (user_accessible s' va' \<longleftrightarrow> user_accessible s va')"
proof -
  have inv: "paging_wf s" "pmm_inv s" "\<forall>i \<in> free_frames s. frame_addr i \<notin> table_frames s"
    using assms(1) by (simp_all add: space_inv_def)
  from pmm_alloc_frame_least [OF inv(2) assms(2)] obtain bm where
    bm: "pmm_alloc_frame s = Some (frame_addr i, s\<lparr>pmm_bitmap := bm\<rparr>)" "length bm = length (pmm_bitmap s)"
      "free_frames (s\<lparr>pmm_bitmap := bm\<rparr>) = free_frames s - {i}" unfolding i_def .
  let ?a = "s\<lparr>pmm_bitmap := bm\<rparr>"
  have inva: "pmm_inv ?a" by (rule pmm_inv_update) (use inv(2) bm in \<open>auto simp: pmm_inv_def\<close>)
  have cong: "phys ?a = phys s" "cr3 ?a = cr3 s" "cr0_pg ?a = cr0_pg s" by simp_all
  note pc = paging_cong [OF cong] and pde = read_pde_cong [OF cong(1,2)]
  have min: "i \<in> free_frames s" unfolding i_def by (rule pmm.Min_avail [OF inv(2) assms(2)])
  have "frame_addr i \<noteq> 0" using pmm.alloc_null_iff [OF inv(2)] bm(1) assms(2) by auto
  have bound: "j < 1048576" if "j \<in> free_frames s" for j
    using that managed_bound [OF inv(2)] free_frames_managed [of s] by blast
  have "present (read_pde ?a (pd_index va)) \<or> table_available ?a \<and> bit (7 :: u32) 0"
  proof (cases "present (read_pde s (pd_index va))")
    case False
    then have r: "free_frames s - {i} \<noteq> {}" "identity_mapped s (frame_addr (Min (free_frames s - {i})))"
      using assms(4) by (simp_all add: table_ready_def Let_def i_def)
    then have "Min (free_frames s - {i}) \<in> free_frames s" using Min_in [of "free_frames s - {i}"] by auto
    then have "table_available ?a"
      using r inva inv(3) bm(3) by (simp add: table_available_def pc identity_mapped_def)
    then show ?thesis by simp
  qed (simp add: pde)
  from map_page_lookup [where dir = dir and pa = "frame_addr i" and fl = 7, OF _ assms(3) this]
  obtain s' where
    s': "paging_map_page dir va (frame_addr i) 7 ?a = Some s'" "paging_wf s'" "cr3 s' = cr3 s"
      "lookup_pte s' va = Some (frame_addr i OR 7)"
    and other: "\<forall>va'. pd_index va' \<noteq> 1023 \<longrightarrow> (pd_index va', pt_index va') \<noteq> (pd_index va, pt_index va) \<longrightarrow>
       translate s' va' = translate s va' \<and> (user_accessible s' va' \<longleftrightarrow> user_accessible s va')"
    and pde': "read_pde s' (pd_index va) =
       (if present (read_pde s (pd_index va)) then read_pde s (pd_index va) else frame_addr (Min (free_frames s - {i})) OR (7 AND 7))"
    and rest: "\<forall>k < 1024. k \<noteq> 1023 \<longrightarrow> k \<noteq> pd_index va \<longrightarrow> read_pde s' k = read_pde s k"
    and inv': "pmm_inv s'"
    and free': "free_frames s' = (if present (read_pde s (pd_index va)) then free_frames s - {i} else free_frames s - {i} - {Min (free_frames s - {i})})"
    and mem: "\<forall>a. frame_of a \<notin> table_frames s \<longrightarrow>
       (\<not> present (read_pde s (pd_index va)) \<longrightarrow> frame_of a \<noteq> frame_addr (Min (free_frames s - {i}))) \<longrightarrow> phys s' a = phys s a"
    using inv(1) inva unfolding bm(3) pc pde by auto
  have new: "frame_addr i \<notin> table_frames s' \<and> (\<forall>j \<in> free_frames s'. frame_addr j \<notin> table_frames s') \<and>
      present (read_pde s' (pd_index va)) \<and> bit (read_pde s' (pd_index va)) 2 \<and>
      table_frames s' \<subseteq> table_frames s \<union> frame_addr ` (free_frames s - free_frames s')"
  proof (cases "present (read_pde s (pd_index va))")
    case True
    then have "frame_of (read_pde s' (pd_index va)) \<in> table_frames s"
      using pde' pd_index_less [of va] by (auto simp: table_frames_def)
    then have "table_frames s' \<subseteq> table_frames s"
      using table_frames_ext [OF inv(1) s'(2,3) pd_index_less rest] by blast
    then show ?thesis using True pde' assms(4) inv(3) min free' by (auto simp: table_ready_def)
  next
    case False
    let ?t = "Min (free_frames s - {i})"
    have t: "?t \<in> free_frames s - {i}"
      using Min_in [of "free_frames s - {i}"] False assms(4) by (auto simp: table_ready_def Let_def i_def)
    then have al: "page_aligned (frame_addr ?t)" by (intro frame_addr_aligned bound) simp
    have p: "read_pde s' (pd_index va) = frame_addr ?t OR (7 AND 7)" using pde' False by simp
    have fr: "frame_of (read_pde s' (pd_index va)) = frame_addr ?t" "present (read_pde s' (pd_index va))"
      "bit (read_pde s' (pd_index va)) 2"
      unfolding p using low_flags [OF al, of 7] by (simp_all add: bit_or_iff)
    have "table_frames s' \<subseteq> table_frames s \<union> frame_addr ` (free_frames s - free_frames s')"
      using table_frames_ext [OF inv(1) s'(2,3) pd_index_less rest] t free' False unfolding fr(1) by auto
    moreover have "frame_addr j \<notin> table_frames s'" if "j \<in> free_frames s" "j \<noteq> ?t" for j
      using table_frames_ext [OF inv(1) s'(2,3) pd_index_less rest] that inv(3) frame_addr_inj [OF bound bound, of j ?t] t
      unfolding fr(1) by auto
    ultimately show ?thesis using fr(2,3) free' False t min by auto
  qed
  then have "space_inv s'" using s'(2) inv' by (simp add: space_inv_def)
  moreover have "\<forall>a. frame_of a \<notin> table_frames s \<union> frame_addr ` (free_frames s - free_frames s') \<longrightarrow> phys s' a = phys s a"
  proof (intro allI impI)
    fix a assume a: "frame_of a \<notin> table_frames s \<union> frame_addr ` (free_frames s - free_frames s')"
    have "frame_of a \<noteq> frame_addr (Min (free_frames s - {i}))" if "\<not> present (read_pde s (pd_index va))"
    proof -
      have "Min (free_frames s - {i}) \<in> free_frames s - {i}"
        using Min_in [of "free_frames s - {i}"] that assms(4) by (auto simp: table_ready_def Let_def i_def)
      then show ?thesis using a that free' by auto
    qed
    then show "phys s' a = phys s a" using mem a by simp
  qed
  moreover have "user_page dir va (frame_addr i) ?a = Some s'" using s'(1) by (simp add: user_page_def paging_flags)
  ultimately show thesis using that [OF bm(1) \<open>frame_addr i \<noteq> 0\<close>] new free' s'(4) other by blast
qed
text \<open>
  From \<^verbatim>\<open>s\<close> to \<^verbatim>\<open>s'\<close> the pages in \<^verbatim>\<open>P\<close> have been mapped for the user to distinct frames that
  were free, none of them a page table, no other page outside the recursive window has changed, and
  only page tables and frames taken from the free ones have been written.
\<close>

definition new_pages :: "'a machine_state_scheme \<Rightarrow> u32 set \<Rightarrow> 'a machine_state_scheme \<Rightarrow> bool" where
  "new_pages s P s' \<longleftrightarrow> space_inv s' \<and> free_frames s' \<subseteq> free_frames s \<and>
     table_frames s' \<subseteq> table_frames s \<union> frame_addr ` (free_frames s - free_frames s') \<and>
     (\<forall>a. frame_of a \<notin> table_frames s \<union> frame_addr ` (free_frames s - free_frames s') \<longrightarrow> phys s' a = phys s a) \<and>
     (\<exists>g. inj_on g P \<and> (\<forall>va \<in> P. g va \<in> free_frames s - free_frames s' \<and> frame_addr (g va) \<notin> table_frames s' \<and>
        (\<forall>a. frame_of a = va \<longrightarrow> translate s' a = Some (frame_addr (g va) + page_offset a) \<and> user_accessible s' a))) \<and>
     (\<forall>a. pd_index a \<noteq> 1023 \<longrightarrow> frame_of a \<notin> P \<longrightarrow>
        translate s' a = translate s a \<and> (user_accessible s' a \<longleftrightarrow> user_accessible s a))"

text \<open>
  What a program may rely on: the pages of the addresses in \<^verbatim>\<open>A\<close> lie in distinct frames that were
  free before and are not free now, and user mode may access them.
\<close>

definition fresh_pages :: "'a machine_state_scheme \<Rightarrow> u32 set \<Rightarrow> 'a machine_state_scheme \<Rightarrow> bool" where
  "fresh_pages s A s' \<longleftrightarrow>
     (\<exists>g. inj_on g (frame_of ` A) \<and>
        (\<forall>a \<in> A. g (frame_of a) \<in> free_frames s - free_frames s' \<and> user_accessible s' a \<and>
           translate s' a = Some (frame_addr (g (frame_of a)) + page_offset a)))"

lemma new_pages_fresh:
  assumes "new_pages s P s1" and "\<forall>a \<in> A. frame_of a \<in> P" and "space_view s' = space_view s1"
  shows "fresh_pages s A s'"
proof -
  from assms(1) obtain g where g: "inj_on g P" "\<forall>va \<in> P. g va \<in> free_frames s - free_frames s1 \<and>
      (\<forall>a. frame_of a = va \<longrightarrow> translate s1 a = Some (frame_addr (g va) + page_offset a) \<and> user_accessible s1 a)"
    by (auto simp: new_pages_def)
  have "inj_on g (frame_of ` A)" using assms(2) by (intro inj_on_subset [OF g(1)]) auto
  then show ?thesis
    unfolding fresh_pages_def space_viewD [OF assms(3)] using g(2) assms(2) by (intro exI [of _ g]) auto
qed

lemma new_pages_refl: "space_inv s \<Longrightarrow> new_pages s {} s"
  by (simp add: new_pages_def)

lemma free_bound: "space_inv s \<Longrightarrow> j \<in> free_frames s \<Longrightarrow> j < 1048576"
  using managed_bound [of s j] free_frames_managed [of s] by (auto simp: space_inv_def)

lemma indices_frame: "frame_of a = frame_of b \<longleftrightarrow> pd_index a = pd_index b \<and> pt_index a = pt_index b"
proof
  assume "frame_of a = frame_of b"
  then have "unat a div 4096 = unat b div 4096" using unat_frame_of [of a] unat_frame_of [of b] by simp
  moreover have "unat x div 4194304 = unat x div 4096 div 1024" for x :: u32 by (simp flip: div_mult2_eq)
  ultimately show "pd_index a = pd_index b \<and> pt_index a = pt_index b"
    by (simp add: word_unat_eq_iff unat_pd_index unat_pt_index)
qed (use frame_of_indices in blast)

lemma frame_of_plus_offset: "frame_of a + page_offset a = a"
proof -
  have "unat (frame_of a) + unat (page_offset a) = unat a" by (simp add: unat_frame_of unat_page_offset)
  then show ?thesis using unat_plus_u32_small [of "frame_of a" "page_offset a"] by (simp add: word_unat_eq_iff)
qed

lemma new_pages_one:
  assumes "space_inv s" and "free_frames s \<noteq> {}" and "pd_index va \<noteq> 1023" and "table_ready va s"
  obtains f s1 s' where "pmm_alloc_frame s = Some (f, s1)" "f \<noteq> 0" "user_page dir va f s1 = Some s'"
    "new_pages s {frame_of va} s'" "present (read_pde s' (pd_index va))" "bit (read_pde s' (pd_index va)) 2"
    "card (free_frames s) = card (free_frames s') + (if present (read_pde s (pd_index va)) then 1 else 2)"
proof -
  let ?i = "Min (free_frames s)"
  from fresh_user_page [OF assms, where dir = dir] obtain s1 s' where
    s': "pmm_alloc_frame s = Some (frame_addr ?i, s1)" "frame_addr ?i \<noteq> 0"
    "user_page dir va (frame_addr ?i) s1 = Some s'" "space_inv s'"
    "present (read_pde s' (pd_index va))" "bit (read_pde s' (pd_index va)) 2"
    "free_frames s' = (if present (read_pde s (pd_index va)) then free_frames s - {?i} else free_frames s - {?i} - {Min (free_frames s - {?i})})"
    "lookup_pte s' va = Some (frame_addr ?i OR 7)" "frame_addr ?i \<notin> table_frames s'"
    "table_frames s' \<subseteq> table_frames s \<union> frame_addr ` (free_frames s - free_frames s')"
    "\<forall>a. frame_of a \<notin> table_frames s \<union> frame_addr ` (free_frames s - free_frames s') \<longrightarrow> phys s' a = phys s a"
    "\<forall>va'. pd_index va' \<noteq> 1023 \<longrightarrow> (pd_index va', pt_index va') \<noteq> (pd_index va, pt_index va) \<longrightarrow>
       translate s' va' = translate s va' \<and> (user_accessible s' va' \<longleftrightarrow> user_accessible s va')" .
  have inv: "paging_wf s'" "pmm_inv s" using s'(4) assms(1) by (simp_all add: space_inv_def)
  have i: "?i \<in> free_frames s" by (rule pmm.Min_avail [OF inv(2) assms(2)])
  have al: "page_aligned (frame_addr ?i)" by (rule frame_addr_aligned [OF free_bound [OF assms(1) i]])
  have page: "translate s' a = Some (frame_addr ?i + page_offset a) \<and> user_accessible s' a" if "frame_of a = frame_of va" for a
  proof -
    have idx: "pd_index a = pd_index va" "pt_index a = pt_index va" using that by (simp_all add: indices_frame)
    then have l: "lookup_pte s' a = Some (frame_addr ?i OR 7)" using s'(8) by (simp add: lookup_pte_def Let_def split: if_splits)
    have "translate s' a = Some (frame_addr ?i + page_offset a)"
      using translate_lookup [OF paging_wfD(1) [OF inv(1)] l al] by simp
    moreover have "present (frame_addr ?i OR 7)" "bit (frame_addr ?i OR 7) 2" using present_or [OF al, of 7] by (simp_all add: bit_or_iff)
    ultimately show ?thesis using l s'(6) idx by (simp add: user_accessible_def)
  qed
  have "new_pages s {frame_of va} s'"
    unfolding new_pages_def
    using s'(4,7,9,10,11,12) i page by (intro conjI exI [of _ "\<lambda>_. ?i"]) (auto simp: indices_frame)
  moreover have "card (free_frames s) = card (free_frames s') + (if present (read_pde s (pd_index va)) then 1 else 2)"
  proof -
    have "card (free_frames s) = card (free_frames s - {?i}) + 1" using i card_Suc_Diff1 [of "free_frames s" ?i] by simp
    moreover have "card (free_frames s - {?i}) = card (free_frames s - {?i} - {Min (free_frames s - {?i})}) + 1"
      if "\<not> present (read_pde s (pd_index va))"
    proof -
      have "free_frames s - {?i} \<noteq> {}" using that assms(4) by (simp add: table_ready_def Let_def)
      then have "Min (free_frames s - {?i}) \<in> free_frames s - {?i}" by (intro Min_in) auto
      then show ?thesis using card_Suc_Diff1 [of "free_frames s - {?i}"] by simp
    qed
    ultimately show ?thesis using s'(7) by simp
  qed
  ultimately show thesis using that s'(1,2,3,5,6) by blast
qed

lemma un_chain: "X \<subseteq> T \<union> A \<Longrightarrow> A \<subseteq> C \<Longrightarrow> B \<subseteq> C \<Longrightarrow> X \<union> B \<subseteq> T \<union> C"
  by blast

lemma new_pages_trans:
  assumes "space_inv s" and "new_pages s P s1" and "new_pages s1 Q s2" and "P \<inter> Q = {}" and "\<forall>a. frame_of a \<in> P \<longrightarrow> pd_index a \<noteq> 1023"
  shows "new_pages s (P \<union> Q) s2"
proof -
  from assms(2) obtain g where g: "inj_on g P" "\<forall>va \<in> P. g va \<in> free_frames s - free_frames s1 \<and> frame_addr (g va) \<notin> table_frames s1 \<and>
      (\<forall>a. frame_of a = va \<longrightarrow> translate s1 a = Some (frame_addr (g va) + page_offset a) \<and> user_accessible s1 a)"
    by (auto simp: new_pages_def)
  from assms(3) obtain h where h: "inj_on h Q" "\<forall>va \<in> Q. h va \<in> free_frames s1 - free_frames s2 \<and> frame_addr (h va) \<notin> table_frames s2 \<and>
      (\<forall>a. frame_of a = va \<longrightarrow> translate s2 a = Some (frame_addr (h va) + page_offset a) \<and> user_accessible s2 a)"
    by (auto simp: new_pages_def)
  have fr: "free_frames s2 \<subseteq> free_frames s1" "free_frames s1 \<subseteq> free_frames s" and inv: "space_inv s1" "space_inv s2"
    and tab: "table_frames s1 \<subseteq> table_frames s \<union> frame_addr ` (free_frames s - free_frames s1)"
      "table_frames s2 \<subseteq> table_frames s1 \<union> frame_addr ` (free_frames s1 - free_frames s2)"
    and mem: "\<forall>a. frame_of a \<notin> table_frames s \<union> frame_addr ` (free_frames s - free_frames s1) \<longrightarrow> phys s1 a = phys s a"
      "\<forall>a. frame_of a \<notin> table_frames s1 \<union> frame_addr ` (free_frames s1 - free_frames s2) \<longrightarrow> phys s2 a = phys s1 a"
    and same: "pd_index a \<noteq> 1023 \<Longrightarrow> frame_of a \<notin> P \<Longrightarrow> translate s1 a = translate s a \<and> (user_accessible s1 a \<longleftrightarrow> user_accessible s a)"
      "pd_index a \<noteq> 1023 \<Longrightarrow> frame_of a \<notin> Q \<Longrightarrow> translate s2 a = translate s1 a \<and> (user_accessible s2 a \<longleftrightarrow> user_accessible s1 a)" for a
    using assms(2,3) by (auto simp: new_pages_def)
  define k where "k va = (if va \<in> P then g va else h va)" for va
  have "inj_on k (P \<union> Q)"
  proof (rule inj_onI)
    fix x y assume xy: "x \<in> P \<union> Q" "y \<in> P \<union> Q" "k x = k y"
    consider "x \<in> P" "y \<in> P" | "x \<in> P" "y \<notin> P" | "x \<notin> P" "y \<in> P" | "x \<notin> P" "y \<notin> P" by blast
    then show "x = y"
    proof cases
      case 1 then show ?thesis using xy g(1) by (simp add: k_def inj_on_eq_iff)
    next
      case 4 then show ?thesis using xy h(1) by (simp add: k_def inj_on_eq_iff)
    qed (use xy g(2) h(2) in \<open>auto simp: k_def\<close>)
  qed
  moreover have "k va \<in> free_frames s - free_frames s2 \<and> frame_addr (k va) \<notin> table_frames s2 \<and>
      (\<forall>a. frame_of a = va \<longrightarrow> translate s2 a = Some (frame_addr (k va) + page_offset a) \<and> user_accessible s2 a)"
    if va: "va \<in> P \<union> Q" for va
  proof (cases "va \<in> P")
    case True
    then have gv: "g va \<in> free_frames s" "g va \<notin> free_frames s1" "frame_addr (g va) \<notin> table_frames s1" using g(2) by auto
    have "frame_addr (g va) \<notin> frame_addr ` (free_frames s1 - free_frames s2)"
      using gv frame_addr_inj [OF free_bound [OF assms(1) gv(1)] free_bound [OF inv(1)]] by auto
    then have "frame_addr (g va) \<notin> table_frames s2" using tab(2) gv(3) by auto
    moreover have "frame_of a \<notin> Q" "pd_index a \<noteq> 1023" if "frame_of a = va" for a using that True assms(4,5) by auto
    ultimately show ?thesis using True gv fr g(2) same(2) by (auto simp: k_def)
  next
    case False
    then show ?thesis using va h(2) fr by (auto simp: k_def)
  qed
  moreover have "table_frames s2 \<subseteq> table_frames s \<union> frame_addr ` (free_frames s - free_frames s2)" using tab fr by blast
  moreover have "phys s2 a = phys s a" if "frame_of a \<notin> table_frames s \<union> frame_addr ` (free_frames s - free_frames s2)" for a
  proof -
    have "frame_of a \<notin> table_frames s \<union> frame_addr ` (free_frames s - free_frames s1)" using that fr(1) by auto
    moreover have "frame_of a \<notin> table_frames s1 \<union> frame_addr ` (free_frames s1 - free_frames s2)" 
    proof -
      have "frame_addr ` (free_frames s - free_frames s1) \<subseteq> frame_addr ` (free_frames s - free_frames s2)"
        "frame_addr ` (free_frames s1 - free_frames s2) \<subseteq> frame_addr ` (free_frames s - free_frames s2)" using fr by auto
      then have "table_frames s1 \<union> frame_addr ` (free_frames s1 - free_frames s2) \<subseteq>
          table_frames s \<union> frame_addr ` (free_frames s - free_frames s2)" by (intro un_chain [OF tab(1)])
      then show ?thesis using that by (meson subsetD)
    qed
    ultimately show ?thesis using mem by simp
  qed
  ultimately show ?thesis
    unfolding new_pages_def using inv(2) fr same by (intro conjI exI [of _ k]) auto
qed

lemma new_pages_region:
  assumes "space_inv s" and "new_pages s P s'"
  shows "mapped_region {a. frame_of a \<in> P} s'"
proof -
  from assms(2) obtain g where g: "inj_on g P" "\<forall>va \<in> P. g va \<in> free_frames s \<and> frame_addr (g va) \<notin> table_frames s' \<and>
      (\<forall>a. frame_of a = va \<longrightarrow> translate s' a = Some (frame_addr (g va) + page_offset a))" and wf: "paging_wf s'"
    by (auto simp: new_pages_def space_inv_def)
  have al: "page_aligned (frame_addr (g va))" "g va < 1048576" if "va \<in> P" for va
    using that g(2) free_bound [OF assms(1)] by (auto intro: frame_addr_aligned)
  have off: "frame_of (frame_addr (g va) + page_offset a) = frame_addr (g va)" if "va \<in> P" for va a
  proof -
    have "unat (page_offset a) < 4096" by (simp add: unat_page_offset)
    from frame_of_offset [OF al(1) [OF that] this] show ?thesis by simp
  qed
  have "inj_on (translate s') {a. frame_of a \<in> P}"
  proof (rule inj_onI)
    fix a b assume ab: "a \<in> {a. frame_of a \<in> P}" "b \<in> {a. frame_of a \<in> P}" "translate s' a = translate s' b"
    then have eq: "frame_addr (g (frame_of a)) + page_offset a = frame_addr (g (frame_of b)) + page_offset b" using g(2) by auto
    then have "frame_addr (g (frame_of a)) = frame_addr (g (frame_of b))" using off ab(1,2) by (metis mem_Collect_eq)
    moreover from this have "g (frame_of a) = g (frame_of b)" using frame_addr_inj al(2) ab(1,2) by auto
    ultimately have "frame_of a = frame_of b" "page_offset a = page_offset b" using eq g(1) ab(1,2) by (auto simp: inj_on_eq_iff)
    then show "a = b" by (metis frame_of_plus_offset)
  qed
  then show ?thesis using wf g(2) off by (auto simp: mapped_region_def)
qed

text \<open>Frames for \<^verbatim>\<open>n\<close> more pages and, if it is missing, for the page table that they share.\<close>

definition pages_ready :: "nat \<Rightarrow> u32 \<Rightarrow> 'a machine_state_scheme \<Rightarrow> bool" where
  "pages_ready n pd s \<longleftrightarrow> pd \<noteq> 1023 \<and>
     (if present (read_pde s pd) then bit (read_pde s pd) 2 \<and> n \<le> card (free_frames s)
      else n + 1 \<le> card (free_frames s) \<and> identity_mapped s (frame_addr (Min (free_frames s - {Min (free_frames s)}))))"

lemma pages_step:
  assumes "space_inv s" and "pages_ready (Suc n) (pd_index va) s"
  obtains f s1 s' where "pmm_alloc_frame s = Some (f, s1)" "f \<noteq> 0" "user_page dir va f s1 = Some s'"
    "new_pages s {frame_of va} s'" "space_inv s'" "pages_ready n (pd_index va) s'"
proof -
  have ne: "free_frames s \<noteq> {}" using assms(2) by (auto simp: pages_ready_def split: if_splits)
  have "free_frames s - {Min (free_frames s)} \<noteq> {}" if "\<not> present (read_pde s (pd_index va))"
    using that assms(2) card_mono [of "{Min (free_frames s)}" "free_frames s"] by (auto simp: pages_ready_def)
  then have "table_ready va s" using assms(2) by (auto simp: pages_ready_def table_ready_def Let_def)
  moreover have pd: "pd_index va \<noteq> 1023" using assms(2) by (simp add: pages_ready_def)
  ultimately obtain f s1 s' where
    one: "pmm_alloc_frame s = Some (f, s1)" "f \<noteq> 0" "user_page dir va f s1 = Some s'"
      "new_pages s {frame_of va} s'" "present (read_pde s' (pd_index va))" "bit (read_pde s' (pd_index va)) 2"
      "card (free_frames s) = card (free_frames s') + (if present (read_pde s (pd_index va)) then 1 else 2)"
    using new_pages_one [OF assms(1) ne, of va dir] by metis
  have "space_inv s'" using one(4) by (simp add: new_pages_def)
  moreover have "pages_ready n (pd_index va) s'" using one(5-7) assms(2) pd by (simp add: pages_ready_def split: if_splits)
  ultimately show thesis using one(1-4) that by blast
qed

lemma frame_of_pd: "frame_of a = frame_of b \<Longrightarrow> pd_index a = pd_index b"
  by (simp add: indices_frame)

lemma new_pages_insert:
  assumes "space_inv s" and "new_pages s {frame_of va} s1" and "new_pages s1 Q s2" and "frame_of va \<notin> Q" and "pd_index va \<noteq> 1023"
  shows "new_pages s (insert (frame_of va) Q) s2"
proof -
  have "\<forall>a. frame_of a \<in> {frame_of va} \<longrightarrow> pd_index a \<noteq> 1023"
  proof (intro allI impI)
    fix a assume "frame_of a \<in> {frame_of va}"
    then have "pd_index a = pd_index va" by (intro frame_of_pd) simp
    then show "pd_index a \<noteq> 1023" using assms(5) by simp
  qed
  from new_pages_trans [OF assms(1-3) _ this] assms(4) show ?thesis by simp
qed

section \<open>The stack of a new program\<close>

definition stack_page :: "nat \<Rightarrow> u32" where
  "stack_page k = USER_STACK_TOP - of_nat ((k + 1) * 4096)"

lemma stack_page:
  assumes "k < 1024"
  shows "unat (stack_page k) = 3221225472 - (k + 1) * 4096" "frame_of (stack_page k) = stack_page k" "pd_index (stack_page k) = 767"
proof -
  have "(k + 1) * 4096 \<le> 4194304" using assms by simp
  then show u: "unat (stack_page k) = 3221225472 - (k + 1) * 4096"
    unfolding stack_page_def using unat_sub_nat [of "(k + 1) * 4096" USER_STACK_TOP] by (simp add: USER_STACK_TOP_def)
  have e: "3221225472 - (k + 1) * 4096 = 4096 * (786431 - k)" using assms by (simp add: algebra_simps diff_mult_distrib2)
  have "page_aligned (stack_page k)" unfolding page_aligned_def u e by simp
  then show "frame_of (stack_page k) = stack_page k" by (rule frame_of_aligned)
  have "4096 * (786431 - k) div 4194304 = (786431 - k) div 1024" using div_mult2_eq [of "4096 * (786431 - k)" 4096 1024] by simp
  also have "\<dots> = 767" using assms by (intro div_nat_eqI) simp_all
  finally show "pd_index (stack_page k) = 767" by (simp add: word_unat_eq_iff unat_pd_index u e)
qed

lemma map_user_stack_run:
  assumes "space_inv s" and "unat i + n \<le> 1024" and "pages_ready n 767 s"
  shows "\<exists>s'. map_user_stack dir n i s = Some (True, s') \<and> new_pages s (stack_page ` {unat i..<unat i + n}) s'"
  using assms
proof (induction n arbitrary: i s)
  case 0
  then show ?case by (simp add: new_pages_refl)
next
  case (Suc n)
  let ?va = "stack_page (unat i)"
  have k: "unat i < 1024" using Suc.prems(2) by simp
  note pg = stack_page [OF k]
  have va: "USER_STACK_TOP - (i + 1) * PMM_FRAME_SIZE = ?va" by (simp add: stack_page_def PMM_FRAME_SIZE_def)
  have "pages_ready (Suc n) (pd_index ?va) s" using Suc.prems(3) by (simp add: pg)
  from pages_step [OF Suc.prems(1) this, where dir = dir] obtain f s1 s2 where
    one: "pmm_alloc_frame s = Some (f, s1)" "f \<noteq> 0" "user_page dir ?va f s1 = Some s2"
      "new_pages s {frame_of ?va} s2" "space_inv s2" "pages_ready n (pd_index ?va) s2" .
  have i1: "unat (i + 1) = unat i + 1" using k by (simp add: unat_plus_u32_small)
  from Suc.IH [of s2 "i + 1"] one(5,6) Suc.prems(2) i1 obtain s' where
    s': "map_user_stack dir n (i + 1) s2 = Some (True, s')" "new_pages s2 (stack_page ` {unat i + 1..<unat i + 1 + n}) s'"
    by (auto simp: pg)
  have "frame_of ?va \<notin> stack_page ` {unat i + 1..<unat i + 1 + n}"
  proof
    assume "frame_of ?va \<in> stack_page ` {unat i + 1..<unat i + 1 + n}"
    then obtain j where "j \<in> {unat i + 1..<unat i + 1 + n}" and e: "?va = stack_page j" unfolding pg(2) by (elim imageE)
    then have j: "unat i < j" "j < 1024" using Suc.prems(2) by auto
    then have "3221225472 - (j + 1) * 4096 = 3221225472 - (unat i + 1) * 4096" using stack_page(1) [OF j(2)] pg(1) e by simp
    then show False using j k by simp
  qed
  from new_pages_insert [OF Suc.prems(1) one(4) s'(2) this]
  have "new_pages s (insert ?va (stack_page ` {unat i + 1..<unat i + 1 + n})) s'" by (simp add: pg)
  moreover have "{unat i..<unat i + Suc n} = insert (unat i) {unat i + 1..<unat i + 1 + n}" by auto
  ultimately have "new_pages s (stack_page ` {unat i..<unat i + Suc n}) s'" by simp
  then show ?case using one(1-3) s'(1) by (simp add: va)
qed

lemma stack_pages_range: "a \<in> addr_range 0xBFFFC000 16384 \<longleftrightarrow> frame_of a \<in> stack_page ` {0..<4}"
proof -
  have pages: "stack_page ` {0..<4} = {0xBFFFF000, 0xBFFFE000, 0xBFFFD000, 0xBFFFC000}"
  proof -
    have "{0..<4} = {0, 1, 2, 3 :: nat}" by auto
    then show ?thesis by (simp add: stack_page_def USER_STACK_TOP_def)
  qed
  have "a \<in> addr_range 0xBFFFC000 16384 \<longleftrightarrow> 786428 \<le> unat a div 4096 \<and> unat a div 4096 < 786432"
    by (auto simp: addr_range_iff)
  also have "\<dots> \<longleftrightarrow> unat a div 4096 \<in> {786431, 786430, 786429, 786428}" by auto
  also have "\<dots> \<longleftrightarrow> frame_of a \<in> stack_page ` {0..<4}"
    unfolding pages by (auto simp: word_unat_eq_iff unat_frame_of)
  finally show ?thesis .
qed

text \<open>C8. The stack of a new program (\<^verbatim>\<open>exec_program\<close>, process.c): in the new address space, which is
  the active one, with five free frames, the second of them mapped at its own address for the page table, the loop maps the 16 KB below
  \<^verbatim>\<open>USER_STACK_TOP\<close> to four distinct frames that were free and now belong to the program, all
  of them accessible in user mode, and no other mapping changes.
  For up to sixteen arguments of at most 16000 bytes the program then starts with a
  word-aligned stack pointer inside these pages, where it finds the argument count, the
  address of the argument array, the array ending with NULL, and in every place of the
  array the address of a NUL-terminated copy of the argument. Writing the arguments changes
  nothing below the stack pointer.\<close>

theorem user_stack_correct:
  assumes "space_inv s" and "\<not> present (read_pde s 767)" and "5 \<le> card (free_frames s)"
    and "identity_mapped s (frame_addr (Min (free_frames s - {Min (free_frames s)})))"
    and "list_all2 (\<lambda>a t. text_of a = Some t) argv args" and "length args \<le> 16" and "texts_size args \<le> 16000"
    and "new_dir = cr3 s"
  shows "\<exists>s1 sp s2. map_user_stack new_dir USER_STACK_PAGES 0 s = Some (True, s1) \<and> push_args argv s1 = Some (sp, s2) \<and>
     fresh_pages s (addr_range 0xBFFFC000 16384) s2 \<and>
     (\<forall>a. pd_index a \<noteq> 1023 \<and> a \<notin> addr_range 0xBFFFC000 16384 \<longrightarrow>
        translate s2 a = translate s a \<and> (user_accessible s2 a \<longleftrightarrow> user_accessible s a)) \<and>
     user_args (vload8 s2) sp args \<and> 4 dvd unat sp \<and> sp \<in> addr_range 0xBFFFC000 16384 \<and>
     (\<forall>a \<in> addr_range 0xBFFFC000 16384. a < sp \<longrightarrow> vload8 s2 a = vload8 s1 a)"
proof -
  let ?R = "addr_range 0xBFFFC000 16384"
  have "pages_ready 4 767 s" using assms(2-4) by (simp add: pages_ready_def)
  with map_user_stack_run [OF assms(1), of 0 4 new_dir] obtain s1 where
    s1: "map_user_stack new_dir 4 0 s = Some (True, s1)" "new_pages s (stack_page ` {0..<4}) s1" by auto
  have "mapped_region ?R s1"
    using new_pages_region [OF assms(1) s1(2)] by (simp add: stack_pages_range [symmetric])
  from push_args_run [OF this subset_refl assms(5-7)] obtain sp s2 where
    s2: "push_args argv s1 = Some (sp, s2)" "user_args (vload8 s2) sp args" "4 dvd unat sp"
      "3221209088 \<le> unat sp" "unat sp < 3221225472" "\<forall>b \<in> ?R. unat b < unat sp \<longrightarrow> vload8 s2 b = vload8 s1 b"
      "space_view s2 = space_view s1"
    by (auto simp: USER_STACK_TOP_def)
  have "sp \<in> ?R" using s2(4,5) by (simp add: addr_range_iff)
  moreover have "fresh_pages s ?R s2"
    using stack_pages_range by (intro new_pages_fresh [OF s1(2) _ s2(7)]) blast
  moreover have "translate s2 a = translate s a \<and> (user_accessible s2 a \<longleftrightarrow> user_accessible s a)"
    if "pd_index a \<noteq> 1023" "a \<notin> ?R" for a
    using s1(2) that unfolding new_pages_def stack_pages_range space_viewD [OF s2(7)] by blast
  ultimately show ?thesis
    using s1(1) s2 by (intro exI [of _ s1] exI [of _ sp] exI [of _ s2]) (simp add: USER_STACK_PAGES_def word_less_nat_alt)
qed

lemma booted_space: "space_inv booted_machine"
proof -
  have "frame_addr i \<notin> table_frames booted_machine" if i: "i \<in> free_frames booted_machine" for i
  proof
    assume "frame_addr i \<in> table_frames booted_machine"
    then have "frame_addr i = frame_addr 65 \<or> frame_addr i = frame_addr 66"
      using booted_machine(6) entry_or_3 [of "0x42000"] entry_or_3 [of "0x41000"]
      by (auto simp: table_frames_def page_aligned_def present_def frame_addr_def PMM_FRAME_SIZE_def split: if_splits)
    then show False using i frame_addr_inj [of i 65] frame_addr_inj [of i 66] by (auto simp: booted_machine(5))
  qed
  then show ?thesis using booted_machine(2,3) by (simp add: space_inv_def table_available_def)
qed

lemma booted_next:
  "frame_addr (Min (free_frames booted_machine - {Min (free_frames booted_machine)})) = 0x44000"
  "identity_mapped booted_machine 0x44000"
proof -
  have m: "Min (free_frames booted_machine) = 67" unfolding booted_machine(5) by (rule Min_eqI) auto
  have "free_frames booted_machine - {67} = {68..<4096}" unfolding booted_machine(5) by auto
  moreover have "Min {68..<4096 :: nat} = 68" by (rule Min_eqI) auto
  ultimately show "frame_addr (Min (free_frames booted_machine - {Min (free_frames booted_machine)})) = 0x44000"
    unfolding m by (simp add: frame_addr_def PMM_FRAME_SIZE_def)
  show "identity_mapped booted_machine 0x44000"
    unfolding identity_mapped_def
  proof (intro allI impI)
    fix k :: nat assume "k < 4096"
    then have u: "unat (0x44000 + of_nat k :: u32) = 0x44000 + k" using unat_add_nat [of "0x44000" k] by simp
    then have "unat (pd_index (0x44000 + of_nat k)) = 0" using \<open>k < 4096\<close> by (simp add: unat_pd_index)
    then have "pd_index (0x44000 + of_nat k) \<noteq> 1023" by (simp add: word_unat_eq_iff)
    moreover have "0x44000 + of_nat k < (0x400000 :: u32)" using u \<open>k < 4096\<close> by (simp add: word_less_nat_alt)
    ultimately show "translate booted_machine (0x44000 + of_nat k) = Some (0x44000 + of_nat k)"
      by (simp add: booted_machine(7))
  qed
qed

theorem user_stack_correct_witness:
  "\<exists>s1 sp s2. map_user_stack 0x41000 USER_STACK_PAGES 0 booted_machine = Some (True, s1) \<and>
     push_args [cstr ''args'', cstr ''x''] s1 = Some (sp, s2) \<and> user_args (vload8 s2) sp [map chr ''args'', map chr ''x''] \<and>
     fresh_pages booted_machine (addr_range 0xBFFFC000 16384) s2"
proof -
  have p: "\<not> present (read_pde booted_machine 767)" using booted_machine(6) [of 767] by (simp add: present_def)
  have c: "5 \<le> card (free_frames booted_machine)" by (simp add: booted_machine(5))
  have t: "list_all2 (\<lambda>a t. text_of a = Some t) [cstr ''args'', cstr ''x''] [map chr ''args'', map chr ''x'']"
    by (simp add: cstr_def chr_def)
  note i = booted_next(2) [folded booted_next(1)]
  have d: "(0x41000 :: u32) = cr3 booted_machine" by (simp add: booted_machine(4))
  from user_stack_correct [OF booted_space p c i t _ _ d] show ?thesis by auto
qed

end
