(* ===== verification/Loader.thy ===== *)
theory Loader
  imports Exec
begin

text \<open>
  The correctness of loading one segment of an ELF file: the loops of \<^verbatim>\<open>exec_program\<close>
  (process.c), defined in the theory \<^verbatim>\<open>Exec\<close>, build the memory image that the program header
  describes.
\<close>

section \<open>Other mapped memory\<close>

text \<open>The memory behind a set of addresses does not lie in free frames.\<close>

definition owned_region :: "u32 set \<Rightarrow> 'a machine_state_scheme \<Rightarrow> bool" where
  "owned_region B s \<longleftrightarrow> (\<forall>a \<in> B. pd_index a \<noteq> 1023 \<and>
     (\<forall>pa. translate s a = Some pa \<longrightarrow> frame_of pa \<notin> frame_addr ` free_frames s))"

text \<open>Mapping new pages keeps what is mapped and its contents; both together can be used.\<close>

lemma new_pages_keep:
  assumes "space_inv s" and "new_pages s P s'" and "mapped_region B s" and "owned_region B s" and "\<forall>a \<in> B. frame_of a \<notin> P"
  shows "mapped_region (B \<union> {a. frame_of a \<in> P}) s'" "owned_region B s'" "a \<in> B \<Longrightarrow> vload8 s' a = vload8 s a"
proof -
  from assms(2) have tr: "translate s' a = translate s a" if "a \<in> B" for a
    using that assms(4,5) by (simp add: new_pages_def owned_region_def)
  have fr: "free_frames s' \<subseteq> free_frames s" using assms(2) by (simp add: new_pages_def)
  have B: "\<exists>pa. translate s a = Some pa \<and> frame_of pa \<notin> table_frames s \<and> frame_of pa \<notin> frame_addr ` free_frames s" if "a \<in> B" for a
    using that assms(3,4) by (auto simp: mapped_region_def owned_region_def)
  have tabs: "table_frames s' \<subseteq> table_frames s \<union> frame_addr ` free_frames s"
    using assms(2) by (auto simp: new_pages_def)
  show "owned_region B s'" using assms(4) tr fr unfolding owned_region_def by fastforce
  show "vload8 s' a = vload8 s a" if a: "a \<in> B"
  proof -
    from B [OF a] obtain pa where pa: "translate s a = Some pa" "frame_of pa \<notin> table_frames s" "frame_of pa \<notin> frame_addr ` free_frames s" by blast
    then have "phys s' pa = phys s pa" using assms(2) by (auto simp: new_pages_def)
    then show ?thesis using pa(1) tr [OF a] by (simp add: vload8_def)
  qed
  let ?Q = "{a. frame_of a \<in> P}"
  have new: "mapped_region ?Q s'" by (rule new_pages_region [OF assms(1,2)])
  have Q: "\<exists>pa. translate s' a = Some pa \<and> frame_of pa \<in> frame_addr ` free_frames s" if a: "a \<in> ?Q" for a
  proof -
    from assms(2) a obtain g where g: "g (frame_of a) \<in> free_frames s" "translate s' a = Some (frame_addr (g (frame_of a)) + page_offset a)"
      by (auto simp: new_pages_def)
    have "unat (page_offset a) < 4096" by (simp add: unat_page_offset)
    from frame_of_offset [OF frame_addr_aligned [OF free_bound [OF assms(1) g(1)]] this]
    have "frame_of (frame_addr (g (frame_of a)) + page_offset a) = frame_addr (g (frame_of a))" by simp
    then show ?thesis using g by auto
  qed
  have "inj_on (translate s') (B \<union> ?Q)"
  proof (rule inj_onI)
    fix a b assume ab: "a \<in> B \<union> ?Q" "b \<in> B \<union> ?Q" "translate s' a = translate s' b"
    have cross: False if "x \<in> B" "y \<in> ?Q" "translate s' x = translate s' y" for x y
      using B [OF that(1)] Q [OF that(2)] tr [OF that(1)] that(3) by auto
    consider "a \<in> B" "b \<in> B" | "a \<in> ?Q" "b \<in> ?Q" using ab cross [of a b] cross [of b a] by auto
    then show "a = b"
    proof cases
      case 1
      then show ?thesis using ab(3) tr assms(3) by (auto simp: mapped_region_def inj_on_def)
    next
      case 2
      then show ?thesis using ab(3) new by (auto simp: mapped_region_def inj_on_def)
    qed
  qed
  moreover have "\<exists>pa. translate s' a = Some pa \<and> frame_of pa \<notin> table_frames s'" if "a \<in> B" for a
    using B [OF that] tr [OF that] tabs by auto
  ultimately show "mapped_region (B \<union> ?Q) s'" using new by (auto simp: mapped_region_def)
qed

lemma vmemset_region:
  assumes "mapped_region R s" and "addr_range a n \<subseteq> R" and "unat a + n < 4294967296"
  shows "\<exists>s'. vmemset n a v s = Some s' \<and> mapped_region R s' \<and> space_view s' = space_view s \<and>
     bytes_at (vload8 s') a (replicate n v) \<and>
     (\<forall>b \<in> R. b \<notin> addr_range a n \<longrightarrow> vload8 s' b = vload8 s b)"
  using assms
proof (induction n arbitrary: a s)
  case 0
  then show ?case by (simp add: bytes_at_Nil)
next
  case (Suc n)
  from Suc.prems(2) have d: "a \<in> R" "addr_range (a + 1) n \<subseteq> R" by (simp_all add: addr_range_Suc)
  have u: "unat (a + 1) = unat a + 1" using unat_add_nat [of a 1] Suc.prems(3) by simp
  from vmf.wr_some [OF Suc.prems(1) d(1), of v] obtain s1 where
    s1: "vstore8 a v s = Some s1" "mapped_region R s1" "vload8 s1 a = Some v" "\<forall>b \<in> R. b \<noteq> a \<longrightarrow> vload8 s1 b = vload8 s b"
      "space_view s1 = space_view s" by blast
  from Suc.IH [OF s1(2) d(2)] u Suc.prems(3) obtain s' where
    s': "vmemset n (a + 1) v s1 = Some s'" "mapped_region R s'" "bytes_at (vload8 s') (a + 1) (replicate n v)"
      "\<forall>b \<in> R. b \<notin> addr_range (a + 1) n \<longrightarrow> vload8 s' b = vload8 s1 b" "space_view s' = space_view s1" by auto
  have "a \<notin> addr_range (a + 1) n" using addr_range_iff [of "a + 1" n a] u Suc.prems(3) by simp
  then have "vload8 s' a = Some v" using s'(4) s1(3) d(1) by simp
  then show ?case using s1 s' by (intro exI [of _ s']) (auto simp: bytes_at_Cons addr_range_Suc)
qed

section \<open>The program header\<close>

definition phdr_at :: "(u32 \<Rightarrow> u8 option) \<Rightarrow> u32 \<Rightarrow> u32 \<Rightarrow> u32 \<Rightarrow> u32 \<Rightarrow> u32 \<Rightarrow> bool" where
  "phdr_at m p off va fsz msz \<longleftrightarrow>
     bytes_at m (p + 4) (word_bytes off) \<and> bytes_at m (p + 8) (word_bytes va) \<and>
     bytes_at m (p + 16) (word_bytes fsz) \<and> bytes_at m (p + 20) (word_bytes msz)"

text \<open>A place for a header: 32 aligned bytes.\<close>

definition phdr_place :: "u32 \<Rightarrow> u32 set \<Rightarrow> bool" where
  "phdr_place p B \<longleftrightarrow> addr_range p 32 \<subseteq> B \<and> 4 dvd unat p \<and> unat p + 32 < 4294967296"

lemma phdr_word:
  assumes "phdr_place p B" and "4 dvd k" and "k \<le> 28"
  shows "addr_range (p + of_nat k) 4 \<subseteq> B" "4 dvd unat (p + of_nat k)"
proof -
  have u: "unat (p + of_nat k) = unat p + k" using assms by (intro unat_add_nat) (simp add: phdr_place_def)
  have "addr_range (p + of_nat k) 4 \<subseteq> addr_range p 32"
    using assms u by (auto simp: addr_range_iff phdr_place_def)
  then show "addr_range (p + of_nat k) 4 \<subseteq> B" using assms(1) by (auto simp: phdr_place_def)
  show "4 dvd unat (p + of_nat k)" unfolding u using assms by (simp add: phdr_place_def)
qed

lemma phdr_fields:
  assumes "mapped_region R s" and "phdr_place p B" and "B \<subseteq> R" and "phdr_at (vload8 s) p off va fsz msz"
  shows "ph_offset p s = Some off" "ph_vaddr p s = Some va" "ph_filesz p s = Some fsz" "ph_memsz p s = Some msz"
proof -
  have load: "vload32 s (p + of_nat k) = Some w"
    if "bytes_at (vload8 s) (p + of_nat k) (word_bytes w)" "4 dvd k" "k \<le> 28" for k w
    by (rule vload32_word_bytes [OF assms(1) _ _ that(1)])
      (use phdr_word [OF assms(2) that(2,3)] assms(3) in auto)
  show "ph_offset p s = Some off" "ph_vaddr p s = Some va" "ph_filesz p s = Some fsz" "ph_memsz p s = Some msz"
    using load [of 4 off] load [of 8 va] load [of 16 fsz] load [of 20 msz] assms(4)
    by (simp_all add: ph_offset_def ph_vaddr_def ph_filesz_def ph_memsz_def phdr_at_def)
qed

lemma phdr_at_cong:
  assumes "phdr_at m p off va fsz msz" and "phdr_place p B" and "\<And>a. a \<in> B \<Longrightarrow> m' a = m a"
  shows "phdr_at m' p off va fsz msz"
proof -
  have keep: "bytes_at m' (p + of_nat k) (word_bytes w)"
    if "bytes_at m (p + of_nat k) (word_bytes w)" "4 dvd k" "k \<le> 28" for k w
    by (rule bytes_at_cong [OF that(1)]) (use phdr_word(1) [OF assms(2) that(2,3)] assms(3) in auto)
  show ?thesis
    using assms(1) keep [of 4 off] keep [of 8 va] keep [of 16 fsz] keep [of 20 msz] by (simp add: phdr_at_def)
qed

section \<open>The pages of a segment\<close>

definition seg_page :: "u32 \<Rightarrow> nat \<Rightarrow> u32" where
  "seg_page va j = va + of_nat (4096 * j)"

text \<open>A page-aligned segment of \<^verbatim>\<open>n\<close> pages that one page table covers.\<close>

definition segment_fits :: "u32 \<Rightarrow> nat \<Rightarrow> bool" where
  "segment_fits va n \<longleftrightarrow> page_aligned va \<and> unat va mod 4194304 + 4096 * n \<le> 4194304 \<and> pd_index va \<noteq> 1023"

lemma segment_fits_bound: "segment_fits va n \<Longrightarrow> unat va + 4096 * n < 4294967296"
proof -
  assume f: "segment_fits va n"
  let ?q = "unat va div 4194304"
  have "?q < 1024" using unat_u32_bound [of va] by (simp add: less_mult_imp_div_less)
  moreover have "?q \<noteq> 1023" using f by (simp add: segment_fits_def word_unat_eq_iff unat_pd_index)
  ultimately have "?q \<le> 1022" by linarith
  moreover have "unat va = ?q * 4194304 + unat va mod 4194304" by simp
  ultimately show ?thesis using f unfolding segment_fits_def by linarith
qed

lemma seg_page:
  assumes "segment_fits va n" and "j < n"
  shows "unat (seg_page va j) = unat va + 4096 * j" "frame_of (seg_page va j) = seg_page va j" "pd_index (seg_page va j) = pd_index va"
proof -
  show u: "unat (seg_page va j) = unat va + 4096 * j"
    unfolding seg_page_def by (rule unat_add_nat) (use segment_fits_bound [OF assms(1)] assms(2) in linarith)
  have "page_aligned (seg_page va j)" using assms(1) by (simp add: page_aligned_def u segment_fits_def)
  then show "frame_of (seg_page va j) = seg_page va j" by (rule frame_of_aligned)
  define q r where "q = unat va div 4194304" and "r = unat va mod 4194304"
  have "r + 4096 * j < 4194304" using assms unfolding segment_fits_def r_def by linarith
  moreover have "unat va = 4194304 * q + r" by (simp add: q_def r_def)
  ultimately have "(unat va + 4096 * j) div 4194304 = q" by (intro div_nat_eqI) simp_all
  then have "(unat va + 4096 * j) div 4194304 = unat va div 4194304" by (simp only: q_def)
  then show "pd_index (seg_page va j) = pd_index va" by (simp add: word_unat_eq_iff unat_pd_index u)
qed

lemma seg_pages_range:
  assumes "segment_fits va n"
  shows "a \<in> addr_range va (4096 * n) \<longleftrightarrow> frame_of a \<in> seg_page va ` {0..<n}"
proof -
  obtain q where q: "unat va = 4096 * q" using assms by (auto simp: segment_fits_def page_aligned_def elim: dvdE)
  have b: "unat va + 4096 * n \<le> 4294967296" using segment_fits_bound [OF assms] by simp
  have "a \<in> addr_range va (4096 * n) \<longleftrightarrow> q \<le> unat a div 4096 \<and> unat a div 4096 < q + n"
    unfolding addr_range_iff [OF b] q by (auto simp: less_eq_div_iff_mult_less_eq div_less_iff_less_mult algebra_simps)
  also have "\<dots> \<longleftrightarrow> (\<exists>j < n. unat a div 4096 = q + j)" by (auto intro: exI [of _ "unat a div 4096 - q"])
  also have "\<dots> \<longleftrightarrow> (\<exists>j < n. unat (frame_of a) = unat (seg_page va j))"
    using seg_page(1) [OF assms] q by (auto simp: unat_frame_of)
  also have "\<dots> \<longleftrightarrow> frame_of a \<in> seg_page va ` {0..<n}" by (auto simp: word_unat_eq_iff [symmetric])
  finally show ?thesis .
qed

section \<open>Mapping and filling a segment\<close>

definition page_count :: "u32 \<Rightarrow> nat" where
  "page_count msz = (unat msz + 4095) div 4096"

lemma page_count_less: "k < page_count msz \<longleftrightarrow> 4096 * k < unat msz"
  by (auto simp: page_count_def less_eq_div_iff_mult_less_eq Suc_le_eq [symmetric])

text \<open>What the loader relies on before a segment is loaded: \<^verbatim>\<open>B\<close> is memory of the kernel that holds the header.\<close>

definition loader_ready :: "u32 set \<Rightarrow> u32 \<Rightarrow> u32 \<Rightarrow> u32 \<Rightarrow> u32 \<Rightarrow> u32 \<Rightarrow> 'a machine_state_scheme \<Rightarrow> bool" where
  "loader_ready B ph off va fsz msz s \<longleftrightarrow> space_inv s \<and> mapped_region B s \<and> owned_region B s \<and>
     phdr_place ph B \<and> phdr_at (vload8 s) ph off va fsz msz \<and>
     segment_fits va (page_count msz) \<and> B \<inter> addr_range va (4096 * page_count msz) = {}"

lemma mapped_region_subset: "mapped_region R s \<Longrightarrow> Q \<subseteq> R \<Longrightarrow> mapped_region Q s"
  unfolding mapped_region_def by (metis inj_on_subset subsetD)

lemma map_segment_run:
  assumes "loader_ready B ph off va fsz msz s" and "pages_ready n (pd_index va) s" and "k + n = page_count msz"
  shows "\<exists>s'. map_segment dir ph (of_nat (4096 * k)) s = Some (True, s') \<and> new_pages s (seg_page va ` {k..<k + n}) s' \<and>
     loader_ready B ph off va fsz msz s'"
  using assms
proof (induction n arbitrary: k s)
  case 0
  then have fits: "segment_fits va k" and r: "ph_memsz ph s = Some msz" "space_inv s"
    using phdr_fields(4) [of B s ph B off va fsz msz] by (auto simp: loader_ready_def)
  have "unat (of_nat (4096 * k) :: u32) = 4096 * k" by (rule unat_of_nat_u32) (use segment_fits_bound [OF fits] in linarith)
  moreover have "\<not> 4096 * k < unat msz" using page_count_less [of k msz] 0(3) by simp
  ultimately show ?case
    using 0(1) r by (subst map_segment.simps) (simp add: word_less_nat_alt new_pages_refl)
next
  case (Suc n)
  let ?N = "page_count msz"
  from Suc.prems(1) have ld: "space_inv s" "mapped_region B s" "owned_region B s" "phdr_place ph B"
    "phdr_at (vload8 s) ph off va fsz msz" "segment_fits va ?N" "B \<inter> addr_range va (4096 * ?N) = {}"
    by (simp_all add: loader_ready_def)
  note ph = phdr_fields [OF ld(2,4) subset_refl ld(5)]
  have k: "k < ?N" using Suc.prems(3) by simp
  note pg = seg_page [OF ld(6) k]
  have B: "\<forall>a \<in> B. frame_of a \<notin> seg_page va ` {0..<?N}" using ld(7) seg_pages_range [OF ld(6)] by blast
  have "pages_ready (Suc n) (pd_index (seg_page va k)) s" using Suc.prems(2) by (simp add: pg)
  from pages_step [OF ld(1) this, where dir = dir] obtain f s1 s2 where
    one: "pmm_alloc_frame s = Some (f, s1)" "f \<noteq> 0" "user_page dir (seg_page va k) f s1 = Some s2"
      "new_pages s {frame_of (seg_page va k)} s2" "space_inv s2" "pages_ready n (pd_index va) s2"
    unfolding pg(3) .
  have "\<forall>a \<in> B. frame_of a \<notin> {frame_of (seg_page va k)}" using B k unfolding pg(2) by auto
  note keep = new_pages_keep [OF ld(1) one(4) ld(2,3) this]
  have "mapped_region B s2" using keep(1) by (rule mapped_region_subset) simp
  moreover have "phdr_at (vload8 s2) ph off va fsz msz" using phdr_at_cong [OF ld(5,4)] keep(3) by blast
  ultimately have "loader_ready B ph off va fsz msz s2" using ld one(5) keep(2) by (simp add: loader_ready_def)
  from Suc.IH [OF this one(6), of "Suc k"] Suc.prems(3) obtain s' where
    s': "map_segment dir ph (of_nat (4096 * Suc k)) s2 = Some (True, s')" "new_pages s2 (seg_page va ` {Suc k..<Suc k + n}) s'"
      "loader_ready B ph off va fsz msz s'" by auto
  have "frame_of (seg_page va k) \<notin> seg_page va ` {Suc k..<Suc k + n}"
  proof
    assume "frame_of (seg_page va k) \<in> seg_page va ` {Suc k..<Suc k + n}"
    then obtain j where j: "j \<in> {Suc k..<Suc k + n}" "seg_page va k = seg_page va j" unfolding pg(2) by (elim imageE)
    then have "unat va + 4096 * k = unat va + 4096 * j" using pg(1) seg_page(1) [OF ld(6), of j] Suc.prems(3) by simp
    then show False using j(1) by simp
  qed
  moreover have "pd_index (seg_page va k) \<noteq> 1023" using ld(6) by (simp add: pg segment_fits_def)
  ultimately have "new_pages s (insert (seg_page va k) (seg_page va ` {Suc k..<Suc k + n})) s'"
    using new_pages_insert [OF ld(1) one(4) s'(2)] unfolding pg(2) by simp
  moreover have "{k..<k + Suc n} = insert k {Suc k..<Suc k + n}" by auto
  ultimately have new: "new_pages s (seg_page va ` {k..<k + Suc n}) s'" by simp
  have "unat (of_nat (4096 * k) :: u32) = 4096 * k"
    by (rule unat_of_nat_u32) (use segment_fits_bound [OF ld(6)] k in linarith)
  then have "of_nat (4096 * k) < msz" using k page_count_less [of k msz] by (simp add: word_less_nat_alt)
  moreover have "map_segment dir ph (of_nat (4096 * k) + PMM_FRAME_SIZE) s2 = Some (True, s')"
    using s'(1) by (simp add: PMM_FRAME_SIZE_def add.commute)
  ultimately have "map_segment dir ph (of_nat (4096 * k)) s = Some (True, s')"
    using ph one(1-3) by (subst map_segment.simps) (simp add: seg_page_def del: of_nat_mult of_nat_Suc)
  then show ?case using new s'(3) by blast
qed

lemma fill_segment_run:
  assumes "mapped_region (B \<union> S) s1" and "phdr_place ph B" and "phdr_at (vload8 s1) ph off va fsz msz" and "B \<inter> S = {}"
    and "addr_range va (unat msz) \<subseteq> S" and "unat va + unat msz < 4294967296" and "fsz \<le> msz"
    and "bytes_at (vload8 s1) (file_buffer + off) bs" and "length bs = unat fsz" and "addr_range (file_buffer + off) (unat fsz) \<subseteq> B"
  shows "\<exists>s2. fill_segment file_buffer ph s1 = Some s2 \<and> space_view s2 = space_view s1 \<and>
     bytes_at (vload8 s2) va (bs @ replicate (unat msz - unat fsz) 0) \<and>
     (\<forall>a \<in> B. vload8 s2 a = vload8 s1 a)"
proof -
  let ?R = "B \<union> S"
  let ?n = "unat msz - unat fsz"
  note ph = phdr_fields [OF assms(1,2) _ assms(3), simplified]
  have sz: "unat fsz \<le> unat msz" using assms(7) by (simp add: word_le_nat_alt)
  have sub: "addr_range va (unat fsz) \<subseteq> S" using addr_range_mono [OF sz] assms(5) by blast
  have "addr_range va (length bs) \<inter> addr_range (file_buffer + off) (length bs) = {}"
    "addr_range va (length bs) \<subseteq> ?R" "addr_range (file_buffer + off) (length bs) \<subseteq> ?R" "length bs \<le> 4294967296"
    using sub assms(4,9,10) less_imp_le [OF unat_u32_bound [of fsz]] by auto
  from vmf.cpy_apart [OF assms(1) this(2-4) assms(8) this(1)] obtain s2 where
    s2: "vmemcpy (unat fsz) va (file_buffer + off) s1 = Some s2" "mapped_region ?R s2" "bytes_at (vload8 s2) va bs"
      "\<forall>b \<in> ?R. b \<notin> addr_range va (unat fsz) \<longrightarrow> vload8 s2 b = vload8 s1 b" "space_view s2 = space_view s1"
    unfolding assms(9) by blast
  have B2: "vload8 s2 a = vload8 s1 a" if "a \<in> B" for a using that s2(4) sub assms(4) by blast
  have hdr2: "phdr_at (vload8 s2) ph off va fsz msz" by (rule phdr_at_cong [OF assms(3,2) B2])
  note ph2 = phdr_fields [OF s2(2) assms(2) _ hdr2, simplified]
  show ?thesis
  proof (cases "fsz < msz")
    case False
    then have "fsz = msz" using assms(7) by simp
    then show ?thesis using ph ph2 s2(1,3,5) False B2 by (intro exI [of _ s2]) (simp add: fill_segment_def)
  next
    case True
    have e: "unat (va + fsz) = unat va + unat fsz" using unat_add_nat [of va "unat fsz"] sz assms(6) by simp
    have bss: "addr_range (va + fsz) ?n \<subseteq> addr_range va (unat msz)" "addr_range (va + fsz) ?n \<inter> addr_range va (unat fsz) = {}"
      using addr_range_iff [of "va + fsz" ?n] addr_range_iff [of va "unat msz"] addr_range_iff [of va "unat fsz"] e sz assms(6) by auto
    have "addr_range (va + fsz) ?n \<subseteq> ?R" "unat (va + fsz) + ?n < 4294967296" using bss(1) assms(5,6) e sz by auto
    from vmemset_region [OF s2(2) this, of 0] obtain s3 where
      s3: "vmemset ?n (va + fsz) 0 s2 = Some s3" "bytes_at (vload8 s3) (va + fsz) (replicate ?n 0)"
        "\<forall>b \<in> ?R. b \<notin> addr_range (va + fsz) ?n \<longrightarrow> vload8 s3 b = vload8 s2 b" "space_view s3 = space_view s2" by blast
    have "fill_segment file_buffer ph s1 = Some s3"
      using ph ph2 s2(1) s3(1) True unat_sub [OF assms(7)] by (simp add: fill_segment_def)
    moreover have "bytes_at (vload8 s3) va bs"
      by (rule bytes_at_keep [OF s2(3) s3(3)]) (use assms(9) sub bss(2) in auto)
    then have "bytes_at (vload8 s3) va (bs @ replicate ?n 0)" using s3(2) assms(9) by (simp add: bytes_at_append)
    moreover have "vload8 s3 a = vload8 s1 a" if "a \<in> B" for a
    proof -
      have "a \<notin> addr_range (va + fsz) ?n" using that bss(1) assms(4,5) by blast
      then show ?thesis using that s3(3) B2 by simp
    qed
    moreover have "space_view s3 = space_view s1" using s2(5) s3(4) by simp
    ultimately show ?thesis by blast
  qed
qed

text \<open>C6. Loading a segment (\<^verbatim>\<open>exec_program\<close>, process.c) into the active address space: for a page-aligned segment within the reach of
  one page table, a program header in kernel memory and enough free frames, the loops map
  the pages of the segment to distinct frames that were free and now belong to the program,
  all of them accessible in user mode, and the memory of the segment then holds the bytes of
  the file followed by zeros up to its size in memory. No other mapping changes, and the
  kernel memory that holds the file keeps its contents.\<close>

theorem load_segment_correct:
  assumes "loader_ready B ph off va fsz msz s" and "pages_ready (page_count msz) (pd_index va) s"
    and "bytes_at (vload8 s) (file_buffer + off) bs" and "length bs = unat fsz" and "fsz \<le> msz"
    and "addr_range (file_buffer + off) (unat fsz) \<subseteq> B" and "new_dir = cr3 s"
  shows "\<exists>s1 s2. map_segment new_dir ph 0 s = Some (True, s1) \<and> fill_segment file_buffer ph s1 = Some s2 \<and>
     fresh_pages s (addr_range va (4096 * page_count msz)) s2 \<and>
     (\<forall>a. pd_index a \<noteq> 1023 \<and> a \<notin> addr_range va (4096 * page_count msz) \<longrightarrow>
        translate s2 a = translate s a \<and> (user_accessible s2 a \<longleftrightarrow> user_accessible s a)) \<and>
     bytes_at (vload8 s2) va (bs @ replicate (unat msz - unat fsz) 0) \<and> (\<forall>a \<in> B. vload8 s2 a = vload8 s a)"
proof -
  let ?N = "page_count msz"
  let ?S = "addr_range va (4096 * ?N)"
  from assms(1) have ld: "space_inv s" "mapped_region B s" "owned_region B s" "segment_fits va ?N" "B \<inter> ?S = {}" "phdr_place ph B"
    by (simp_all add: loader_ready_def)
  from map_segment_run [OF assms(1,2), of 0 new_dir] obtain s1 where
    s1: "map_segment new_dir ph 0 s = Some (True, s1)" "new_pages s (seg_page va ` {0..<?N}) s1" "loader_ready B ph off va fsz msz s1"
    by auto
  have S: "{a. frame_of a \<in> seg_page va ` {0..<?N}} = ?S" using seg_pages_range [OF ld(4)] by blast
  have "\<forall>a \<in> B. frame_of a \<notin> seg_page va ` {0..<?N}" using ld(5) seg_pages_range [OF ld(4)] by blast
  note keep = new_pages_keep [OF ld(1) s1(2) ld(2,3) this, unfolded S]
  have sz: "unat msz \<le> 4096 * ?N" by (simp add: page_count_def)
  have sub: "addr_range va (unat msz) \<subseteq> ?S" by (rule addr_range_mono [OF sz])
  have hdr: "phdr_at (vload8 s1) ph off va fsz msz" using s1(3) by (simp add: loader_ready_def)
  have src: "bytes_at (vload8 s1) (file_buffer + off) bs"
    by (rule bytes_at_cong [OF assms(3)]) (use assms(4,6) keep(3) in auto)
  have "unat va + unat msz < 4294967296" using segment_fits_bound [OF ld(4)] sz by linarith
  from fill_segment_run [OF keep(1) ld(6) hdr ld(5) sub this assms(5) src assms(4,6)] obtain s2 where
    s2: "fill_segment file_buffer ph s1 = Some s2" "space_view s2 = space_view s1"
      "bytes_at (vload8 s2) va (bs @ replicate (unat msz - unat fsz) 0)" "\<forall>a \<in> B. vload8 s2 a = vload8 s1 a" by blast
  have "fresh_pages s ?S s2" using S by (intro new_pages_fresh [OF s1(2) _ s2(2)]) blast
  moreover have "translate s2 a = translate s a \<and> (user_accessible s2 a \<longleftrightarrow> user_accessible s a)"
    if "pd_index a \<noteq> 1023" "a \<notin> ?S" for a
    using s1(2) that S unfolding new_pages_def space_viewD [OF s2(2)] by blast
  ultimately show ?thesis using s1(1) s2 keep(3) by (intro exI [of _ s1] exI [of _ s2]) simp
qed

text \<open>A file buffer at 0x20000 with one program header and two bytes of contents.\<close>

definition demo_file :: bytes where
  "demo_file = word_bytes 1 @ word_bytes 0x20 @ word_bytes 0x400000 @ word_bytes 0x400000 @ word_bytes 2 @ word_bytes 5 @
     word_bytes 7 @ word_bytes 0x1000 @ [0xAA, 0xBB]"

definition demo_loader :: machine_state where
  "demo_loader = booted_machine\<lparr>phys := (\<lambda>a. if unat a - 0x20000 < 34 \<and> 0x20000 \<le> unat a
     then demo_file ! (unat a - 0x20000) else phys booted_machine a)\<rparr>"

lemma demo_loader:
  "space_inv demo_loader" "mapped_region (addr_range 0x20000 34) demo_loader" "owned_region (addr_range 0x20000 34) demo_loader"
  "bytes_at (vload8 demo_loader) 0x20000 demo_file" "pages_ready 1 1 demo_loader"
proof -
  have al: "page_aligned 0x20000" by (simp add: page_aligned_def)
  have nt: "0x20000 \<notin> table_frames booted_machine"
    using booted_machine(6) entry_or_3 [of "0x42000"] entry_or_3 [of "0x41000"]
    by (auto simp: table_frames_def page_aligned_def present_def split: if_splits)
  have in20: "frame_of a = 0x20000" if "unat a - 0x20000 < 34" "0x20000 \<le> unat a" for a
    using frame_of_offset [OF al, of "unat a - 0x20000"] that unat_add_nat [of "0x20000" "unat a - 0x20000"]
    by (simp add: word_unat_eq_iff)
  have so: "same_outside 0x20000 (phys booted_machine) (phys demo_loader)"
    using in20 by (auto simp: same_outside_def demo_loader_def)
  have eq: "booted_machine\<lparr>phys := phys demo_loader\<rparr> = demo_loader" by (simp add: demo_loader_def)
  note o = outside_tables [OF booted_machine(2) nt so, unfolded eq]
    and tab = table_frames_same [OF booted_machine(2) nt so, unfolded eq]
  have pm: "free_frames demo_loader = free_frames booted_machine" "pmm_inv demo_loader = pmm_inv booted_machine"
    by (simp_all add: demo_loader_def)
  show "space_inv demo_loader" using booted_space o(4) tab pm by (simp add: space_inv_def)
  have low: "translate demo_loader a = Some a" "frame_of a = 0x20000" "pd_index a \<noteq> 1023" "unat a - 0x20000 < 34" "0x20000 \<le> unat a"
    if "a \<in> addr_range 0x20000 34" for a
  proof -
    have u: "0x20000 \<le> unat a" "unat a < 0x20000 + 34" using that addr_range_iff [of "0x20000" 34 a] by simp_all
    then show "unat a - 0x20000 < 34" "0x20000 \<le> unat a" by simp_all
    then show "frame_of a = 0x20000" by (rule in20)
    have "unat (pd_index a) = 0" using u by (simp add: unat_pd_index)
    then show pd: "pd_index a \<noteq> 1023" by (simp add: word_unat_eq_iff)
    have "a < 0x400000" using u by (simp add: word_less_nat_alt)
    then show "translate demo_loader a = Some a" using o(3) booted_machine(7) [OF pd] by simp
  qed
  show "mapped_region (addr_range 0x20000 34) demo_loader"
    using o(4) low nt by (auto simp: mapped_region_def tab inj_on_def)
  have "(0x20000 :: u32) \<noteq> frame_addr i" if "i \<in> {67..<4096}" for i
  proof
    assume e: "0x20000 = frame_addr i"
    have "unat (frame_addr i) = i * 4096" using that by (intro unat_frame_addr) simp
    then show False using that unfolding e [symmetric] by simp
  qed
  then show "owned_region (addr_range 0x20000 34) demo_loader"
    using low by (auto simp: owned_region_def pm booted_machine(5))
  show "bytes_at (vload8 demo_loader) 0x20000 demo_file"
    unfolding bytes_at_def
  proof (intro allI impI)
    fix i assume "i < length demo_file"
    then have i: "i < 34" by (simp add: demo_file_def)
    note lo = low [OF addr_rangeI [OF i]]
    have "unat (0x20000 + of_nat i :: u32) = 0x20000 + i" using unat_add_nat [of "0x20000" i] i by simp
    then show "vload8 demo_loader (0x20000 + of_nat i) = Some (demo_file ! i)"
      using lo(1) i by (simp add: vload8_def demo_loader_def)
  qed
  have "identity_mapped demo_loader 0x44000" using booted_next(2) o(3) by (simp add: identity_mapped_def)
  moreover have "\<not> present (read_pde demo_loader 1)" using o(1) [of 1] booted_machine(6) [of 1] by (simp add: present_def)
  ultimately show "pages_ready 1 1 demo_loader"
    using booted_next(1) by (simp add: pages_ready_def pm booted_machine(5))
qed

theorem load_segment_correct_witness:
  "\<exists>s1 s2. map_segment 0x41000 0x20000 0 demo_loader = Some (True, s1) \<and> fill_segment 0x20000 0x20000 s1 = Some s2 \<and>
     bytes_at (vload8 s2) 0x400000 [0xAA, 0xBB, 0, 0, 0] \<and> fresh_pages demo_loader (addr_range 0x400000 4096) s2"
proof -
  let ?B = "addr_range 0x20000 34"
  have place: "phdr_place 0x20000 ?B" using addr_range_mono [of 32 34 "0x20000"] by (simp add: phdr_place_def)
  have parts: "phdr_at (vload8 demo_loader) 0x20000 0x20 0x400000 2 5" "bytes_at (vload8 demo_loader) (0x20000 + 0x20) [0xAA, 0xBB]"
    using demo_loader(4) by (simp_all add: phdr_at_def demo_file_def bytes_at_append)
  have pc: "page_count 5 = 1" "pd_index 0x400000 = 1" by (simp_all add: page_count_def pd_index_def)
  have fits: "segment_fits 0x400000 (page_count 5)" by (simp add: segment_fits_def pc page_aligned_def)
  have "?B \<inter> addr_range 0x400000 (4096 * page_count 5) = {}" by (rule addr_range_disjoint) (simp_all add: pc)
  then have ready: "loader_ready ?B 0x20000 0x20 0x400000 2 5 demo_loader"
    using demo_loader(1-3) place parts(1) fits by (simp add: loader_ready_def)
  have pages: "pages_ready (page_count 5) (pd_index 0x400000) demo_loader" using demo_loader(5) by (simp add: pc)
  have src: "addr_range (0x20000 + 0x20) (unat (2 :: u32)) \<subseteq> ?B"
    using addr_range_add [of "0x20000" 32 2] by simp
  have r: "[0xAA, 0xBB] @ replicate (unat (5 :: u32) - unat (2 :: u32)) 0 = [0xAA, 0xBB, 0, 0, 0 :: u8]"
    by (simp, simp add: numeral_3_eq_3)
  have l: "length [0xAA, 0xBB :: u8] = unat (2 :: u32)" "(2 :: u32) \<le> 5" by simp_all
  have d: "(0x41000 :: u32) = cr3 demo_loader" by (simp add: demo_loader_def booted_machine(4))
  from load_segment_correct [OF ready pages parts(2) l src d] show ?thesis unfolding r pc mult_1_right by blast
qed

end
