(* ===== verification/Kernel.thy ===== *)
theory Kernel
  imports Shell Descriptors Debug Exec Scheduling
begin

text \<open>
  The state of the whole kernel, the operations of the components lifted to it, and the
  exception handler of \<^verbatim>\<open>kernel/cpu/exceptions.c\<close>.

  The record collects the static variables of all files. There is one I/O trace and one
  interrupt flag, those of the text-mode driver at the base of the record; an operation of
  another component that uses ports gets them and returns them. Blocking operations suspend
  the running task: what the rest of the system does until the task continues is the
  argument \<^verbatim>\<open>p_resume\<close> of the platform, which may depend on the whole state; its result
  \<^term>\<open>None\<close> is a task that never continues. The other members of the platform are the devices,
  the addresses of the two static DMA buffers (disk and virtio), the registers at an
  interrupt that the kernel raises itself (\<^verbatim>\<open>p_frame\<close>), and the value of an uninitialised
  padding byte.
\<close>

section \<open>State\<close>

datatype irq_routine = Keyboard_handler | Timer_handler

datatype syscall_id = Sys_test_print | Sys_getchar | Sys_exit | Sys_play_sound | Sys_sleep

text \<open>
  Accesses to memory-mapped registers of a device, by physical address and width in bytes.
  The device decides what a read returns; it may also write to memory at any time
  (\<^verbatim>\<open>mm_dma\<close>), which the driver notices when it reads. The event of a write holds the memory at
  that moment, which is what the device finds when the write makes it look.
\<close>

datatype mmio_event = MRead nat u32 u32 | MWrite nat u32 u32 memory

record mmio_device =
  mm_read :: "mmio_event list \<Rightarrow> nat \<Rightarrow> u32 \<Rightarrow> u32"
  mm_dma :: "mmio_event list \<Rightarrow> memory \<Rightarrow> memory"

record virtqueue_info_t =
  desc_table :: u32
  avail_ring :: u32
  used_ring :: u32
  q_size :: u16
  last_used_idx :: u16
  next_avail_idx :: u16

record kernel = shell_state +
  kbd :: kbd_state
  mem :: fs_state
  prc :: timer_state
  frequency :: u32
  desc :: desc_state
  irq_routines :: "irq_routine option list"
  syscall_table :: "syscall_id option list"
  mmio :: "mmio_event list"
  notify_base_addr :: u32
  notify_off_multiplier :: u32
  queues :: "virtqueue_info_t list"
  virtio_sound_cfg :: u32
  sb16_dma_buffer :: u32

record platform =
  p_dev :: device
  p_mmio :: mmio_device
  p_dma :: u32
  p_vdma :: u32
  p_resume :: "kernel \<Rightarrow> kernel option"
  p_frame :: "kernel \<Rightarrow> registers_t"
  p_padding :: u8

section \<open>Lifting\<close>

text \<open>An operation on memory, with the ports of the kernel.\<close>

definition on_mem :: "(fs_state \<Rightarrow> ('r \<times> fs_state) option) \<Rightarrow> kernel \<Rightarrow> ('r \<times> kernel) option" where
  "on_mem f k =
     map_option (\<lambda>(r, m). (r, k\<lparr>mem := m, io_trace := io_trace (ports m), intr_flag := intr_flag (ports m)\<rparr>))
       (f ((mem k)\<lparr>ports := \<lparr>io_trace = io_trace k, intr_flag = intr_flag k\<rparr>\<rparr>))"

definition do_mem :: "(fs_state \<Rightarrow> fs_state option) \<Rightarrow> kernel \<Rightarrow> kernel option" where
  "do_mem f k = map_option snd (on_mem (\<lambda>m. map_option (Pair ()) (f m)) k)"

definition on_prc :: "(timer_state \<Rightarrow> timer_state) \<Rightarrow> kernel \<Rightarrow> kernel" where
  "on_prc f k = k\<lparr>prc := f (prc k)\<rparr>"

definition on_speaker :: "(speaker_state \<Rightarrow> speaker_state) \<Rightarrow> kernel \<Rightarrow> kernel" where
  "on_speaker f k =
     (let s = f \<lparr>io_trace = io_trace k, intr_flag = intr_flag k, current_frequency = frequency k\<rparr>
      in k\<lparr>io_trace := io_trace s, intr_flag := intr_flag s, frequency := current_frequency s\<rparr>)"

text \<open>\<^verbatim>\<open>sleep\<close> (timer.c) including the time until the task continues.\<close>

definition kernel_sleep :: "platform \<Rightarrow> u32 \<Rightarrow> kernel \<Rightarrow> kernel option" where
  "kernel_sleep pf ms k =
     do {
       (p, k) \<leftarrow> sleep ms (prc k) k;
       cur \<leftarrow> current_task p;
       let t = process_table p ! cur;
       let k = debug_field ''sleep: PID '' (word_of_int (pid t)) k;
       let k = debug_field '' sleeping until tick '' (wakeup_time t) k;
       let k = debug_lit (''.'' @ nl) k;
       p_resume pf (k\<lparr>prc := p\<rparr>)
     }"

text \<open>
  \<^verbatim>\<open>keyboard_read_char\<close> (keyboard.c) with the waiting loop around its test: every halt lets the
  rest of the system run.
\<close>

partial_function (option) kernel_getchar :: "platform \<Rightarrow> kernel \<Rightarrow> (u8 \<times> kernel) option" where
  "kernel_getchar pf k =
     (case keyboard_read_char (kbd k) of
        Some (c, kb) \<Rightarrow> Some (c, k\<lparr>kbd := kb\<rparr>)
      | None \<Rightarrow> p_resume pf (sti k) \<bind> kernel_getchar pf)"

text \<open>A string of the kernel or of the running program, read through its address.\<close>

partial_function (option) vstring :: "u32 \<Rightarrow> 'a machine_state_scheme \<Rightarrow> bytes option" where
  "vstring a s =
     do {
       c \<leftarrow> vload8 s a;
       if c = 0 then Some [0]
       else do { cs \<leftarrow> vstring (a + 1) s; Some (c # cs) }
     }"

section \<open>Exceptions\<close>

definition print_if :: "bool \<Rightarrow> string \<Rightarrow> 'a vga_state_scheme \<Rightarrow> 'a vga_state_scheme" where
  "print_if b l s = (if b then print_lit l s else s)"

definition print_eflags :: "u32 \<Rightarrow> 'a vga_state_scheme \<Rightarrow> 'a vga_state_scheme" where
  "print_eflags eflags s =
     (let s = print_lit '' [ '' s;
          s = print_if (eflags AND 0x1 \<noteq> 0) ''CF '' s;
          s = print_if (eflags AND 0x4 \<noteq> 0) ''PF '' s;
          s = print_if (eflags AND 0x10 \<noteq> 0) ''AF '' s;
          s = print_if (eflags AND 0x40 \<noteq> 0) ''ZF '' s;
          s = print_if (eflags AND 0x80 \<noteq> 0) ''SF '' s;
          s = print_if (eflags AND 0x200 \<noteq> 0) ''IF '' s;
          s = print_if (eflags AND 0x400 \<noteq> 0) ''DF '' s
      in print_lit '']'' s)"

fun dump_words :: "'b machine_state_scheme \<Rightarrow> nat \<Rightarrow> u32 \<Rightarrow> 'a vga_state_scheme \<Rightarrow> 'a vga_state_scheme option" where
  "dump_words m 0 a s = Some s"
| "dump_words m (Suc n) a s =
     do {
       value \<leftarrow> vload32 m a;
       let s = print_hex a s;
       let s = print_lit '': '' s;
       let s = print_hex value s;
       let s = print_lit nl s;
       dump_words m n (a + 4) s
     }"

definition dump_stack :: "'b machine_state_scheme \<Rightarrow> u32 \<Rightarrow> 'a vga_state_scheme \<Rightarrow> 'a vga_state_scheme option" where
  "dump_stack m stack_ptr s = dump_words m 13 stack_ptr (print_lit (nl @ ''-- STACK DUMP --'' @ nl) s)"

definition print_field :: "string \<Rightarrow> u32 \<Rightarrow> 'a vga_state_scheme \<Rightarrow> 'a vga_state_scheme" where
  "print_field l n s = print_hex n (print_lit l s)"

text \<open>
  \<^verbatim>\<open>fault_handler\<close> up to its final endless loop; \<^verbatim>\<open>cr2\<close> is the address that caused a page
  fault. \<^term>\<open>None\<close> is a second fault while the stack is dumped.
\<close>

definition fault_handler :: "u32 \<Rightarrow> registers_t \<Rightarrow> kernel \<Rightarrow> kernel option" where
  "fault_handler cr2 r k =
     (let k = clear_screen k;
          k = print_lit (''CPU EXCEPTION CAUGHT! -- SYSTEM HALTED'' @ nl) k;
          k = print_field ''Interrupt Number: '' (r_int_no r) k;
          k = print_field ''  Error Code: '' (r_err_code r) k;
          k = print_field (nl @ ''Faulting Address: '') cr2 k;
          k = print_lit (nl @ ''-- REGISTER DUMP --'' @ nl) k;
          k = print_field ''EAX: '' (r_eax r) k; k = print_field ''  EBX: '' (r_ebx r) k;
          k = print_field ''  ECX: '' (r_ecx r) k; k = print_field (nl @ ''EDX: '') (r_edx r) k;
          k = print_field ''  ESI: '' (r_esi r) k; k = print_field ''  EDI: '' (r_edi r) k;
          k = print_lit (nl @ ''-- SEGMENT DUMP --'' @ nl) k;
          k = print_field ''CS:  '' (r_cs r) k; k = print_field ''  DS:  '' (r_ds r) k;
          k = print_field ''  SS:  '' (r_ss r) k;
          k = print_lit (nl @ ''-- CONTROL DUMP --'' @ nl) k;
          k = print_field ''EIP: '' (r_eip r) k;
          k = print_field ''  EFLAGS: '' (r_eflags r) k;
          k = print_eflags (r_eflags r) k
      in dump_stack (mem k) (r_useresp r) k)"

section \<open>Hardware interrupts\<close>

text \<open>
  \<^verbatim>\<open>keyboard_install\<close> (keyboard.c), and \<^verbatim>\<open>timer_install\<close> (timer.c) with the registration of its
  handler. The handlers that \<^verbatim>\<open>irq_handler\<close> calls: the timer's also loads the page directory
  of the task it switches to.
\<close>

definition keyboard_install :: "kernel \<Rightarrow> kernel option" where
  "keyboard_install k =
     map_option (\<lambda>t. k\<lparr>irq_routines := t\<rparr>) (irq_install_handler 1 Keyboard_handler (irq_routines k))"

definition kernel_timer_install :: "kernel \<Rightarrow> kernel option" where
  "kernel_timer_install k =
     map_option (\<lambda>t. timer_install (k\<lparr>irq_routines := t\<rparr>)) (irq_install_handler 0 Timer_handler (irq_routines k))"

fun call_routine :: "platform \<Rightarrow> irq_routine \<Rightarrow> registers_t \<Rightarrow> kernel \<Rightarrow> (registers_t \<times> kernel) option" where
  "call_routine pf Keyboard_handler r k =
     (let (k', kb) = keyboard_handler (p_dev pf) k (kbd k) in Some (r, k'\<lparr>kbd := kb\<rparr>))"
| "call_routine pf Timer_handler r k =
     map_option
       (\<lambda>(r, cr3, p, k). (r, k\<lparr>prc := p, mem := (case cr3 of None \<Rightarrow> mem k | Some d \<Rightarrow> load_page_directory d (mem k))\<rparr>))
       (timer_handler r (prc k) k)"

definition kernel_irq :: "platform \<Rightarrow> registers_t \<Rightarrow> kernel \<Rightarrow> (registers_t \<times> kernel) option" where
  "kernel_irq pf r k = irq_handler (call_routine pf) (irq_routines k) r k"

text \<open>
  \<^verbatim>\<open>int $0x20\<close>: the kernel raises the timer's interrupt to give up the processor; the call
  returns when the task is scheduled again.
\<close>

definition yield_cpu :: "platform \<Rightarrow> kernel \<Rightarrow> kernel option" where
  "yield_cpu pf k =
     do {
       (r, k) \<leftarrow> kernel_irq pf ((p_frame pf k)\<lparr>r_int_no := 32\<rparr>) (k\<lparr>intr_flag := False\<rparr>);
       p_resume pf k
     }"

end
