(* ===== verification/Virtio.thy ===== *)
theory Virtio
  imports Kernel
begin

text \<open>
  The driver of the virtio sound device: \<^verbatim>\<open>kernel/drivers/virtio.c\<close> and
  \<^verbatim>\<open>include/kernel/drivers/virtio.h\<close>.

  The configuration registers are memory-mapped: every access to a \<^verbatim>\<open>volatile\<close> field is an
  event at the physical address that the page tables give for it. The queues are ordinary
  memory that the device reads and writes: a write to a register lets the device look at
  memory, so its event holds the memory as it is at that moment, and the writes of the
  device take effect when the driver looks at the used ring. The descriptor tables and rings are used at their physical addresses.
\<close>

section \<open>Constants\<close>

definition VIRTIO_STATUS_ACKNOWLEDGE :: u32 where "VIRTIO_STATUS_ACKNOWLEDGE = 1"
definition VIRTIO_STATUS_DRIVER :: u32 where "VIRTIO_STATUS_DRIVER = 2"
definition VIRTIO_STATUS_DRIVER_OK :: u32 where "VIRTIO_STATUS_DRIVER_OK = 4"
definition VIRTIO_STATUS_FEATURES_OK :: u32 where "VIRTIO_STATUS_FEATURES_OK = 8"
definition VIRTIO_STATUS_FAILED :: u32 where "VIRTIO_STATUS_FAILED = 128"

lemmas virtio_status = VIRTIO_STATUS_ACKNOWLEDGE_def VIRTIO_STATUS_DRIVER_def VIRTIO_STATUS_DRIVER_OK_def
  VIRTIO_STATUS_FEATURES_OK_def VIRTIO_STATUS_FAILED_def

definition VIRTIO_F_VERSION_1 :: nat where "VIRTIO_F_VERSION_1 = 32"

definition VIRTQ_DESC_F_NEXT :: u16 where "VIRTQ_DESC_F_NEXT = 1"
definition VIRTQ_DESC_F_WRITE :: u16 where "VIRTQ_DESC_F_WRITE = 2"

definition VIRTIO_SND_R_PCM_SET_PARAMS :: u32 where "VIRTIO_SND_R_PCM_SET_PARAMS = 0x0101"
definition VIRTIO_SND_R_PCM_PREPARE :: u32 where "VIRTIO_SND_R_PCM_PREPARE = 0x0102"
definition VIRTIO_SND_R_PCM_RELEASE :: u32 where "VIRTIO_SND_R_PCM_RELEASE = 0x0103"
definition VIRTIO_SND_R_PCM_START :: u32 where "VIRTIO_SND_R_PCM_START = 0x0104"
definition VIRTIO_SND_R_PCM_STOP :: u32 where "VIRTIO_SND_R_PCM_STOP = 0x0105"
definition VIRTIO_SND_PCM_FMT_S16_LE :: u8 where "VIRTIO_SND_PCM_FMT_S16_LE = 5"
definition VIRTIO_SND_PCM_RATE_44100 :: u8 where "VIRTIO_SND_PCM_RATE_44100 = 6"

definition PAGING_FLAG_CACHE_DISABLE :: u32 where "PAGING_FLAG_CACHE_DISABLE = 0x10"

text \<open>The offsets of the fields of \<^verbatim>\<open>virtio_pci_common_cfg_t\<close>, a packed struct.\<close>

definition cfg_device_feature_select :: u32 where "cfg_device_feature_select = 0"
definition cfg_device_feature :: u32 where "cfg_device_feature = 4"
definition cfg_driver_feature_select :: u32 where "cfg_driver_feature_select = 8"
definition cfg_driver_feature :: u32 where "cfg_driver_feature = 12"
definition cfg_num_queues :: u32 where "cfg_num_queues = 18"
definition cfg_device_status :: u32 where "cfg_device_status = 20"
definition cfg_queue_select :: u32 where "cfg_queue_select = 22"
definition cfg_queue_size :: u32 where "cfg_queue_size = 24"
definition cfg_queue_enable :: u32 where "cfg_queue_enable = 28"
definition cfg_queue_notify_off :: u32 where "cfg_queue_notify_off = 30"
definition cfg_queue_desc_low :: u32 where "cfg_queue_desc_low = 32"
definition cfg_queue_avail_low :: u32 where "cfg_queue_avail_low = 40"
definition cfg_queue_used_low :: u32 where "cfg_queue_used_low = 48"

lemmas cfg_offsets = cfg_device_feature_select_def cfg_device_feature_def cfg_driver_feature_select_def
  cfg_driver_feature_def cfg_num_queues_def cfg_device_status_def cfg_queue_select_def cfg_queue_size_def
  cfg_queue_enable_def cfg_queue_notify_off_def cfg_queue_desc_low_def cfg_queue_avail_low_def cfg_queue_used_low_def

section \<open>Registers\<close>

definition mmio_read :: "platform \<Rightarrow> nat \<Rightarrow> u32 \<Rightarrow> kernel \<Rightarrow> (u32 \<times> kernel) option" where
  "mmio_read pf w va k =
     map_option (\<lambda>pa. let v = take_bit (8 * w) (mm_read (p_mmio pf) (mmio k) w pa) in (v, k\<lparr>mmio := mmio k @ [MRead w pa v]\<rparr>))
       (translate (mem k) va)"

definition mmio_write :: "nat \<Rightarrow> u32 \<Rightarrow> u32 \<Rightarrow> kernel \<Rightarrow> kernel option" where
  "mmio_write w va v k =
     map_option (\<lambda>pa. k\<lparr>mmio := mmio k @ [MWrite w pa v (phys (mem k))]\<rparr>) (translate (mem k) va)"

definition cfg_read :: "platform \<Rightarrow> nat \<Rightarrow> u32 \<Rightarrow> kernel \<Rightarrow> (u32 \<times> kernel) option" where
  "cfg_read pf w field k = mmio_read pf w (virtio_sound_cfg k + field) k"

definition cfg_write :: "nat \<Rightarrow> u32 \<Rightarrow> u32 \<Rightarrow> kernel \<Rightarrow> kernel option" where
  "cfg_write w field v k = mmio_write w (virtio_sound_cfg k + field) v k"

text \<open>\<^verbatim>\<open>device_status |= bits\<close>: a read and a write.\<close>

definition status_or :: "platform \<Rightarrow> u32 \<Rightarrow> kernel \<Rightarrow> kernel option" where
  "status_or pf bits k =
     do {
       (v, k) \<leftarrow> cfg_read pf 1 cfg_device_status k;
       cfg_write 1 cfg_device_status (v OR bits) k
     }"

definition notify_queue :: "platform \<Rightarrow> u16 \<Rightarrow> kernel \<Rightarrow> kernel option" where
  "notify_queue pf queue_idx k =
     do {
       (off, k) \<leftarrow> cfg_read pf 2 cfg_queue_notify_off k;
       let notify_offset = off * notify_off_multiplier k;
       mmio_write 2 (notify_base_addr k + notify_offset) (ucast queue_idx) k
     }"

section \<open>Queues in memory\<close>

definition write_desc :: "u32 \<Rightarrow> u16 \<Rightarrow> u32 \<Rightarrow> u32 \<Rightarrow> u16 \<Rightarrow> u16 \<Rightarrow> 'a machine_state_scheme \<Rightarrow> 'a machine_state_scheme option" where
  "write_desc table idx addr len flags next s =
     do {
       let d = table + 16 * ucast idx;
       s \<leftarrow> vstore32 d addr s;
       s \<leftarrow> vstore32 (d + 4) 0 s;
       s \<leftarrow> vstore32 (d + 8) len s;
       s \<leftarrow> vstore16 (d + 12) flags s;
       vstore16 (d + 14) next s
     }"

text \<open>\<^verbatim>\<open>ring[idx % size] = head; idx++\<close>; a size of 0 is a division by zero.\<close>

definition make_available :: "u32 \<Rightarrow> u16 \<Rightarrow> u16 \<Rightarrow> 'a machine_state_scheme \<Rightarrow> 'a machine_state_scheme option" where
  "make_available avail sz head_idx s =
     do {
       idx \<leftarrow> vload16 s (avail + 2);
       s \<leftarrow> (if sz = 0 then None else vstore16 (avail + 4 + 2 * ucast (idx mod sz)) head_idx s);
       idx \<leftarrow> vload16 s (avail + 2);
       vstore16 (avail + 2) (idx + 1) s
     }"

text \<open>\<^verbatim>\<open>(i + 1) % size\<close>, computed in \<^verbatim>\<open>int\<close>.\<close>

definition next_idx :: "u16 \<Rightarrow> u16 \<Rightarrow> u16" where
  "next_idx i sz = ucast ((ucast i + 1 :: u32) mod ucast sz)"

definition set_queue :: "nat \<Rightarrow> (virtqueue_info_t \<Rightarrow> virtqueue_info_t) \<Rightarrow> kernel \<Rightarrow> kernel option" where
  "set_queue i f k =
     (if i < length (queues k) then Some (k\<lparr>queues := (queues k)[i := f (queues k ! i)]\<rparr>) else None)"

definition get_queue :: "nat \<Rightarrow> kernel \<Rightarrow> virtqueue_info_t option" where
  "get_queue i k = arr_get (queues k) (int i)"

text \<open>The value of \<^verbatim>\<open>used_ring->idx\<close>, after the device has written what it had to write.\<close>

definition read_used_idx :: "platform \<Rightarrow> nat \<Rightarrow> kernel \<Rightarrow> (u16 \<times> kernel) option" where
  "read_used_idx pf i k =
     do {
       q \<leftarrow> get_queue i k;
       let k = k\<lparr>mem := (mem k)\<lparr>phys := mm_dma (p_mmio pf) (mmio k) (phys (mem k))\<rparr>\<rparr>;
       v \<leftarrow> vload16 (mem k) (used_ring q + 2);
       Some (v, k)
     }"

partial_function (option) wait_used :: "platform \<Rightarrow> nat \<Rightarrow> kernel \<Rightarrow> kernel option" where
  "wait_used pf i k =
     do {
       (idx, k) \<leftarrow> read_used_idx pf i k;
       q \<leftarrow> get_queue i k;
       if last_used_idx q = idx then do { k \<leftarrow> kernel_sleep pf 1 k; wait_used pf i k }
       else Some k
     }"

text \<open>The command is an array of bytes; the result is the response.\<close>

definition virtq_send_command_sync ::
    "platform \<Rightarrow> nat \<Rightarrow> bytes \<Rightarrow> nat \<Rightarrow> kernel \<Rightarrow> (bytes \<times> kernel) option" where
  "virtq_send_command_sync pf q_idx cmd resp_size k =
     do {
       let cmd_size = length cmd;
       k \<leftarrow> do_mem (copy_out cmd_size (p_vdma pf) cmd) k;
       let dma_resp_phys_addr = p_vdma pf + of_nat cmd_size;
       q \<leftarrow> get_queue q_idx k;
       let head_idx = next_avail_idx q;
       resp_idx \<leftarrow> (if q_size q = 0 then None else Some (next_idx head_idx (q_size q)));
       k \<leftarrow> do_mem (write_desc (desc_table q) head_idx (p_vdma pf) (of_nat cmd_size) VIRTQ_DESC_F_NEXT resp_idx) k;
       k \<leftarrow> do_mem (write_desc (desc_table q) resp_idx dma_resp_phys_addr (of_nat resp_size) VIRTQ_DESC_F_WRITE 0) k;
       k \<leftarrow> do_mem (make_available (avail_ring q) (q_size q) head_idx) k;
       k \<leftarrow> set_queue q_idx (\<lambda>q. q\<lparr>next_avail_idx := next_idx resp_idx (q_size q)\<rparr>) k;
       k \<leftarrow> notify_queue pf (of_nat q_idx) k;
       k \<leftarrow> wait_used pf q_idx k;
       k \<leftarrow> set_queue q_idx (\<lambda>q. q\<lparr>last_used_idx := last_used_idx q + 1\<rparr>) k;
       resp \<leftarrow> vload_bytes resp_size dma_resp_phys_addr (mem k);
       Some (resp, k)
     }"

definition virtq_send_buffer :: "platform \<Rightarrow> nat \<Rightarrow> u32 \<Rightarrow> u32 \<Rightarrow> kernel \<Rightarrow> kernel option" where
  "virtq_send_buffer pf q_idx data len k =
     do {
       q \<leftarrow> get_queue q_idx k;
       let head_idx = next_avail_idx q;
       k \<leftarrow> do_mem (write_desc (desc_table q) head_idx data len 0 0) k;
       k \<leftarrow> do_mem (make_available (avail_ring q) (q_size q) head_idx) k;
       k \<leftarrow> set_queue q_idx (\<lambda>q. q\<lparr>next_avail_idx := next_idx head_idx (q_size q)\<rparr>) k;
       notify_queue pf (of_nat q_idx) k
     }"

section \<open>Initialisation\<close>

text \<open>The frames of a queue, their registration and the addresses given to the device.\<close>

definition alloc_queue :: "kernel \<Rightarrow> ((u32 \<times> u32 \<times> u32) \<times> kernel) option" where
  "alloc_queue k =
     do {
       (d, k) \<leftarrow> on_mem pmm_alloc_frame k;
       (a, k) \<leftarrow> on_mem pmm_alloc_frame k;
       (u, k) \<leftarrow> on_mem pmm_alloc_frame k;
       Some ((d, a, u), k)
     }"

definition store_queue :: "nat \<Rightarrow> u32 \<times> u32 \<times> u32 \<Rightarrow> u16 \<Rightarrow> kernel \<Rightarrow> kernel option" where
  "store_queue i frames sz k =
     (case frames of (d, a, u) \<Rightarrow>
        set_queue i (\<lambda>q. q\<lparr>desc_table := d, avail_ring := a, used_ring := u, q_size := sz,
          last_used_idx := 0, next_avail_idx := 0\<rparr>) k)"

definition program_queue :: "u32 \<times> u32 \<times> u32 \<Rightarrow> kernel \<Rightarrow> kernel option" where
  "program_queue frames k =
     (case frames of (d, a, u) \<Rightarrow>
        do {
          k \<leftarrow> cfg_write 4 cfg_queue_desc_low d k;
          k \<leftarrow> cfg_write 4 cfg_queue_avail_low a k;
          cfg_write 4 cfg_queue_used_low u k
        })"

text \<open>The feature negotiation; \<^term>\<open>False\<close>: the device rejected the features.\<close>

definition negotiate :: "platform \<Rightarrow> kernel \<Rightarrow> (bool \<times> kernel) option" where
  "negotiate pf k =
     do {
       k \<leftarrow> cfg_write 4 cfg_device_feature_select 1 k;
       (features_high, k) \<leftarrow> cfg_read pf 4 cfg_device_feature k;
       if features_high AND push_bit (VIRTIO_F_VERSION_1 - 32) 1 \<noteq> 0 then do {
         let k = print_lit (''  Device is VIRTIO_F_VERSION_1 compliant.'' @ nl) k;
         k \<leftarrow> cfg_write 4 cfg_driver_feature_select 1 k;
         k \<leftarrow> cfg_write 4 cfg_driver_feature (push_bit (VIRTIO_F_VERSION_1 - 32) 1) k;
         k \<leftarrow> status_or pf VIRTIO_STATUS_FEATURES_OK k;
         let k = print_lit (''  Status set to FEATURES_OK.'' @ nl) k;
         (st, k) \<leftarrow> cfg_read pf 1 cfg_device_status k;
         if st AND VIRTIO_STATUS_FEATURES_OK = 0 then do {
           let k = print_lit (''  ERROR: Device rejected features!'' @ nl) k;
           k \<leftarrow> status_or pf VIRTIO_STATUS_FAILED k;
           Some (False, k)
         }
         else Some (True, k)
       }
       else do {
         let k = print_lit (''  Device is legacy. Omitting FEATURES_OK.'' @ nl) k;
         k \<leftarrow> cfg_write 4 cfg_driver_feature_select 0 k;
         k \<leftarrow> cfg_write 4 cfg_driver_feature 0 k;
         Some (True, k)
       }
     }"

definition setup_queues :: "platform \<Rightarrow> kernel \<Rightarrow> kernel option" where
  "setup_queues pf k =
     do {
       let k = print_lit (''  Setting up virtqueues...'' @ nl) k;
       (num_queues, k) \<leftarrow> cfg_read pf 2 cfg_num_queues k;
       let k = print_lit '' queues.'' (print_dec num_queues (print_lit ''    Device has '' k));
       let k = print_lit nl k;
       k \<leftarrow> cfg_write 2 cfg_queue_select 0 k;
       (q0_size, k) \<leftarrow> cfg_read pf 2 cfg_queue_size k;
       let k = print_lit nl (print_dec q0_size (print_lit ''    Queue 0 (Control) size: '' k));
       if q0_size = 0 then Some (print_lit (''    ERROR: Queue 0 (Control) not available!'' @ nl) k)
       else do {
         (q0, k) \<leftarrow> alloc_queue k;
         let k = print_lit (''    Virtqueue memory allocated.'' @ nl) k;
         k \<leftarrow> store_queue 0 q0 (ucast q0_size) k;
         k \<leftarrow> program_queue q0 k;
         let k = print_lit (''    Device notified of queue addresses.'' @ nl) k;
         k \<leftarrow> cfg_write 2 cfg_queue_enable 1 k;
         let k = print_lit (''    Queue 0 (Control) is now enabled.'' @ nl) k;
         k \<leftarrow> cfg_write 2 cfg_queue_select 2 k;
         (q2_size, k) \<leftarrow> cfg_read pf 2 cfg_queue_size k;
         let k = print_lit nl (print_dec q2_size (print_lit ''    Queue 2 (Playback) size: '' k));
         (q2, k) \<leftarrow> alloc_queue k;
         k \<leftarrow> store_queue 2 q2 (ucast q2_size) k;
         k \<leftarrow> program_queue q2 k;
         k \<leftarrow> cfg_write 2 cfg_queue_enable 1 k;
         let k = print_lit (''    Queue 2 (Playback) is now enabled.'' @ nl) k;
         k \<leftarrow> status_or pf VIRTIO_STATUS_DRIVER_OK k;
         Some (print_lit (''  Status set to DRIVER_OK. Device is live!'' @ nl) k)
       }
     }"

definition virtio_sound_init :: "platform \<Rightarrow> u32 \<Rightarrow> u32 \<Rightarrow> u32 \<Rightarrow> kernel \<Rightarrow> kernel option" where
  "virtio_sound_init pf cfg notify_base multiplier k =
     do {
       let k = print_lit (''Initializing virtio-sound driver...'' @ nl) k;
       let k = k\<lparr>virtio_sound_cfg := cfg, notify_base_addr := notify_base, notify_off_multiplier := multiplier\<rparr>;
       let dma_addr = p_vdma pf;
       k \<leftarrow> do_mem (\<lambda>m. paging_map_page (kernel_directory m) dma_addr dma_addr
              (PAGING_FLAG_PRESENT OR PAGING_FLAG_RW OR PAGING_FLAG_CACHE_DISABLE) m) k;
       k \<leftarrow> cfg_write 1 cfg_device_status 0 k;
       let k = print_lit (''  Device reset.'' @ nl) k;
       k \<leftarrow> status_or pf VIRTIO_STATUS_ACKNOWLEDGE k;
       let k = print_lit (''  Status set to ACKNOWLEDGE.'' @ nl) k;
       k \<leftarrow> status_or pf VIRTIO_STATUS_DRIVER k;
       let k = print_lit (''  Status set to DRIVER.'' @ nl) k;
       (ok, k) \<leftarrow> negotiate pf k;
       if ok then setup_queues pf k else Some k
     }"

section \<open>Sound\<close>

text \<open>
  The bytes of the two kinds of commands. The padding byte of the parameter command is not
  initialised by the code: it is an argument.
\<close>

definition pcm_cmd :: "u32 \<Rightarrow> u32 \<Rightarrow> bytes" where
  "pcm_cmd code stream_id = word_bytes code @ word_bytes stream_id"

definition set_params_cmd :: "u8 \<Rightarrow> u32 \<Rightarrow> bytes" where
  "set_params_cmd padding stream_id =
     pcm_cmd VIRTIO_SND_R_PCM_SET_PARAMS stream_id @ word_bytes 4096 @ word_bytes 2048 @ word_bytes 0 @
     [2, VIRTIO_SND_PCM_FMT_S16_LE, VIRTIO_SND_PCM_RATE_44100, padding]"

text \<open>\<^verbatim>\<open>int16_t amplitude = 80000\<close> keeps the low sixteen bits.\<close>

definition sample_value :: "u32 \<Rightarrow> u16" where
  "sample_value i =
     (let amplitude = word_of_int 80000 :: u16;
          period_frames = 44100 div 440 :: u32
      in if i mod period_frames < period_frames div 2 then amplitude else - amplitude)"

fun fill_audio :: "nat \<Rightarrow> u32 \<Rightarrow> u32 \<Rightarrow> 'a machine_state_scheme \<Rightarrow> 'a machine_state_scheme option" where
  "fill_audio 0 i buf s = Some s"
| "fill_audio (Suc n) i buf s =
     do {
       s \<leftarrow> vstore16 (buf + 2 * (i * 2 + 0)) (sample_value i) s;
       s \<leftarrow> vstore16 (buf + 2 * (i * 2 + 1)) (sample_value i) s;
       fill_audio n (i + 1) buf s
     }"

definition send_pcm :: "platform \<Rightarrow> string \<Rightarrow> u32 \<Rightarrow> string \<Rightarrow> kernel \<Rightarrow> kernel option" where
  "send_pcm pf before code after k =
     do {
       (resp, k) \<leftarrow> virtq_send_command_sync pf 0 (pcm_cmd code 0) 4 (print_lit before k);
       Some (print_lit after k)
     }"

definition virtio_sound_beep :: "platform \<Rightarrow> u8 \<Rightarrow> kernel \<Rightarrow> kernel option" where
  "virtio_sound_beep pf padding k =
     do {
       let stream_id = 0;
       let k = print_lit (nl @ ''  Sending SET_PARAMS command...'') k;
       (params_resp, k) \<leftarrow> virtq_send_command_sync pf 0 (set_params_cmd padding stream_id) 4 k;
       let k = print_lit '' complete.'' k;
       k \<leftarrow> send_pcm pf (nl @ ''  Sending PREPARE command...'') VIRTIO_SND_R_PCM_PREPARE '' complete.'' k;
       k \<leftarrow> send_pcm pf (nl @ ''  Sending START command...'') VIRTIO_SND_R_PCM_START '' complete. Stream is active.'' k;
       let k = print_lit (nl @ ''  Generating and sending audio buffer...'') k;
       let audio_buffer = p_vdma pf;
       let buffer_size_bytes = 2048;
       k \<leftarrow> do_mem (fill_audio (unat (buffer_size_bytes div 4 :: u32)) 0 audio_buffer) k;
       let k = print_lit (nl @ ''  DEBUG: Before send, Queue 2 used_ring->idx is: '') k;
       (idx, k) \<leftarrow> read_used_idx pf 2 k;
       let k = print_dec (ucast idx) k;
       k \<leftarrow> virtq_send_buffer pf 2 audio_buffer buffer_size_bytes k;
       k \<leftarrow> kernel_sleep pf 1000 k;
       (idx, k) \<leftarrow> read_used_idx pf 2 k;
       let k = print_dec (ucast idx) k;
       let k = print_lit '' complete.'' k;
       k \<leftarrow> send_pcm pf (nl @ ''  Sending STOP command...'') VIRTIO_SND_R_PCM_STOP '' complete.'' k;
       send_pcm pf (nl @ ''  Sending RELEASE command...'') VIRTIO_SND_R_PCM_RELEASE ('' complete. Stream is inactive.'' @ nl) k
     }"

definition virtio_sound_probe :: "platform \<Rightarrow> kernel \<Rightarrow> kernel option" where
  "virtio_sound_probe pf k =
     (if virtio_sound_cfg k = 0
      then Some (print_lit (''  ERROR: virtio_sound_cfg is NULL. Was init successful?'' @ nl) k)
      else do {
        let k = print_lit ''  Device Status: 0x'' k;
        (st, k) \<leftarrow> cfg_read pf 1 cfg_device_status k;
        let k = print_hex st k;
        let k = print_lit (nl @ ''  Number of Queues: '') k;
        (n, k) \<leftarrow> cfg_read pf 2 cfg_num_queues k;
        let k = print_dec n k;
        let k = print_lit (nl @ ''  Device Features (Low 32 bits): 0x'') k;
        k \<leftarrow> cfg_write 4 cfg_device_feature_select 0 k;
        (f, k) \<leftarrow> cfg_read pf 4 cfg_device_feature k;
        let k = print_hex f k;
        Some (print_lit nl k)
      })"

end
