(* ===== verification/Pci.thy ===== *)
theory Pci
  imports Virtio
begin

text \<open>
  The PCI bus: \<^verbatim>\<open>kernel/drivers/pci.c\<close>. Configuration space is reached through two 32-bit
  ports; the scan looks for the virtio sound device, maps its registers and starts the
  driver. The capability list of a device is a linked list in its configuration space:
  a list that never reaches a null pointer makes the search run forever (\<^term>\<open>None\<close>).
\<close>

section \<open>Constants\<close>

definition PCI_CONFIG_ADDR :: u16 where "PCI_CONFIG_ADDR = 0xCF8"
definition PCI_CONFIG_DATA :: u16 where "PCI_CONFIG_DATA = 0xCFC"
definition VIRTIO_VENDOR_ID :: u32 where "VIRTIO_VENDOR_ID = 0x1AF4"
definition VIRTIO_DEV_ID_SOUND :: u32 where "VIRTIO_DEV_ID_SOUND = 0x1059"
definition VIRTIO_PCI_CAP_COMMON_CFG :: u8 where "VIRTIO_PCI_CAP_COMMON_CFG = 1"
definition VIRTIO_PCI_CAP_NOTIFY_CFG :: u8 where "VIRTIO_PCI_CAP_NOTIFY_CFG = 2"
definition VIRTIO_SND_VIRT_ADDR :: u32 where "VIRTIO_SND_VIRT_ADDR = 0xE0000000"
definition VIRTIO_SND_NOTIFY_VIRT_ADDR :: u32 where "VIRTIO_SND_NOTIFY_VIRT_ADDR = 0xE0001000"

text \<open>The members of \<^verbatim>\<open>virtio_pci_cap_t\<close> that the search fills in.\<close>

record virtio_pci_cap_t =
  cap_type :: u8
  cap_bar :: u8
  cap_offset :: u32
  cap_length :: u32

section \<open>Configuration space\<close>

definition port_long_out :: "u16 \<Rightarrow> u32 \<Rightarrow> 'a io_state_scheme \<Rightarrow> 'a io_state_scheme" where
  "port_long_out port data s = s\<lparr>io_trace := io_trace s @ [OutL port data]\<rparr>"

definition port_long_in :: "device \<Rightarrow> u16 \<Rightarrow> 'a io_state_scheme \<Rightarrow> u32 \<times> 'a io_state_scheme" where
  "port_long_in dev port s =
     (let result = dev_inl dev (io_trace s) port
      in (result, s\<lparr>io_trace := io_trace s @ [InL port result]\<rparr>))"

definition pci_address :: "u8 \<Rightarrow> u8 \<Rightarrow> u8 \<Rightarrow> u8 \<Rightarrow> u32" where
  "pci_address bus slot func offset =
     push_bit 16 (ucast bus) OR push_bit 11 (ucast slot) OR push_bit 8 (ucast func) OR
     ucast (offset AND 0xFC) OR 0x80000000"

definition pci_config_read_word ::
    "device \<Rightarrow> u8 \<Rightarrow> u8 \<Rightarrow> u8 \<Rightarrow> u8 \<Rightarrow> 'a io_state_scheme \<Rightarrow> u32 \<times> 'a io_state_scheme" where
  "pci_config_read_word dev bus slot func offset s =
     port_long_in dev PCI_CONFIG_DATA (port_long_out PCI_CONFIG_ADDR (pci_address bus slot func offset) s)"

definition pci_config_write_word ::
    "u8 \<Rightarrow> u8 \<Rightarrow> u8 \<Rightarrow> u8 \<Rightarrow> u32 \<Rightarrow> 'a io_state_scheme \<Rightarrow> 'a io_state_scheme" where
  "pci_config_write_word bus slot func offset value s =
     port_long_out PCI_CONFIG_DATA value (port_long_out PCI_CONFIG_ADDR (pci_address bus slot func offset) s)"

definition pci_config_read_byte ::
    "device \<Rightarrow> u8 \<Rightarrow> u8 \<Rightarrow> u8 \<Rightarrow> u8 \<Rightarrow> 'a io_state_scheme \<Rightarrow> u8 \<times> 'a io_state_scheme" where
  "pci_config_read_byte dev bus slot func offset s =
     (let (word, s) = pci_config_read_word dev bus slot func (offset AND 0xFC) s
      in (ucast (drop_bit (unat (offset AND 3) * 8) word AND 0xFF), s))"

text \<open>The search through the capability list, and its loop from a capability on.\<close>

partial_function (option) find_capability_from ::
    "device \<Rightarrow> u8 \<Rightarrow> u8 \<Rightarrow> u8 \<Rightarrow> u8 \<Rightarrow> u8 \<Rightarrow> 'a io_state_scheme \<Rightarrow>
     (virtio_pci_cap_t option \<times> 'a io_state_scheme) option" where
  "find_capability_from dev bus slot func cap_id cap_ptr s =
     (if cap_ptr = 0 then Some (None, s)
      else
        let (current_cap_id, s) = pci_config_read_byte dev bus slot func cap_ptr s;
            (found, s) =
              (if current_cap_id = 0x09 then
                 let (type, s) = pci_config_read_byte dev bus slot func (cap_ptr + 3) s
                 in if type = cap_id then
                      let (bar, s) = pci_config_read_byte dev bus slot func (cap_ptr + 4) s;
                          (offset, s) = pci_config_read_word dev bus slot func (cap_ptr + 8) s;
                          (len, s) = pci_config_read_word dev bus slot func (cap_ptr + 12) s
                      in (Some \<lparr>cap_type = type, cap_bar = bar, cap_offset = offset, cap_length = len\<rparr>, s)
                    else (None, s)
               else (None, s))
        in case found of
             Some cap \<Rightarrow> Some (Some cap, s)
           | None \<Rightarrow>
               (let (next, s) = pci_config_read_byte dev bus slot func (cap_ptr + 1) s
                in find_capability_from dev bus slot func cap_id next s))"

definition pci_find_capability ::
    "device \<Rightarrow> u8 \<Rightarrow> u8 \<Rightarrow> u8 \<Rightarrow> u8 \<Rightarrow> 'a io_state_scheme \<Rightarrow>
     (virtio_pci_cap_t option \<times> 'a io_state_scheme) option" where
  "pci_find_capability dev bus slot func cap_id s =
     (let (cap_ptr, s) = pci_config_read_byte dev bus slot func 0x34 s
      in find_capability_from dev bus slot func cap_id cap_ptr s)"

section \<open>The scan\<close>

text \<open>The first device with the wanted identification, in the order of the two loops.\<close>

definition pci_slots :: "(u8 \<times> u8) list" where
  "pci_slots = [(of_nat bus, of_nat slot). bus \<leftarrow> [0..<256], slot \<leftarrow> [0..<32]]"

definition is_virtio_sound :: "u32 \<Rightarrow> bool" where
  "is_virtio_sound first_dword \<longleftrightarrow>
     first_dword AND 0xFFFF = VIRTIO_VENDOR_ID \<and> drop_bit 16 first_dword = VIRTIO_DEV_ID_SOUND"

fun scan_slots :: "device \<Rightarrow> (u8 \<times> u8) list \<Rightarrow> 'a io_state_scheme \<Rightarrow> (u8 \<times> u8) option \<times> 'a io_state_scheme" where
  "scan_slots dev [] s = (None, s)"
| "scan_slots dev ((bus, slot) # rest) s =
     (let (first_dword, s) = pci_config_read_word dev bus slot 0 0 s
      in if is_virtio_sound first_dword then (Some (bus, slot), s) else scan_slots dev rest s)"

text \<open>The base address register number \<^verbatim>\<open>bar\<close>, plus the offset of a capability.\<close>

definition cap_address :: "device \<Rightarrow> u8 \<Rightarrow> u8 \<Rightarrow> virtio_pci_cap_t \<Rightarrow> 'a io_state_scheme \<Rightarrow> u32 \<times> 'a io_state_scheme" where
  "cap_address dev bus slot cap s =
     (let (bar_val, s) = pci_config_read_word dev bus slot 0 (0x10 + cap_bar cap * 4) s
      in ((bar_val AND NOT 0xF) + cap_offset cap, s))"

definition map_device :: "u32 \<Rightarrow> u32 \<Rightarrow> kernel \<Rightarrow> kernel option" where
  "map_device virt_addr phys_addr k =
     do_mem (\<lambda>m. paging_map_page (kernel_directory m) virt_addr phys_addr
       (PAGING_FLAG_PRESENT OR PAGING_FLAG_RW OR PAGING_FLAG_CACHE_DISABLE) m) k"

text \<open>What the scan does with the device it found.\<close>

definition start_device :: "platform \<Rightarrow> u8 \<Rightarrow> u8 \<Rightarrow> kernel \<Rightarrow> kernel option" where
  "start_device pf bus slot k =
     do {
       let k = print_lit (''  Found virtio-sound device!'' @ nl) k;
       (common_cap, k) \<leftarrow> pci_find_capability (p_dev pf) bus slot 0 VIRTIO_PCI_CAP_COMMON_CFG k;
       case common_cap of
         None \<Rightarrow> Some (print_lit (''    ERROR: Could not find Common Config capability!'' @ nl) k)
       | Some common_cap \<Rightarrow> do {
           let k = print_lit (''    Found Common Config capability.'' @ nl) k;
           let (phys_addr, k) = cap_address (p_dev pf) bus slot common_cap k;
           let k = print_lit nl (print_hex phys_addr (print_lit ''    Mapping registers at physical 0x'' k));
           k \<leftarrow> map_device VIRTIO_SND_VIRT_ADDR phys_addr k;
           (notify_cap, k) \<leftarrow> pci_find_capability (p_dev pf) bus slot 0 VIRTIO_PCI_CAP_NOTIFY_CFG k;
           case notify_cap of
             None \<Rightarrow> Some (print_lit (''    ERROR: Could not find Notification capability!'' @ nl) k)
           | Some notify_cap \<Rightarrow> do {
               let (notify_phys_addr, k) = cap_address (p_dev pf) bus slot notify_cap k;
               k \<leftarrow> map_device VIRTIO_SND_NOTIFY_VIRT_ADDR notify_phys_addr k;
               (multiplier, k) \<leftarrow> mmio_read pf 4 VIRTIO_SND_NOTIFY_VIRT_ADDR k;
               virtio_sound_init pf VIRTIO_SND_VIRT_ADDR VIRTIO_SND_NOTIFY_VIRT_ADDR multiplier k
             }
         }
     }"

definition pci_scan :: "platform \<Rightarrow> kernel \<Rightarrow> kernel option" where
  "pci_scan pf k =
     (let k = print_lit (''Scanning PCI bus...'' @ nl) k;
          (dev, k) = scan_slots (p_dev pf) pci_slots k
      in case dev of
           Some (bus, slot) \<Rightarrow> start_device pf bus slot k
         | None \<Rightarrow> Some (print_lit (''  virtio-sound device not found.'' @ nl) k))"

section \<open>The host bridge\<close>

text \<open>
  Configuration mechanism 1 of the PCI local bus specification: an address with the enable
  bit selects bus, device, function and a four-byte register; reading the data port returns
  that register, least significant byte first. The configuration spaces are given byte by byte.
\<close>

type_synonym pci_spaces = "u8 \<Rightarrow> u8 \<Rightarrow> u8 \<Rightarrow> u8 \<Rightarrow> u8"

definition pci_register :: "pci_spaces \<Rightarrow> u8 \<times> u8 \<times> u8 \<times> u8 \<Rightarrow> u32" where
  "pci_register sp t =
     (case t of (bus, slot, func, r) \<Rightarrow>
        ucast (sp bus slot func r) OR push_bit 8 (ucast (sp bus slot func (r + 1))) OR
        push_bit 16 (ucast (sp bus slot func (r + 2))) OR push_bit 24 (ucast (sp bus slot func (r + 3))))"

definition pci_target :: "u32 \<Rightarrow> u8 \<times> u8 \<times> u8 \<times> u8" where
  "pci_target a =
     (ucast (drop_bit 16 a), ucast (drop_bit 11 a AND 0x1F), ucast (drop_bit 8 a AND 0x7), ucast (a AND 0xFC))"

definition host_bridge :: "pci_spaces \<Rightarrow> device \<Rightarrow> bool" where
  "host_bridge sp dev \<longleftrightarrow>
     (\<forall>tr a. bit a 31 \<longrightarrow> dev_inl dev (tr @ [OutL PCI_CONFIG_ADDR a]) PCI_CONFIG_DATA = pci_register sp (pci_target a))"

lemma mask_literals:
  "(0xFF :: u32) = mask 8" "(0x1F :: u32) = mask 5" "(0x7 :: u32) = mask 3" "(0xFF :: u8) = mask 8" "(3 :: u8) = mask 2"
  by (simp_all add: mask_eq_exp_minus_1)

lemma bit_0xFC: "bit (0xFC :: 'a::len word) n \<longleftrightarrow> n < LENGTH('a) \<and> 2 \<le> n \<and> n < 8"
proof -
  have e: "(0xFC :: 'a word) = push_bit 2 (mask 6)" by (simp add: mask_eq_exp_minus_1 push_bit_eq_mult)
  show ?thesis unfolding e bit_push_bit_iff bit_mask_iff by auto
qed

lemma bit_0x80000000: "bit (0x80000000 :: u32) n \<longleftrightarrow> n = 31"
proof -
  have e: "(0x80000000 :: u32) = push_bit 31 1" by (simp add: push_bit_eq_mult)
  show ?thesis unfolding e bit_push_bit_iff bit_1_iff by auto
qed

lemma bit_enable_int:
  "bit (0x8000 :: int) n \<longleftrightarrow> n = 15" "bit (0x100000 :: int) n \<longleftrightarrow> n = 20" "bit (0x800000 :: int) n \<longleftrightarrow> n = 23"
  "bit (0x80000000 :: int) n \<longleftrightarrow> n = 31"
proof -
  have e: "(0x8000 :: int) = push_bit 15 1" "(0x100000 :: int) = push_bit 20 1" "(0x800000 :: int) = push_bit 23 1"
    "(0x80000000 :: int) = push_bit 31 1"
    by (simp_all add: push_bit_eq_mult)
  show "bit (0x8000 :: int) n \<longleftrightarrow> n = 15" "bit (0x100000 :: int) n \<longleftrightarrow> n = 20" "bit (0x800000 :: int) n \<longleftrightarrow> n = 23"
  "bit (0x80000000 :: int) n \<longleftrightarrow> n = 31"
    unfolding e bit_push_bit_iff bit_1_iff by auto
qed

lemma bit_u8_small:
  assumes "(x :: u8) < 2 ^ k" and "k < 8" and "bit x n"
  shows "n < k"
proof -
  have "take_bit k x = x" using assms by (simp add: take_bit_eq_mod mod_word_less)
  with assms(3) show ?thesis by (metis bit_take_bit_iff)
qed

lemma pci_target_address [simp]:
  assumes "slot < 32" and "func < 8"
  shows "pci_target (pci_address bus slot func offset) = (bus, slot, func, offset AND 0xFC)"
proof -
  have s: "n < 5" if "bit slot n" for n using bit_u8_small [of slot 5 n] assms(1) that by simp
  have f: "n < 3" if "bit func n" for n using bit_u8_small [of func 3 n] assms(2) that by simp
  note b = bit_and_iff bit_or_iff bit_push_bit_iff bit_drop_bit_eq bit_unsigned_iff bit_0xFC bit_0x80000000 bit_enable_int bit_mask_iff
  have l: "n < 8" if "bit (x :: u8) n" for n x using that bit_imp_le_length [of x n] by simp
  have "ucast (drop_bit 16 (pci_address bus slot func offset)) = bus"
    unfolding pci_address_def by (rule bit_word_eqI) (auto simp: b dest: s f l)
  moreover have "ucast (drop_bit 11 (pci_address bus slot func offset) AND 0x1F) = slot"
    unfolding pci_address_def mask_literals by (rule bit_word_eqI) (auto simp: b dest: s f l)
  moreover have "ucast (drop_bit 8 (pci_address bus slot func offset) AND 0x7) = func"
    unfolding pci_address_def mask_literals by (rule bit_word_eqI) (auto simp: b dest: s f l)
  moreover have "ucast (pci_address bus slot func offset AND 0xFC) = offset AND 0xFC"
    unfolding pci_address_def by (rule bit_word_eqI) (auto simp: b dest: s f l)
  ultimately show ?thesis by (simp add: pci_target_def)
qed

lemma pci_address_enabled [simp]: "bit (pci_address bus slot func offset) 31"
  by (simp add: pci_address_def bit_or_iff bit_0x80000000)

lemma offset_cases:
  fixes o' :: u8
  defines "r \<equiv> o' AND 0xFC"
  obtains "o' = r" "o' AND 3 = 0" | "o' = r + 1" "o' AND 3 = 1" | "o' = r + 2" "o' AND 3 = 2" | "o' = r + 3" "o' AND 3 = 3"
proof -
  have "o' = (o' AND 0xFC) OR (o' AND 3)"
    by (rule bit_word_eqI, unfold bit_and_iff bit_or_iff bit_0xFC mask_literals bit_mask_iff) auto
  also have "\<dots> = (o' AND 0xFC) + (o' AND 3)"
    by (rule disjunctive_add_eq_or [symmetric], rule bit_word_eqI, unfold bit_and_iff bit_0xFC mask_literals bit_mask_iff) auto
  finally have sum: "o' = r + (o' AND 3)" by (simp add: r_def)
  have "o' AND 3 < 4" by (simp add: mask_literals flip: take_bit_eq_mask) (simp add: take_bit_eq_mod word_mod_less_divisor)
  then have "unat (o' AND 3) < 4" by (simp add: word_less_nat_alt)
  then have "unat (o' AND 3) \<in> {0, 1, 2, 3}" by auto
  then have "(of_nat (unat (o' AND 3)) :: u8) \<in> of_nat ` {0, 1, 2, 3}" by blast
  then have "o' AND 3 \<in> {0, 1, 2, 3}" by simp
  then show thesis using sum that by auto
qed

lemma join_bytes:
  fixes a b c d :: u8
  defines "w \<equiv> ucast a OR push_bit 8 (ucast b) OR push_bit 16 (ucast c) OR push_bit 24 (ucast d) :: u32"
  shows "(ucast (w AND 0xFF) :: u8) = a" "(ucast (drop_bit 8 w AND 0xFF) :: u8) = b"
    "(ucast (drop_bit 16 w AND 0xFF) :: u8) = c" "(ucast (drop_bit 24 w AND 0xFF) :: u8) = d"
proof -
  have l: "n < 8" if "bit (x :: u8) n" for n x using that bit_imp_le_length [of x n] by simp
  note b = bit_and_iff bit_or_iff bit_push_bit_iff bit_drop_bit_eq bit_unsigned_iff bit_mask_iff comp_def
  show "(ucast (w AND 0xFF) :: u8) = a" "(ucast (drop_bit 8 w AND 0xFF) :: u8) = b"
    "(ucast (drop_bit 16 w AND 0xFF) :: u8) = c" "(ucast (drop_bit 24 w AND 0xFF) :: u8) = d"
    unfolding w_def mask_literals by (rule bit_word_eqI; auto simp: b dest: l)+
qed

lemma pci_register_byte:
  "ucast (drop_bit (unat (offset AND 3) * 8) (pci_register sp (bus, slot, func, offset AND 0xFC)) AND 0xFF)
     = sp bus slot func offset"
proof -
  define r where "r = offset AND 0xFC"
  note reg = pci_register_def [of sp "(bus, slot, func, r)", simplified]
  have "ucast (drop_bit (unat (offset AND 3) * 8) (pci_register sp (bus, slot, func, r)) AND 0xFF) = sp bus slot func offset"
  proof (cases rule: offset_cases [of offset, folded r_def])
    case 1 then show ?thesis unfolding reg using join_bytes(1) by simp
  next
    case 2 then show ?thesis unfolding reg using join_bytes(2) by simp
  next
    case 3 then show ?thesis unfolding reg using join_bytes(3) by simp
  next
    case 4 then show ?thesis unfolding reg using join_bytes(4) by simp
  qed
  then show ?thesis by (simp add: r_def)
qed

section \<open>Finding a capability\<close>

text \<open>Accesses to ports change the trace only, and only by adding to it.\<close>

definition trace_extends :: "'a io_state_scheme \<Rightarrow> 'a io_state_scheme \<Rightarrow> bool" where
  "trace_extends s s' \<longleftrightarrow> (\<exists>tr. s' = s\<lparr>io_trace := io_trace s @ tr\<rparr>)"

lemma trace_extends_refl [simp]: "trace_extends s s"
  by (auto simp: trace_extends_def intro: exI [of _ "[]"])

lemma trace_extends_trans [trans]: "trace_extends s t \<Longrightarrow> trace_extends t u \<Longrightarrow> trace_extends s u"
  by (auto simp: trace_extends_def)

lemma read_word_bridge:
  assumes "host_bridge sp dev" and "slot < 32" and "func < 8"
  obtains s' where "pci_config_read_word dev bus slot func offset s = (pci_register sp (bus, slot, func, offset AND 0xFC), s')"
    and "trace_extends s s'"
  using assms
  by (auto simp: pci_config_read_word_def port_long_in_def port_long_out_def host_bridge_def trace_extends_def Let_def)

lemma read_byte_bridge:
  assumes "host_bridge sp dev" and "slot < 32" and "func < 8"
  obtains s' where "pci_config_read_byte dev bus slot func offset s = (sp bus slot func offset, s')"
    and "trace_extends s s'"
proof -
  obtain s' where "pci_config_read_word dev bus slot func (offset AND 0xFC) s =
      (pci_register sp (bus, slot, func, (offset AND 0xFC) AND 0xFC), s')" and "trace_extends s s'"
    by (rule read_word_bridge [OF assms])
  then have "pci_config_read_byte dev bus slot func offset s = (sp bus slot func offset, s')"
    using pci_register_byte [of offset sp bus slot func] by (simp add: pci_config_read_byte_def and.assoc)
  then show thesis using \<open>trace_extends s s'\<close> by (rule that)
qed

text \<open>
  The capabilities that the list of a device holds, by the positions of their headers, and
  what the configuration space says of the one at a position.
\<close>

fun cap_list :: "(u8 \<Rightarrow> u8) \<Rightarrow> u8 \<Rightarrow> u8 list \<Rightarrow> bool" where
  "cap_list cs p [] \<longleftrightarrow> p = 0"
| "cap_list cs p (q # qs) \<longleftrightarrow> p = q \<and> q \<noteq> 0 \<and> cap_list cs (cs (q + 1)) qs"

definition cap_matches :: "(u8 \<Rightarrow> u8) \<Rightarrow> u8 \<Rightarrow> u8 \<Rightarrow> bool" where
  "cap_matches cs cap_id p \<longleftrightarrow> cs p = 9 \<and> cs (p + 3) = cap_id"

definition cap_at :: "pci_spaces \<Rightarrow> u8 \<Rightarrow> u8 \<Rightarrow> u8 \<Rightarrow> u8 \<Rightarrow> virtio_pci_cap_t" where
  "cap_at sp bus slot func p =
     \<lparr>cap_type = sp bus slot func (p + 3), cap_bar = sp bus slot func (p + 4),
      cap_offset = pci_register sp (bus, slot, func, (p + 8) AND 0xFC),
      cap_length = pci_register sp (bus, slot, func, (p + 12) AND 0xFC)\<rparr>"

lemma find_capability_from_correct:
  assumes h: "host_bridge sp dev" "slot < 32" "func < 8" and "cap_list (sp bus slot func) p ps"
  shows "\<exists>s'. find_capability_from dev bus slot func cap_id p s =
      Some (map_option (cap_at sp bus slot func) (find (cap_matches (sp bus slot func) cap_id) ps), s') \<and> trace_extends s s'"
  using assms(4)
proof (induction ps arbitrary: p s)
  case Nil
  then show ?case by (subst find_capability_from.simps) simp
next
  case (Cons q qs)
  obtain s1 where 1: "pci_config_read_byte dev bus slot func q s = (sp bus slot func q, s1)" "trace_extends s s1"
    by (rule read_byte_bridge [OF h])
  obtain s2 where 2: "pci_config_read_byte dev bus slot func (q + 3) s1 = (sp bus slot func (q + 3), s2)" "trace_extends s1 s2"
    by (rule read_byte_bridge [OF h])
  show ?case
  proof (cases "cap_matches (sp bus slot func) cap_id q")
    case True
    obtain s3 where 3: "pci_config_read_byte dev bus slot func (q + 4) s2 = (sp bus slot func (q + 4), s3)" "trace_extends s2 s3"
      by (rule read_byte_bridge [OF h])
    obtain s4 where 4: "pci_config_read_word dev bus slot func (q + 8) s3 =
        (pci_register sp (bus, slot, func, (q + 8) AND 0xFC), s4)" "trace_extends s3 s4"
      by (rule read_word_bridge [OF h])
    obtain s5 where 5: "pci_config_read_word dev bus slot func (q + 12) s4 =
        (pci_register sp (bus, slot, func, (q + 12) AND 0xFC), s5)" "trace_extends s4 s5"
      by (rule read_word_bridge [OF h])
    have "trace_extends s s5" using 1(2) 2(2) 3(2) 4(2) 5(2) by (meson trace_extends_trans)
    with Cons.prems True 1(1) 2(1) 3(1) 4(1) 5(1) show ?thesis
      by (subst find_capability_from.simps) (simp add: cap_matches_def cap_at_def)
  next
    case False
    define t where "t = (if sp bus slot func q = 9 then s2 else s1)"
    have "trace_extends s t" using 1(2) 2(2) by (auto simp: t_def intro: trace_extends_trans)
    moreover obtain u where u: "pci_config_read_byte dev bus slot func (q + 1) t = (sp bus slot func (q + 1), u)" "trace_extends t u"
      by (rule read_byte_bridge [OF h])
    moreover obtain s' where "find_capability_from dev bus slot func cap_id (sp bus slot func (q + 1)) u =
        Some (map_option (cap_at sp bus slot func) (find (cap_matches (sp bus slot func) cap_id) qs), s')" "trace_extends u s'"
      using Cons.IH [of "sp bus slot func (q + 1)" u] Cons.prems by auto
    moreover have "find_capability_from dev bus slot func cap_id p s = find_capability_from dev bus slot func cap_id (sp bus slot func (q + 1)) u"
      using Cons.prems False 1(1) 2(1) u(1)
      by (subst find_capability_from.simps) (auto simp: cap_matches_def t_def split: if_splits)
    ultimately show ?thesis using False by (auto intro: trace_extends_trans)
  qed
qed

text \<open>C25. \<^verbatim>\<open>pci_find_capability\<close> (pci.c) searches the capability list of a function of a PCI device
  completely and in order: if the list that starts at byte 0x34 of its configuration space
  ends, the call returns, with the first vendor-specific capability of the wanted type, its
  base address register, offset and length read from the right bytes, or with failure if
  there is none. It does nothing but access ports. The host bridge is assumed to decode
  configuration addresses as the PCI specification says.\<close>

theorem pci_find_capability_correct:
  assumes "host_bridge sp dev" and "slot < 32" and "func < 8"
    and "cap_list (sp bus slot func) (sp bus slot func 0x34) ps"
  shows "\<exists>tr. pci_find_capability dev bus slot func cap_id s =
      Some (map_option (cap_at sp bus slot func) (find (cap_matches (sp bus slot func) cap_id) ps), s\<lparr>io_trace := io_trace s @ tr\<rparr>)"
proof -
  obtain s1 where 1: "pci_config_read_byte dev bus slot func 0x34 s = (sp bus slot func 0x34, s1)" "trace_extends s s1"
    by (rule read_byte_bridge [OF assms(1-3)])
  obtain s2 where "find_capability_from dev bus slot func cap_id (sp bus slot func 0x34) s1 =
      Some (map_option (cap_at sp bus slot func) (find (cap_matches (sp bus slot func) cap_id) ps), s2)" "trace_extends s1 s2"
    using find_capability_from_correct [OF assms] by blast
  with 1 have "trace_extends s s2" "pci_find_capability dev bus slot func cap_id s =
      Some (map_option (cap_at sp bus slot func) (find (cap_matches (sp bus slot func) cap_id) ps), s2)"
    by (auto simp: pci_find_capability_def intro: trace_extends_trans)
  then show ?thesis by (auto simp: trace_extends_def)
qed

text \<open>
  The witness is a host bridge with the sound device in slot 4 of bus 0: an MSI-X capability
  at 0x40, the notification area at 0x50 in the base address register 4 at offset 0x3000,
  the common configuration at 0x70.
\<close>

definition demo_spaces :: pci_spaces where
  "demo_spaces bus slot func =
     (if bus = 0 \<and> slot = 4 \<and> func = 0
      then (\<lambda>_. 0)(0x34 := 0x40, 0x40 := 0x11, 0x41 := 0x50, 0x50 := 9, 0x51 := 0x70, 0x53 := 2, 0x54 := 4,
        0x59 := 0x30, 0x5D := 0x10, 0x70 := 9, 0x73 := 1, 0x74 := 4)
      else (\<lambda>_. 0xFF))"

definition pci_device :: "pci_spaces \<Rightarrow> device" where
  "pci_device sp =
     \<lparr>dev_inb = (\<lambda>tr port. 0), dev_inw = (\<lambda>tr port. 0),
      dev_inl = (\<lambda>tr port. case last tr of OutL _ a \<Rightarrow> pci_register sp (pci_target a) | _ \<Rightarrow> 0xFFFFFFFF)\<rparr>"

lemma pci_device_bridge: "host_bridge sp (pci_device sp)"
  by (simp add: host_bridge_def pci_device_def)

theorem pci_find_capability_correct_witness:
  "\<exists>tr. pci_find_capability (pci_device demo_spaces) 0 4 0 VIRTIO_PCI_CAP_NOTIFY_CFG \<lparr>io_trace = [], intr_flag = False\<rparr> =
      Some (Some \<lparr>cap_type = 2, cap_bar = 4, cap_offset = 0x3000, cap_length = 0x1000\<rparr>, \<lparr>io_trace = tr, intr_flag = False\<rparr>)"
proof -
  let ?cs = "demo_spaces 0 4 0"
  have l: "cap_list ?cs (?cs 0x34) [0x40, 0x50, 0x70]" by (simp add: demo_spaces_def)
  have f: "find (cap_matches ?cs VIRTIO_PCI_CAP_NOTIFY_CFG) [0x40, 0x50, 0x70] = Some 0x50"
    by (simp add: cap_matches_def demo_spaces_def VIRTIO_PCI_CAP_NOTIFY_CFG_def)
  have c: "cap_at demo_spaces 0 4 0 0x50 = \<lparr>cap_type = 2, cap_bar = 4, cap_offset = 0x3000, cap_length = 0x1000\<rparr>"
    by (simp add: cap_at_def demo_spaces_def pci_register_def)
  show ?thesis
    using pci_find_capability_correct [OF pci_device_bridge [of demo_spaces] _ _ l, of VIRTIO_PCI_CAP_NOTIFY_CFG "\<lparr>io_trace = [], intr_flag = False\<rparr>"]
    unfolding f by (simp add: c)
qed

end
