(* ===== verification/Sound.thy ===== *)
theory Sound
  imports Kernel
begin

text \<open>
  The Sound Blaster 16 driver and the programming of the DMA controller:
  \<^verbatim>\<open>kernel/drivers/sb16.c\<close>, \<^verbatim>\<open>kernel/drivers/dma.c\<close> and their headers. The two loops that wait
  for the signal processor may not end (\<^term>\<open>None\<close>): nothing bounds them.
\<close>

section \<open>Constants\<close>

definition DMA_MASK_REG :: u16 where "DMA_MASK_REG = 0x0A"
definition DMA_MODE_REG :: u16 where "DMA_MODE_REG = 0x0B"
definition DMA_CLEAR_FF_REG :: u16 where "DMA_CLEAR_FF_REG = 0x0C"
definition DMA_ADDR_CH1 :: u16 where "DMA_ADDR_CH1 = 0x02"
definition DMA_COUNT_CH1 :: u16 where "DMA_COUNT_CH1 = 0x03"
definition DMA_PAGE_ADDR_CH1 :: u16 where "DMA_PAGE_ADDR_CH1 = 0x83"

lemmas dma_ports = DMA_MASK_REG_def DMA_MODE_REG_def DMA_CLEAR_FF_REG_def DMA_ADDR_CH1_def
  DMA_COUNT_CH1_def DMA_PAGE_ADDR_CH1_def

definition SB16_BASE_PORT :: u16 where "SB16_BASE_PORT = 0x220"
definition SB16_MIXER_ADDR :: u16 where "SB16_MIXER_ADDR = SB16_BASE_PORT + 0x4"
definition SB16_MIXER_DATA :: u16 where "SB16_MIXER_DATA = SB16_BASE_PORT + 0x5"
definition SB16_MIXER_MASTER_VOL :: u8 where "SB16_MIXER_MASTER_VOL = 0x22"
definition SB16_MIXER_VOICE_VOL :: u8 where "SB16_MIXER_VOICE_VOL = 0x04"
definition SB16_DSP_RESET :: u16 where "SB16_DSP_RESET = SB16_BASE_PORT + 0x6"
definition SB16_DSP_READ :: u16 where "SB16_DSP_READ = SB16_BASE_PORT + 0xA"
definition SB16_DSP_WRITE :: u16 where "SB16_DSP_WRITE = SB16_BASE_PORT + 0xC"
definition SB16_DSP_READ_STATUS :: u16 where "SB16_DSP_READ_STATUS = SB16_BASE_PORT + 0xE"
definition SB16_DSP_WRITE_STATUS :: u16 where "SB16_DSP_WRITE_STATUS = SB16_BASE_PORT + 0xC"

section \<open>The DMA controller\<close>

definition dma_prepare_transfer :: "u8 \<Rightarrow> u8 \<Rightarrow> u32 \<Rightarrow> u32 \<Rightarrow> 'a io_state_scheme \<Rightarrow> 'a io_state_scheme" where
  "dma_prepare_transfer channel mode addr sz s =
     (if addr \<ge> 0x1000000 then s
      else let s = port_byte_out DMA_MASK_REG (0x04 OR channel) s;
               s = port_byte_out DMA_CLEAR_FF_REG 0x00 s;
               s = port_byte_out DMA_MODE_REG (mode OR channel) s;
               s = port_byte_out DMA_ADDR_CH1 (ucast (addr AND 0xFF)) s;
               s = port_byte_out DMA_ADDR_CH1 (ucast (drop_bit 8 addr AND 0xFF)) s;
               s = port_byte_out DMA_PAGE_ADDR_CH1 (ucast (drop_bit 16 addr AND 0xFF)) s;
               count = sz - 1;
               s = port_byte_out DMA_COUNT_CH1 (ucast (count AND 0xFF)) s;
               s = port_byte_out DMA_COUNT_CH1 (ucast (drop_bit 8 count AND 0xFF)) s
           in port_byte_out DMA_MASK_REG channel s)"

section \<open>The signal processor\<close>

partial_function (option) dsp_wait_write :: "device \<Rightarrow> 'a io_state_scheme \<Rightarrow> 'a io_state_scheme option" where
  "dsp_wait_write dev s =
     (let (st, s) = port_byte_in dev SB16_DSP_WRITE_STATUS s
      in if st AND 0x80 \<noteq> 0 then dsp_wait_write dev s else Some s)"

definition sb16_dsp_write :: "device \<Rightarrow> u8 \<Rightarrow> 'a io_state_scheme \<Rightarrow> 'a io_state_scheme option" where
  "sb16_dsp_write dev value s = map_option (port_byte_out SB16_DSP_WRITE value) (dsp_wait_write dev s)"

partial_function (option) dsp_wait_read :: "device \<Rightarrow> 'a io_state_scheme \<Rightarrow> 'a io_state_scheme option" where
  "dsp_wait_read dev s =
     (let (st, s) = port_byte_in dev SB16_DSP_READ_STATUS s
      in if st AND 0x80 = 0 then dsp_wait_read dev s else Some s)"

definition sb16_dsp_read :: "device \<Rightarrow> 'a io_state_scheme \<Rightarrow> (u8 \<times> 'a io_state_scheme) option" where
  "sb16_dsp_read dev s = map_option (port_byte_in dev SB16_DSP_READ) (dsp_wait_read dev s)"

definition sb16_reset_dsp :: "device \<Rightarrow> 'a io_state_scheme \<Rightarrow> (bool \<times> 'a io_state_scheme) option" where
  "sb16_reset_dsp dev s =
     do {
       let s = port_byte_out SB16_DSP_RESET 1 s;
       let s = port_byte_out SB16_DSP_RESET 0 s;
       (ack, s) \<leftarrow> sb16_dsp_read dev s;
       Some (ack = 0xAA, s)
     }"

definition sb16_mixer_write :: "u8 \<Rightarrow> u8 \<Rightarrow> 'a io_state_scheme \<Rightarrow> 'a io_state_scheme" where
  "sb16_mixer_write reg value s = port_byte_out SB16_MIXER_DATA value (port_byte_out SB16_MIXER_ADDR reg s)"

definition sb16_init :: "platform \<Rightarrow> kernel \<Rightarrow> kernel option" where
  "sb16_init pf k =
     do {
       let k = print_lit (''Initializing Sound Blaster 16...'' @ nl) k;
       (ok, k) \<leftarrow> sb16_reset_dsp (p_dev pf) k;
       if ok then do {
         let k = print_lit (''  DSP reset successful!'' @ nl) k;
         let k = sb16_mixer_write SB16_MIXER_MASTER_VOL 0xFF k;
         let k = sb16_mixer_write SB16_MIXER_VOICE_VOL 0xFF k;
         let k = print_lit (''  Mixer volume set to maximum.'' @ nl) k;
         (frame, k) \<leftarrow> on_mem pmm_alloc_frame k;
         let k = k\<lparr>sb16_dma_buffer := frame\<rparr>;
         let k = print_lit ''  DMA buffer allocated at physical address: '' k;
         let k = print_lit nl (print_hex (sb16_dma_buffer k) k);
         let k = dma_prepare_transfer 1 0x48 (sb16_dma_buffer k) PMM_FRAME_SIZE k;
         Some (print_lit (''  DMA channel 1 programmed for transfer.'' @ nl) k)
       }
       else Some (print_lit (''  DSP reset failed. Card not found or not responding.'' @ nl) k)
     }"

text \<open>The square wave; a period of 0 samples is a division by zero.\<close>

definition wave_sample :: "u32 \<Rightarrow> u32 \<Rightarrow> u8" where
  "wave_sample period i = (if i mod period < period div 2 then 0xFF else 0x00)"

fun fill_wave :: "nat \<Rightarrow> u32 \<Rightarrow> u32 \<Rightarrow> u32 \<Rightarrow> 'a machine_state_scheme \<Rightarrow> 'a machine_state_scheme option" where
  "fill_wave 0 i buf period s = Some s"
| "fill_wave (Suc n) i buf period s =
     (if period = 0 then None
      else vstore8 (buf + i) (wave_sample period i) s \<bind> fill_wave n (i + 1) buf period)"

fun dsp_write_all :: "device \<Rightarrow> u8 list \<Rightarrow> 'a io_state_scheme \<Rightarrow> 'a io_state_scheme option" where
  "dsp_write_all dev [] s = Some s"
| "dsp_write_all dev (v # vs) s = sb16_dsp_write dev v s \<bind> dsp_write_all dev vs"

definition sb16_play_sound :: "platform \<Rightarrow> u16 \<Rightarrow> u16 \<Rightarrow> kernel \<Rightarrow> kernel option" where
  "sb16_play_sound pf freq duration_ms k =
     (if freq = 0 then None
      else do {
        let sample_rate = (22050 :: u16);
        let period = ucast (sample_rate div freq);
        k \<leftarrow> do_mem (fill_wave (unat PMM_FRAME_SIZE) 0 (sb16_dma_buffer k) period) k;
        let len = (ucast (PMM_FRAME_SIZE - 1) :: u16);
        k \<leftarrow> dsp_write_all (p_dev pf)
               [0xD1, 0x41, ucast (drop_bit 8 sample_rate AND 0xFF), ucast (sample_rate AND 0xFF),
                0xC6, 0x00, ucast (len AND 0xFF), ucast (drop_bit 8 len AND 0xFF)] k;
        k \<leftarrow> kernel_sleep pf (ucast duration_ms) k;
        k \<leftarrow> sb16_dsp_write (p_dev pf) 0xD0 k;
        sb16_dsp_write (p_dev pf) 0xD3 k
      })"

end
