(* ===== verification/Commands.thy ===== *)
theory Commands
  imports Pci Sound
begin

text \<open>
  Starting programs and the commands of the shell: \<^verbatim>\<open>exec_program\<close> of
  \<^verbatim>\<open>kernel/cpu/process.c\<close>, and \<^verbatim>\<open>process_command\<close> and \<^verbatim>\<open>shell_run\<close> of \<^verbatim>\<open>kernel/shell.c\<close>, composed
  from the operations of the components on the state of the whole kernel.

  The strings of the shell are arrays; an argument is the part of \<^verbatim>\<open>current_line\<close> from its
  position on. \<^term>\<open>None\<close> is a fault, undefined behaviour or a call that never returns.
\<close>

section \<open>Starting a program\<close>

text \<open>A failure: the message is printed, interrupts are enabled, the result is -1.\<close>

definition exec_fail :: "string \<Rightarrow> kernel \<Rightarrow> (int \<times> kernel) option" where
  "exec_fail msg k = Some (-1, sti (print_lit msg k))"

text \<open>A line of the debug log that ends with the number of free frames.\<close>

definition debug_free_frames :: "string \<Rightarrow> kernel \<Rightarrow> kernel option" where
  "debug_free_frames msg k =
     do {
       let n = pmm_get_free_frame_count (mem k);
       k \<leftarrow> qemu_debug_dec n (debug_lit msg k);
       Some (debug_lit nl k)
     }"

text \<open>The part of \<^verbatim>\<open>exec_program\<close> that enters the program into the process table.\<close>

definition exec_enter :: "bytes \<Rightarrow> u32 \<Rightarrow> u32 \<Rightarrow> u32 \<Rightarrow> kernel \<Rightarrow> (int \<times> kernel) option" where
  "exec_enter filename file_buffer new_dir user_stack_ptr k =
     (case find_unused (process_table (prc k)) 0 MAX_PROCESSES of
        None \<Rightarrow> do {
          let k = print_lit (''run: No free processes left.'' @ nl) k;
          k \<leftarrow> do_mem (paging_free_directory new_dir) k;
          k \<leftarrow> do_mem (free file_buffer) k;
          Some (-1, sti k)
        }
      | Some _ \<Rightarrow> do {
          (kernel_stack, k) \<leftarrow> on_mem pmm_alloc_frame k;
          entry \<leftarrow> eh_entry file_buffer (mem k);
          (new_pid, p) \<leftarrow> create_task filename kernel_stack new_dir entry user_stack_ptr (prc k);
          k \<leftarrow> do_mem (free file_buffer) (k\<lparr>prc := p\<rparr>);
          Some (int new_pid, k)
        })"

text \<open>The part that builds the new address space, from the copy of the kernel's directory on.\<close>

definition exec_load :: "bytes list \<Rightarrow> bytes \<Rightarrow> u32 \<Rightarrow> u32 \<Rightarrow> kernel \<Rightarrow> (int \<times> kernel) option" where
  "exec_load argv filename file_buffer new_dir k =
     do {
       let old_dir = cr3 (mem k);
       k \<leftarrow> do_mem (\<lambda>m. Some (paging_switch_directory new_dir m)) k;
       phoff \<leftarrow> eh_phoff file_buffer (mem k);
       (ok, k) \<leftarrow> on_mem (load_segments new_dir file_buffer (file_buffer + phoff) 0) k;
       if \<not> ok then do {
         k \<leftarrow> do_mem (paging_free_directory new_dir) k;
         k \<leftarrow> do_mem (free file_buffer) k;
         exec_fail (''run: Out of physical memory.'' @ nl) k
       }
       else do {
         (ok, k) \<leftarrow> on_mem (map_user_stack new_dir USER_STACK_PAGES 0) k;
         if \<not> ok then do {
           k \<leftarrow> do_mem (\<lambda>m. Some (paging_switch_directory old_dir m)) k;
           k \<leftarrow> do_mem (paging_free_directory new_dir) k;
           k \<leftarrow> do_mem (free file_buffer) k;
           Some (-1, sti k)
         }
         else do {
           (user_stack_ptr, k) \<leftarrow> on_mem (push_args argv) k;
           k \<leftarrow> do_mem (\<lambda>m. Some (paging_switch_directory old_dir m)) k;
           exec_enter filename file_buffer new_dir user_stack_ptr k
         }
       }
     }"

text \<open>The part that finds, reads and checks the file.\<close>

definition exec_file :: "platform \<Rightarrow> bytes list \<Rightarrow> bytes \<Rightarrow> kernel \<Rightarrow> (int \<times> kernel) option" where
  "exec_file pf argv filename k =
     do {
       file_entry \<leftarrow> fs_find_file filename (mem k);
       if file_entry = 0 then do {
         k \<leftarrow> print_string filename (print_lit ''run: File not found: '' k);
         Some (-1, sti k)
       }
       else do {
         (file_buffer, k) \<leftarrow> on_mem (fs_read_file (p_dev pf) (p_dma pf) file_entry) k;
         if file_buffer = 0 then exec_fail (''run: Not enough memory to load program.'' @ nl) k
         else do {
           magic \<leftarrow> eh_magic file_buffer (mem k);
           if magic \<noteq> ELF_MAGIC then do {
             k \<leftarrow> do_mem (free file_buffer) (print_lit (''run: Not an ELF executable.'' @ nl) k);
             Some (-1, sti k)
           }
           else do {
             (new_dir, k) \<leftarrow> on_mem (\<lambda>m. paging_clone_directory (kernel_directory m) m) k;
             if new_dir = 0 then do {
               k \<leftarrow> do_mem (free file_buffer) (print_lit (''run: Could not create address space.'' @ nl) k);
               Some (-1, sti k)
             }
             else exec_load argv filename file_buffer new_dir k
           }
         }
       }
     }"

definition exec_program :: "platform \<Rightarrow> bytes list \<Rightarrow> kernel \<Rightarrow> (int \<times> kernel) option" where
  "exec_program pf argv k =
     do {
       k \<leftarrow> debug_free_frames ''EXEC: Entered. Free frames: '' k;
       let k = cli k;
       case argv of
         [] \<Rightarrow> exec_fail (''run: Missing filename.'' @ nl) k
       | filename # _ \<Rightarrow> exec_file pf argv filename k
     }"

section \<open>The commands of the shell\<close>

datatype command =
    Help | Cls | Uptime | Reboot | Memtest | Cat | Disktest | Sleep_cmd | Ls | Dump | Run | Ps | Kill_cmd | Vsbeep | Vsprobe

definition commands :: "(string \<times> command) list" where
  "commands =
     [(''help'', Help), (''cls'', Cls), (''uptime'', Uptime), (''reboot'', Reboot), (''memtest'', Memtest),
      (''cat'', Cat), (''disktest'', Disktest), (''sleep'', Sleep_cmd), (''ls'', Ls), (''dump'', Dump), (''run'', Run),
      (''ps'', Ps), (''kill'', Kill_cmd), (''vsbeep'', Vsbeep), (''vsprobe'', Vsprobe)]"

text \<open>The chain of comparisons with \<^verbatim>\<open>strcmp\<close>; \<^term>\<open>Some None\<close> is an unknown command.\<close>

fun find_command :: "(string \<times> command) list \<Rightarrow> bytes \<Rightarrow> command option option" where
  "find_command [] arg = Some None"
| "find_command ((l, c) # cs) arg =
     do {
       r \<leftarrow> strcmp arg (cstr l);
       if r = 0 then Some (Some c) else find_command cs arg
     }"

definition help_text :: string where
  "help_text =
     ''Available commands:'' @ nl @
     ''  help - Display this message'' @ nl @
     ''  cls  - Clear the screen'' @ nl @
     ''  uptime  - Shows OS running time'' @ nl @
     ''  reboot  - Reset the OS'' @ nl @
     ''  memtest  - Allocate, free then recycle memory'' @ nl @
     ''  cat  - Reads .txt file contents (needs arg)'' @ nl @
     ''  disktest  - Read LBA19 (root dir)'' @ nl @
     ''  sleep  - Stops OS for X ticks'' @ nl @
     ''  ls  - List files in root dir'' @ nl @
     ''  ls  - List files in root dir'' @ nl @
     ''  dump  - Dump the first 128b of root dir buffer'' @ nl @
     ''  run  - Run user mode program'' @ nl @
     ''  ps  - Show process list'' @ nl @
     ''  kill - Reap a zombie process by PID'' @ nl @
     ''  vsbeep - beep using Virtual I/O driver'' @ nl @
     ''  vsprobe - debug Virtual I/O critical values'' @ nl @
     nl"

definition cmd_uptime :: "kernel \<Rightarrow> kernel" where
  "cmd_uptime k = print_hex (timer_get_ticks (prc k) div 100) (print_lit ''Uptime (seconds): '' k)"

definition cmd_reboot :: "kernel \<Rightarrow> kernel" where
  "cmd_reboot k = port_byte_out 0x64 0xFE (print_lit ''Rebooting system...'' k)"

definition cmd_memtest :: "kernel \<Rightarrow> kernel option" where
  "cmd_memtest k =
     do {
       let k = print_lit ''Allocating block A (16 bytes)...'' k;
       (block_a, k) \<leftarrow> on_mem (malloc 16) k;
       let k = print_hex block_a (print_lit (nl @ ''  A is at: '') k);
       let k = print_lit (nl @ ''Allocating block B (1024 bytes)...'') k;
       (block_b, k) \<leftarrow> on_mem (malloc 1024) k;
       let k = print_hex block_b (print_lit (nl @ ''  B is at: '') k);
       let k = print_lit (nl @ ''Freeing block A...'') k;
       k \<leftarrow> do_mem (free block_a) k;
       let k = print_lit (nl @ ''Allocating block C (8 bytes)...'') k;
       (block_c, k) \<leftarrow> on_mem (malloc 8) k;
       let k = print_hex block_c (print_lit (nl @ ''  C is at: '') k);
       Some (print_lit (nl @ ''(Note: C should have the same address as A)'') k)
     }"

text \<open>The loop of \<^verbatim>\<open>cat\<close>, which reads the size of the file again for every character.\<close>

partial_function (option) print_file :: "u32 \<Rightarrow> u32 \<Rightarrow> u32 \<Rightarrow> kernel \<Rightarrow> kernel option" where
  "print_file file_entry buffer i k =
     do {
       sz \<leftarrow> file_size file_entry (mem k);
       if i < sz then do {
         c \<leftarrow> vload8 (mem k) (buffer + i);
         print_file file_entry buffer (i + 1) (print_char c k)
       }
       else Some k
     }"

definition cmd_cat :: "platform \<Rightarrow> bytes list \<Rightarrow> kernel \<Rightarrow> kernel option" where
  "cmd_cat pf argv k =
     (if length argv > 1 then do {
        file_entry \<leftarrow> fs_find_file (argv ! 1) (mem k);
        if file_entry \<noteq> 0 then do {
          let k = cli k;
          (buffer, k) \<leftarrow> on_mem (fs_read_file (p_dev pf) (p_dma pf) file_entry) k;
          k \<leftarrow> (if buffer \<noteq> 0 then print_file file_entry buffer 0 k \<bind> do_mem (free buffer) else Some k);
          Some (sti k)
        }
        else print_string (argv ! 1) (print_lit ''File not found: '' k)
      }
      else Some (print_lit ''Usage: cat <filename>'' k))"

text \<open>Bytes in hexadecimal, each followed by a space (\<^verbatim>\<open>disktest\<close>, \<^verbatim>\<open>dump\<close>), and as characters (\<^verbatim>\<open>ls\<close>).\<close>

fun print_hex_bytes :: "nat \<Rightarrow> u32 \<Rightarrow> kernel \<Rightarrow> kernel option" where
  "print_hex_bytes 0 a k = Some k"
| "print_hex_bytes (Suc n) a k =
     do {
       b \<leftarrow> vload8 (mem k) a;
       print_hex_bytes n (a + 1) (print_char (chr CHR '' '') (print_hex (ucast b) k))
     }"

fun print_chars_at :: "nat \<Rightarrow> u32 \<Rightarrow> kernel \<Rightarrow> kernel option" where
  "print_chars_at 0 a k = Some k"
| "print_chars_at (Suc n) a k =
     do {
       b \<leftarrow> vload8 (mem k) a;
       print_chars_at n (a + 1) (print_char b k)
     }"

definition cmd_disktest :: "platform \<Rightarrow> kernel \<Rightarrow> kernel option" where
  "cmd_disktest pf k =
     do {
       let k = print_lit (''Reading LBA 19 (root dir)...'' @ nl) k;
       (buffer, k) \<leftarrow> on_mem (malloc 512) k;
       k \<leftarrow> do_mem (read_disk_sector (p_dev pf) (p_dma pf) 19 buffer) k;
       let k = print_lit ''First 32 bytes: '' k;
       k \<leftarrow> print_hex_bytes 32 buffer k;
       do_mem (free buffer) k
     }"

definition cmd_sleep :: "platform \<Rightarrow> bytes list \<Rightarrow> kernel \<Rightarrow> kernel option" where
  "cmd_sleep pf argv k =
     (if length argv > 1 then do {
        ms \<leftarrow> atoi (argv ! 1);
        k \<leftarrow> print_string (argv ! 1) (print_lit ''Sleeping for '' k);
        let k = print_lit ''ms...'' k;
        kernel_sleep pf ms k
      }
      else Some (print_lit ''Usage: sleep <milliseconds>'' k))"

definition print_dir_entry :: "u32 \<Rightarrow> kernel \<Rightarrow> kernel option" where
  "print_dir_entry entry k =
     do {
       k \<leftarrow> print_chars_at 8 entry k;
       let k = print_lit ''  '' k;
       k \<leftarrow> print_chars_at 3 (entry + 8) k;
       attributes \<leftarrow> entry_attributes entry (mem k);
       let k = print_hex (ucast attributes) (print_lit ''  0x'' k);
       sz \<leftarrow> file_size entry (mem k);
       let k = print_hex sz (print_lit ''  '' k);
       Some (print_lit nl k)
     }"

partial_function (option) list_entries :: "u32 \<Rightarrow> kernel \<Rightarrow> kernel option" where
  "list_entries i k =
     (if i < root_directory_size (mem k) then do {
        let entry = root_directory_buffer (mem k) + i;
        n0 \<leftarrow> vload8 (mem k) entry;
        if n0 = 0 then Some k
        else if n0 = 0xE5 then list_entries (i + 32) k
        else do {
          attributes \<leftarrow> entry_attributes entry (mem k);
          if attributes AND 0x0F = 0x0F then list_entries (i + 32) k
          else if attributes AND 0x08 \<noteq> 0 then list_entries (i + 32) k
          else print_dir_entry entry k \<bind> list_entries (i + 32)
        }
      }
      else Some k)"

definition cmd_ls :: "kernel \<Rightarrow> kernel option" where
  "cmd_ls k = list_entries 0 (print_lit (''---------------------------'' @ nl) (print_lit (''Name      Ext  Attr  Size'' @ nl) k))"

definition cmd_dump :: "kernel \<Rightarrow> kernel option" where
  "cmd_dump k =
     print_hex_bytes 128 (root_directory_buffer (mem k)) (print_lit (nl @ ''Root Directory Buffer Dump:'' @ nl) k)"

definition cmd_run :: "platform \<Rightarrow> bytes list \<Rightarrow> kernel \<Rightarrow> kernel option" where
  "cmd_run pf argv k =
     (if length argv > 1 then do {
        (child_pid, k) \<leftarrow> exec_program pf (tl argv) (k\<lparr>kbd := keyboard_flush (kbd k)\<rparr>);
        if child_pid \<ge> 0 then do {
          p \<leftarrow> mark_waiting (prc k);
          yield_cpu pf (k\<lparr>prc := p\<rparr>)
        }
        else Some (sti k)
      }
      else Some (print_lit ''Usage: run <filename>'' k))"

definition state_label :: "task_state_t \<Rightarrow> string" where
  "state_label st =
     (case st of
        TASK_STATE_RUNNING \<Rightarrow> ''Running    | ''
      | TASK_STATE_ZOMBIE \<Rightarrow> ''Zombie     | ''
      | _ \<Rightarrow> ''Unknown    | '')"

fun print_tasks :: "nat \<Rightarrow> nat \<Rightarrow> kernel \<Rightarrow> kernel option" where
  "print_tasks i 0 k = Some k"
| "print_tasks i (Suc n) k =
     (let t = process_table (prc k) ! i
      in if state t \<noteq> TASK_STATE_UNUSED then do {
           let k = print_dec (word_of_int (pid t)) k;
           let k = print_lit ''    | '' k;
           let k = print_lit (state_label (state t)) k;
           k \<leftarrow> print_string (name t) k;
           print_tasks (Suc i) n (print_lit nl k)
         }
         else print_tasks (Suc i) n k)"

definition cmd_ps :: "kernel \<Rightarrow> kernel option" where
  "cmd_ps k =
     print_tasks 0 MAX_PROCESSES
       (print_lit (''----------------------------------'' @ nl) (print_lit (''PID  | State      | Name'' @ nl) k))"

definition cmd_kill :: "bytes list \<Rightarrow> kernel \<Rightarrow> kernel option" where
  "cmd_kill argv k =
     (if length argv < 2 then Some (print_lit ''Usage: kill <pid>'' k)
      else do {
        v \<leftarrow> atoi (argv ! 1);
        let pid_to_kill = sint v;
        if 0 < pid_to_kill \<and> pid_to_kill < int MAX_PROCESSES then do {
          let task = process_table (prc k) ! nat pid_to_kill;
          case kill_task pid_to_kill (prc k) of
            Some p \<Rightarrow> do {
              k \<leftarrow> do_mem (paging_free_directory (page_directory task)) k;
              k \<leftarrow> do_mem (pmm_free_frame (kernel_stack task)) k;
              let k = k\<lparr>prc := p\<rparr>;
              let k = print_dec v (print_lit ''Reaped zombie PID '' k);
              debug_free_frames ''SHELL: Reaped zombie. Free frames: '' k
            }
          | None \<Rightarrow> Some (print_lit ''Cannot kill non-zombie process.'' k)
        }
        else Some (print_lit ''Invalid PID.'' k)
      })"

definition run_command :: "platform \<Rightarrow> command option \<Rightarrow> bytes list \<Rightarrow> kernel \<Rightarrow> kernel option" where
  "run_command pf cmd argv k =
     (case cmd of
        Some Help \<Rightarrow> Some (print_lit help_text k)
      | Some Cls \<Rightarrow> Some (clear_screen k)
      | Some Uptime \<Rightarrow> Some (cmd_uptime k)
      | Some Reboot \<Rightarrow> Some (cmd_reboot k)
      | Some Memtest \<Rightarrow> cmd_memtest k
      | Some Cat \<Rightarrow> cmd_cat pf argv k
      | Some Disktest \<Rightarrow> cmd_disktest pf k
      | Some Sleep_cmd \<Rightarrow> cmd_sleep pf argv k
      | Some Ls \<Rightarrow> cmd_ls k
      | Some Dump \<Rightarrow> cmd_dump k
      | Some Run \<Rightarrow> cmd_run pf argv k
      | Some Ps \<Rightarrow> cmd_ps k
      | Some Kill_cmd \<Rightarrow> cmd_kill argv k
      | Some Vsbeep \<Rightarrow>
          map_option (print_lit '' test complete.'')
            (virtio_sound_beep pf (p_padding pf) (print_lit ''Testing virtio-sound control queue...'' k))
      | Some Vsprobe \<Rightarrow> virtio_sound_probe pf (print_lit (''Probing virtio-sound device...'' @ nl) k)
      | None \<Rightarrow> map_option (print_lit nl) (print_string (current_line k) (print_lit ''Unknown command: '' k)))"

text \<open>The arguments as arrays: the line from each position on.\<close>

definition args_of :: "nat list \<Rightarrow> kernel \<Rightarrow> bytes list" where
  "args_of argv k = map (\<lambda>p. drop p (current_line k)) argv"

definition process_command :: "platform \<Rightarrow> kernel \<Rightarrow> kernel option" where
  "process_command pf k =
     do {
       (argv, k) \<leftarrow> parse_command k;
       case argv of
         [] \<Rightarrow> Some (print_lit PROMPT (print_lit nl k))
       | p # _ \<Rightarrow> do {
           let k = print_lit nl k;
           cmd \<leftarrow> find_command commands (drop p (current_line k));
           k \<leftarrow> run_command pf cmd (args_of argv k) k;
           k \<leftarrow> reset_line k;
           r \<leftarrow> strcmp (drop p (current_line k)) (cstr ''cls'');
           let k = (if r \<noteq> 0 then print_lit nl k else k);
           Some (print_lit PROMPT k)
         }
     }"

text \<open>The main loop never returns: its first \<^verbatim>\<open>n\<close> rounds.\<close>

fun shell_run :: "platform \<Rightarrow> nat \<Rightarrow> kernel \<Rightarrow> kernel option" where
  "shell_run pf 0 k = Some k"
| "shell_run pf (Suc n) k =
     do {
       (c, k) \<leftarrow> kernel_getchar pf k;
       k \<leftarrow> shell_handle_input (process_command pf) c k;
       shell_run pf n k
     }"

definition restart_shell :: "platform \<Rightarrow> nat \<Rightarrow> kernel \<Rightarrow> kernel option" where
  "restart_shell pf n k = shell_init k \<bind> shell_run pf n"

section \<open>What the commands leave alone\<close>

text \<open>The state of the tasks and of the drivers: everything but memory, screen, ports and devices.\<close>

definition system_frame ::
    "kernel \<Rightarrow> timer_state \<times> kbd_state \<times> desc_state \<times> irq_routine option list \<times> syscall_id option list \<times> bytes \<times> int \<times> int" where
  "system_frame k =
     (prc k, kbd k, desc k, irq_routines k, syscall_table k, current_line k, line_len k, cursor_pos k)"

lemma system_frame_more: "vga_state.more k' = vga_state.more k \<Longrightarrow> system_frame k' = system_frame k \<and> mem k' = mem k"
  by (cases k; cases k') (simp add: system_frame_def)

lemma system_frame_print [kernel_frame, simp]:
  "system_frame (print_char c k) = system_frame k" "mem (print_char c k) = mem k"
  "system_frame (print_chars cs k) = system_frame k" "mem (print_chars cs k) = mem k"
  "system_frame (print_lit l k) = system_frame k" "mem (print_lit l k) = mem k"
  "system_frame (print_hex n k) = system_frame k" "mem (print_hex n k) = mem k"
  "system_frame (print_dec n k) = system_frame k" "mem (print_dec n k) = mem k"
  using system_frame_more [OF print_char_more] system_frame_more [OF print_chars_more]
  by (simp_all add: print_lit_chars print_hex_chars print_dec_digits del: print_chars_simps)

lemma system_frame_io [kernel_frame, simp]:
  "system_frame (cli k) = system_frame k" "mem (cli k) = mem k"
  "system_frame (sti k) = system_frame k" "mem (sti k) = mem k" "intr_flag (sti k)"
  "system_frame (debug_out cs k) = system_frame k" "mem (debug_out cs k) = mem k"
  "system_frame (debug_lit l k) = system_frame k" "mem (debug_lit l k) = mem k"
  by (simp_all add: system_frame_def io_defs debug_out_def debug_lit_out)

lemma prc_frame: "system_frame k' = system_frame k \<Longrightarrow> prc k' = prc k"
  by (simp add: system_frame_def)

section \<open>Entering a program into the process table\<close>

text \<open>A call that works on memory sees the ports of the kernel; two calls follow each other on the same memory.\<close>

lemma on_mem_run:
  assumes "f ((mem k)\<lparr>ports := \<lparr>io_trace = io_trace k, intr_flag = intr_flag k\<rparr>\<rparr>) = Some (r, m)"
  obtains k1 where "on_mem f k = Some (r, k1)" "mem k1 = m" "prc k1 = prc k"
    "(mem k1)\<lparr>ports := \<lparr>io_trace = io_trace k1, intr_flag = intr_flag k1\<rparr>\<rparr> = m"
proof -
  let ?k = "k\<lparr>mem := m, io_trace := io_trace (ports m), intr_flag := intr_flag (ports m)\<rparr>"
  have "on_mem f k = Some (r, ?k)" using assms by (simp add: on_mem_def)
  moreover have "m\<lparr>ports := \<lparr>io_trace = io_trace (ports m), intr_flag = intr_flag (ports m)\<rparr>\<rparr> = m" by simp
  ultimately show thesis using that by simp
qed

lemma heap_inv_ports [simp]:
  "heap_inv base (s\<lparr>ports := p\<rparr>) bs fl = heap_inv base s bs fl" "heap_room (s\<lparr>ports := p\<rparr>) = heap_room s"
  by (rule heap_inv_cong; simp)+

text \<open>Taking a frame keeps the heap well formed: the frames of the heap stay in use.\<close>

lemma heap_inv_take_frame:
  assumes "heap_inv base s bs fl" and "length bm = length (pmm_bitmap s)"
    and "free_frames (s\<lparr>pmm_bitmap := bm\<rparr>) \<subseteq> free_frames s"
  shows "heap_inv base (s\<lparr>pmm_bitmap := bm\<rparr>) bs fl"
proof -
  let ?s = "s\<lparr>pmm_bitmap := bm\<rparr>"
  note i = heap_invD [OF assms(1)]
  have c: "phys ?s = phys s" "cr3 ?s = cr3 s" "cr0_pg ?s = cr0_pg s" by simp_all
  note p = paging_cong(2-4) [OF c] read_pde_cong [OF c(1,2)]
  have v: "vload32 ?s = vload32 s" by (rule ext) (simp add: vload32_def vload8_def p)
  have "pmm_inv s" using i(3) by (simp add: heap_frames_def)
  then have inv: "pmm_inv ?s" using assms(2,3) by (auto simp: pmm_inv_def)
  have w: "heap_words base ?s = heap_words base s" by (simp add: heap_words_def)
  have "heap_frames base ?s" using i(3) inv assms(3) unfolding heap_frames_def p w by blast
  moreover have "next_of ?s = next_of s" "translate ?s = translate s" using p(1) by (simp_all add: next_of_def fun_eq_iff v)
  ultimately show ?thesis using assms(1)
    by (simp add: heap_inv_def heap_mapped_def heap_bounds_def heap_blocks_def w p v)
qed

lemma free_frame: "free p s = Some s' \<Longrightarrow> ports s' = ports s \<and> free_frames s' = free_frames s"
  by (auto simp: free_def Let_def vstore32_def free_frames_def managed_frames_def bind_eq_Some_conv split: if_splits)

lemma find_unused_least:
  "j \<le> i \<Longrightarrow> i < j + n \<Longrightarrow> state (tbl ! i) = TASK_STATE_UNUSED \<Longrightarrow> \<forall>m. j \<le> m \<and> m < i \<longrightarrow> state (tbl ! m) \<noteq> TASK_STATE_UNUSED \<Longrightarrow>
     find_unused tbl j n = Some i"
proof (induction n arbitrary: j)
  case (Suc n)
  show ?case
  proof (cases "j = i")
    case False
    with Suc.prems have "find_unused tbl (Suc j) n = Some i" by (intro Suc.IH) auto
    with False Suc.prems show ?thesis by simp
  qed (use Suc.prems in simp)
qed simp

text \<open>The frame for the kernel stack and the entry point, read from the header of the file.\<close>

lemma exec_enter_resources:
  assumes "heap_inv base (mem k) bs fl" and "(b, c) \<in> allocated bs fl" and "28 \<le> c" and "free_frames (mem k) \<noteq> {}"
  obtains entry k1 where "vload32 (mem k) (b + 32) = Some entry" "eh_entry (b + 8) (mem k1) = Some entry"
    "on_mem pmm_alloc_frame k = Some (frame_addr (Min (free_frames (mem k))), k1)" "prc k1 = prc k" "intr_flag k1 = intr_flag k"
    "heap_inv base (mem k1) bs fl" "free_frames (mem k1) = free_frames (mem k) - {Min (free_frames (mem k))}"
proof -
  let ?m = "(mem k)\<lparr>ports := \<lparr>io_trace = io_trace k, intr_flag = intr_flag k\<rparr>\<rparr>"
  have m: "heap_inv base ?m bs fl" and ff: "free_frames ?m = free_frames (mem k)"
    using assms(1) by (simp_all add: free_frames_def managed_frames_def)
  note i = heap_invD [OF m]
  have inv: "pmm_inv ?m" using i(3) by (simp add: heap_frames_def)
  have b: "(b, c) \<in> set bs" using assms(2) by (simp add: allocated_def)
  note w = block_words [OF i(2,4) b]
  have "unat (heap_end ?m) \<le> 0x400000" using i(2) by (simp add: heap_bounds_def)
  then have "unat (b + 32) = unat b + 32" using w(5) by (simp add: unat_plus_u32_small)
  then have "b + 32 \<in> heap_words base ?m" using w(5,7,8) assms(3) by (simp add: heap_words_def word_le_nat_alt)
  then obtain entry where e: "vload32 ?m (b + 32) = Some entry" using hm.rd_some [OF i(1)] by blast
  have v: "vload32 ((mem k)\<lparr>ports := p, pmm_bitmap := bm\<rparr>) a = vload32 (mem k) a"
      "vload32 ((mem k)\<lparr>ports := p\<rparr>) a = vload32 (mem k) a" for p bm a
    by (simp_all add: vload32_def vload8_def paging_cong(2) [of "(mem k)\<lparr>ports := p, pmm_bitmap := bm\<rparr>" "mem k"]
        paging_cong(2) [of "(mem k)\<lparr>ports := p\<rparr>" "mem k"])
  from pmm_alloc_frame_least [OF inv] assms(4) ff obtain bm where
    bm: "pmm_alloc_frame ?m = Some (frame_addr (Min (free_frames ?m)), ?m\<lparr>pmm_bitmap := bm\<rparr>)"
      "length bm = length (pmm_bitmap ?m)" "free_frames (?m\<lparr>pmm_bitmap := bm\<rparr>) = free_frames ?m - {Min (free_frames ?m)}" by metis
  have h: "heap_inv base (?m\<lparr>pmm_bitmap := bm\<rparr>) bs fl" by (rule heap_inv_take_frame [OF m bm(2)]) (simp add: bm(3))
  from on_mem_run [of pmm_alloc_frame k, OF bm(1)] obtain k1 where
    k1: "on_mem pmm_alloc_frame k = Some (frame_addr (Min (free_frames ?m)), k1)" "mem k1 = ?m\<lparr>pmm_bitmap := bm\<rparr>"
      "prc k1 = prc k" "(mem k1)\<lparr>ports := \<lparr>io_trace = io_trace k1, intr_flag = intr_flag k1\<rparr>\<rparr> = ?m\<lparr>pmm_bitmap := bm\<rparr>" .
  have "intr_flag k1 = intr_flag k" using k1(1) bm(1) by (auto simp: on_mem_def)
  with that [OF _ _ k1(1) [unfolded ff] k1(3)] e h bm(3) ff k1(2) v show thesis
    by (simp add: eh_entry_def add.commute)
qed

text \<open>C7. The end of \<^verbatim>\<open>exec_program\<close> (process.c), where a loaded program becomes a task: with a slot unused,
  a frame free and the file in an allocated block of a well-formed heap, it returns the number
  of the first unused slot. That slot then holds a runnable task with this number and the
  file's name. Its saved context is user mode with interrupts enabled, the general registers
  zero, the entry point that bytes 24 to 27 of the file give, the stack pointer handed over and
  the new page directory; its kernel stack is the lowest free frame, which is free no longer.
  Every other slot and the current task are as before, the scheduler's invariant holds, the
  block of the file is given back to the heap, which stays well formed, and the interrupt flag
  is not touched.\<close>

theorem exec_enter_correct:
  assumes "heap_inv base (mem k) bs fl" and "(b, c) \<in> allocated bs fl" and "28 \<le> c" and "free_frames (mem k) \<noteq> {}"
    and "proc_inv (prc k)" and "i < 16" and "state (process_table (prc k) ! i) = TASK_STATE_UNUSED"
    and "\<forall>j < i. state (process_table (prc k) ! j) \<noteq> TASK_STATE_UNUSED"
    and "length (name (process_table (prc k) ! i)) = 32" and "text_of filename = Some nm"
  shows "\<exists>k' entry t. exec_enter filename (b + 8) new_dir sp k = Some (int i, k') \<and>
     vload32 (mem k) (b + 8 + 24) = Some entry \<and> process_table (prc k') = (process_table (prc k))[i := t] \<and>
     pid t = int i \<and> state t = TASK_STATE_RUNNING \<and> name t = take 32 nm @ replicate (32 - length nm) 0 \<and>
     cpu_state t = \<lparr>c_edi = 0, c_esi = 0, c_ebp = 0, c_ebx = 0, c_edx = 0, c_ecx = 0, c_eax = 0, c_eip = entry,
       c_cs = 0x1B, c_eflags = 0x202, c_esp = sp, c_ss = 0x23, c_cr3 = new_dir\<rparr> \<and>
     page_directory t = new_dir \<and> user_stack t = 0xC0000000 \<and>
     kernel_stack t = frame_addr (Min (free_frames (mem k))) \<and>
     free_frames (mem k') = free_frames (mem k) - {Min (free_frames (mem k))} \<and>
     current_task (prc k') = current_task (prc k) \<and> proc_inv (prc k') \<and>
     heap_inv base (mem k') bs (b # fl) \<and> allocated bs (b # fl) = allocated bs fl - {(b, c)} \<and>
     intr_flag k' = intr_flag k"
proof -
  from exec_enter_resources [OF assms(1-4)] obtain entry k1 where
    r: "vload32 (mem k) (b + 32) = Some entry" "eh_entry (b + 8) (mem k1) = Some entry"
      "on_mem pmm_alloc_frame k = Some (frame_addr (Min (free_frames (mem k))), k1)" "prc k1 = prc k" "intr_flag k1 = intr_flag k"
      "heap_inv base (mem k1) bs fl" "free_frames (mem k1) = free_frames (mem k) - {Min (free_frames (mem k))}" .
  let ?ks = "frame_addr (Min (free_frames (mem k)))"
  have slot: "find_unused (process_table (prc k)) 0 MAX_PROCESSES = Some i"
    by (rule find_unused_least) (use assms(6-8) in \<open>simp_all add: MAX_PROCESSES_def\<close>)
  have "length (name ((process_table (prc k) ! i)\<lparr>pid := int i, state := TASK_STATE_RUNNING\<rparr>)) = 32" using assms(9) by simp
  note nm = set_name_text [OF this assms(10)]
  define t where "t = the (user_task i filename ?ks new_dir entry sp (process_table (prc k) ! i))"
  have t: "user_task i filename ?ks new_dir entry sp (process_table (prc k) ! i) = Some t"
    by (simp add: t_def user_task_def nm)
  have fields: "pid t = int i" "state t = TASK_STATE_RUNNING" "name t = take 32 nm @ replicate (32 - length nm) 0"
      "cpu_state t = \<lparr>c_edi = 0, c_esi = 0, c_ebp = 0, c_ebx = 0, c_edx = 0, c_ecx = 0, c_eax = 0, c_eip = entry,
         c_cs = 0x1B, c_eflags = 0x202, c_esp = sp, c_ss = 0x23, c_cr3 = new_dir\<rparr>"
      "page_directory t = new_dir" "user_stack t = 0xC0000000" "kernel_stack t = ?ks"
    by (simp_all add: t_def user_task_def nm zero_cpu_state_def USER_STACK_TOP_def)
  let ?p = "update_task i (\<lambda>_. t) (prc k)"
  have create: "create_task filename ?ks new_dir entry sp (prc k1) = Some (i, ?p)" by (simp add: create_task_def slot t r(4))
  let ?k = "k1\<lparr>prc := ?p\<rparr>"
  have "heap_inv base ((mem ?k)\<lparr>ports := \<lparr>io_trace = io_trace ?k, intr_flag = intr_flag ?k\<rparr>\<rparr>) bs fl" using r(6) by simp
  from free_inv [OF this assms(2)] obtain m where
    m: "free (b + 8) ((mem ?k)\<lparr>ports := \<lparr>io_trace = io_trace ?k, intr_flag = intr_flag ?k\<rparr>\<rparr>) = Some m" "heap_inv base m bs (b # fl)" .
  let ?k' = "?k\<lparr>mem := m, io_trace := io_trace (ports m), intr_flag := intr_flag (ports m)\<rparr>"
  have "do_mem (free (b + 8)) ?k = Some ?k'" using m(1) by (simp add: do_mem_def on_mem_def)
  then have run: "exec_enter filename (b + 8) new_dir sp k = Some (int i, ?k')"
    using r(2,3) create by (simp add: exec_enter_def slot)
  have "intr_flag (ports m) = intr_flag k" "free_frames m = free_frames (mem k) - {Min (free_frames (mem k))}"
    using free_frame [OF m(1)] r(5,7) by (simp_all add: free_frames_def managed_frames_def)
  moreover have "proc_inv ?p" using assms(5-7) fields(1,2) by (auto simp: proc_inv_def update_task_def nth_list_update)
  moreover have "allocated bs (b # fl) = allocated bs fl - {(b, c)}"
    using block_words_distinct(3) [OF heap_invD(2,4) [OF assms(1)]] assms(2) by (fastforce simp: allocated_def)
  ultimately show ?thesis
    unfolding run using r(1) m(2) fields
    by (intro exI [of _ ?k'] exI [of _ entry] exI [of _ t]) (simp add: update_task_def add.commute)
qed

text \<open>A platform and the kernel of the booted machine, with an empty directory.\<close>

definition demo_platform :: platform where
  "demo_platform = \<lparr>p_dev = pci_device demo_spaces, p_mmio = \<lparr>mm_read = (\<lambda>tr w a. 0), mm_dma = (\<lambda>tr m. m)\<rparr>,
     p_dma = 0x20000, p_vdma = 0x30000, p_resume = Some, p_frame = (\<lambda>k. sample_registers), p_padding = 0\<rparr>"

definition boot_kernel :: kernel where
  "boot_kernel = shell_state.extend sample_shell
     \<lparr>kbd = kbd_init, mem = boot_fs\<lparr>root_directory_size := 0\<rparr>, prc = boot_timer, frequency = 0,
      desc = desc_start,
      irq_routines = replicate 16 None, syscall_table = replicate 32 None, mmio = [], notify_base_addr = 0,
      notify_off_multiplier = 0, queues = replicate 4 \<lparr>desc_table = 0, avail_ring = 0, used_ring = 0, q_size = 0,
        last_used_idx = 0, next_avail_idx = 0\<rparr>, virtio_sound_cfg = 0, sb16_dma_buffer = 0\<rparr>"

text \<open>The heap of the booted machine, with one page of its own and free frames behind it.\<close>

lemma boot_kernel_heap:
  "heap_inv 0x30000 (mem boot_kernel) [] []" "heap_top (mem boot_kernel) = 0x30000"
  "heap_room (mem boot_kernel) = 0x31000 + 4096 * 4029"
proof -
  note defs = boot_kernel_def shell_state.defs boot_fs_def disk_state.defs boot_disk_def heap_state.defs
  have c: "heap_inv base (mem boot_kernel) bs fl = heap_inv base boot_heap bs fl"
      "heap_room (mem boot_kernel) = heap_room boot_heap" for base bs fl
    by (rule heap_inv_cong; simp add: defs)+
  show "heap_inv 0x30000 (mem boot_kernel) [] []" using boot_heap_inv c(1) by simp
  show "heap_top (mem boot_kernel) = 0x30000" using boot_heap(6) by (simp add: defs)
  show "heap_room (mem boot_kernel) = 0x31000 + 4096 * 4029"
    unfolding c(2) by (simp add: heap_room_def boot_heap(5,7))
qed

text \<open>The witness: a file of 100 bytes in the heap of that machine, and the third slot of its table.\<close>

lemma boot_kernel_file:
  obtains m bs fl b c where "heap_inv 0x30000 m bs fl" "(b, c) \<in> allocated bs fl" "28 \<le> c" "free_frames (m :: fs_state) \<noteq> {}"
proof -
  have u: "(100 :: u32) \<noteq> 0" "unat (heap_top (mem boot_kernel)) + 11 + unat (100 :: u32) \<le> 0x400000"
    by (simp_all add: boot_kernel_heap)
  have "unat (heap_top (mem boot_kernel)) + 11 + unat (100 :: u32) \<le> heap_room (mem boot_kernel)" by (simp add: boot_kernel_heap)
  from malloc_fits [OF boot_kernel_heap(1) u(1) this u(2)] obtain p m bs fl c where
    m: "malloc 100 (mem boot_kernel) = Some (p, m)" "heap_inv 0x30000 m bs fl" "100 \<le> c"
      "allocated bs fl = insert (p - 8, c) (allocated [] [])"
      "\<forall>(b, d) \<in> allocated [] []. unat b + 8 + unat d \<le> unat (p - 8) \<or> unat (p - 8) + 8 + unat c \<le> unat b"
      "heap_room m = heap_room (mem boot_kernel)" "unat (heap_top m) \<le> unat (heap_top (mem boot_kernel)) + 11 + unat (100 :: u32)" .
  have "unat (heap_end m) \<le> 0x400000" using heap_invD(2) [OF m(2)] by (simp add: heap_bounds_def)
  then have "free_frames m \<noteq> {}" using m(6) [unfolded boot_kernel_heap(3)] by (auto simp: heap_room_def)
  moreover have "28 \<le> c" using m(3) by (rule order_trans [rotated]) simp
  ultimately show thesis using that [OF m(2), of "p - 8" c] m(4) by simp
qed

theorem exec_enter_correct_witness:
  "\<exists>k k' b. exec_enter (cstr ''prog'') (b + 8) 0x50000 0xBFFFFFE0 k = Some (2, k') \<and>
     vload32 (mem k) (b + 8 + 24) = Some (c_eip (cpu_state (process_table (prc k') ! 2))) \<and>
     c_esp (cpu_state (process_table (prc k') ! 2)) = 0xBFFFFFE0 \<and> page_directory (process_table (prc k') ! 2) = 0x50000 \<and>
     state (process_table (prc k') ! 2) = TASK_STATE_RUNNING \<and> proc_inv (prc k')"
proof -
  obtain m bs fl b c where m: "heap_inv 0x30000 m bs fl" "(b, c) \<in> allocated bs fl" "28 \<le> c" "free_frames (m :: fs_state) \<noteq> {}"
    by (rule boot_kernel_file)
  define k where "k = boot_kernel\<lparr>mem := m\<rparr>"
  have prc: "prc k = boot_timer" and k: "mem k = m" by (simp_all add: k_def boot_kernel_def shell_state.defs)
  have tbl: "process_table boot_timer = [boot_idle, boot_shell] @ replicate 14 zero_task"
    by (simp add: boot_timer_def boot_proc_def proc_state.defs)
  have inv: "proc_inv (prc k)" using boot_proc_inv
    by (simp add: prc proc_inv_def boot_timer_def proc_state.defs)
  have s: "state (process_table (prc k) ! 2) = TASK_STATE_UNUSED" "length (name (process_table (prc k) ! 2)) = 32"
      "\<forall>j < 2. state (process_table (prc k) ! j) \<noteq> TASK_STATE_UNUSED"
    by (auto simp: prc tbl less_2_cases_iff boot_idle_def boot_shell_def zero_task_def PROCESS_NAME_LEN_def)
  have t: "text_of (cstr ''prog'') = Some (map chr ''prog'')" by (simp add: cstr_def chr_def)
  have two: "(2 :: nat) < 16" by simp
  have len: "length (process_table (prc k)) = 16" using inv by (simp add: proc_inv_def)
  from exec_enter_correct [OF m(1) [folded k] m(2,3) m(4) [folded k] inv two s(1,3,2) t, of "0x50000" "0xBFFFFFE0"]
  obtain k' entry x where "exec_enter (cstr ''prog'') (b + 8) 0x50000 0xBFFFFFE0 k = Some (int 2, k')"
    "vload32 (mem k) (b + 8 + 24) = Some entry" "process_table (prc k') = (process_table (prc k))[2 := x]"
    "state x = TASK_STATE_RUNNING" "c_eip (cpu_state x) = entry" "c_esp (cpu_state x) = 0xBFFFFFE0"
    "page_directory x = 0x50000" "proc_inv (prc k')" by auto
  then show ?thesis using len by (intro exI [of _ k] exI [of _ k'] exI [of _ b]) simp
qed

end
