(* ===== verification/Syscalls.thy ===== *)
theory Syscalls
  imports Commands
begin

text \<open>
  System calls: \<^verbatim>\<open>kernel/syscall.c\<close>. The handler works on the interrupt frame of the program,
  whose registers carry the number, the argument and the result.
\<close>

section \<open>The calls\<close>

definition MAX_SYSCALLS :: nat where "MAX_SYSCALLS = 32"

definition sys_test_print :: "registers_t \<Rightarrow> kernel \<Rightarrow> kernel option" where
  "sys_test_print r k =
     do {
       message \<leftarrow> vstring (r_ebx r) (mem k);
       k \<leftarrow> print_string message k;
       Some (print_char 10 k)
     }"

text \<open>The character is signed.\<close>

definition sys_getchar :: "platform \<Rightarrow> registers_t \<Rightarrow> kernel \<Rightarrow> (registers_t \<times> kernel) option" where
  "sys_getchar pf r k =
     do {
       (c, k) \<leftarrow> kernel_getchar pf k;
       Some (r\<lparr>r_eax := scast c\<rparr>, k)
     }"

definition sys_exit :: "platform \<Rightarrow> kernel \<Rightarrow> kernel option" where
  "sys_exit pf k =
     do {
       let k = cli k;
       let k = debug_lit (''SYSCALL: Entering sys_exit (syscall 3).'' @ nl) k;
       task_to_exit \<leftarrow> current_task (prc k);
       p \<leftarrow> mark_exit (prc k);
       let k = k\<lparr>prc := p\<rparr>;
       let k = debug_field ''SYSCALL: PID '' (word_of_int (pid (process_table p ! task_to_exit))) k;
       k \<leftarrow> debug_free_frames '' is now a zombie. Switching tasks. Free frames: '' k;
       yield_cpu pf (sti k)
     }"

definition sys_play_sound :: "platform \<Rightarrow> registers_t \<Rightarrow> kernel \<Rightarrow> kernel" where
  "sys_play_sound pf r k = on_speaker (play_sound (p_dev pf) (r_ebx r)) k"

definition sys_sleep :: "platform \<Rightarrow> registers_t \<Rightarrow> kernel \<Rightarrow> kernel option" where
  "sys_sleep pf r k = kernel_sleep pf (r_ebx r) k"

section \<open>Dispatch\<close>

definition syscall_install :: "kernel \<Rightarrow> kernel option" where
  "syscall_install k =
     do {
       t \<leftarrow> arr_set (syscall_table k) 1 (Some Sys_test_print);
       t \<leftarrow> arr_set t 2 (Some Sys_getchar);
       t \<leftarrow> arr_set t 3 (Some Sys_exit);
       t \<leftarrow> arr_set t 4 (Some Sys_play_sound);
       t \<leftarrow> arr_set t 5 (Some Sys_sleep);
       Some (k\<lparr>syscall_table := t\<rparr>)
     }"

fun call_syscall :: "platform \<Rightarrow> syscall_id \<Rightarrow> registers_t \<Rightarrow> kernel \<Rightarrow> (registers_t \<times> kernel) option" where
  "call_syscall pf Sys_test_print r k = map_option (Pair r) (sys_test_print r k)"
| "call_syscall pf Sys_getchar r k = sys_getchar pf r k"
| "call_syscall pf Sys_exit r k = map_option (Pair r) (sys_exit pf k)"
| "call_syscall pf Sys_play_sound r k = Some (r, sys_play_sound pf r k)"
| "call_syscall pf Sys_sleep r k = map_option (Pair r) (sys_sleep pf r k)"

definition invalid_syscall :: "u32 \<Rightarrow> kernel \<Rightarrow> kernel" where
  "invalid_syscall syscall_num k =
     print_char 10 (print_hex syscall_num (print_lit ''Invalid syscall number: '' k))"

definition syscall_handler :: "platform \<Rightarrow> registers_t \<Rightarrow> kernel \<Rightarrow> (registers_t \<times> kernel) option" where
  "syscall_handler pf r k =
     (let syscall_num = r_eax r
      in if syscall_num > 0 \<and> syscall_num < of_nat MAX_SYSCALLS then do {
           handler \<leftarrow> arr_get (syscall_table k) (uint syscall_num);
           case handler of
             Some h \<Rightarrow> call_syscall pf h r k
           | None \<Rightarrow> Some (r, invalid_syscall syscall_num k)
         }
         else Some (r, invalid_syscall syscall_num k))"

section \<open>Correctness of the dispatch\<close>

lemma vstring_run:
  assumes "bytes_at (vload8 s) a (t @ [0])" and "0 \<notin> set t"
  shows "vstring a s = Some (t @ [0])"
  using assms
  by (induction t arbitrary: a) (subst vstring.simps; auto simp: bytes_at_Cons)+

lemma syscall_install_table:
  assumes "syscall_table k = replicate 32 None"
  shows "syscall_install k = Some (k\<lparr>syscall_table :=
     [None, Some Sys_test_print, Some Sys_getchar, Some Sys_exit, Some Sys_play_sound, Some Sys_sleep] @ replicate 26 None\<rparr>)"
  using assms by (simp add: syscall_install_def arr_set_def numeral_eq_Suc)

text \<open>The table as \<^verbatim>\<open>syscall_install\<close> leaves it.\<close>

definition installed_table :: "syscall_id option list \<Rightarrow> bool" where
  "installed_table t \<longleftrightarrow>
     (\<exists>k k'. syscall_table k = replicate 32 None \<and> syscall_install k = Some k' \<and> t = syscall_table k')"

lemma installed_table_eq:
  "installed_table t \<Longrightarrow>
   t = [None, Some Sys_test_print, Some Sys_getchar, Some Sys_exit, Some Sys_play_sound, Some Sys_sleep] @ replicate 26 None"
  using syscall_install_table by (auto simp: installed_table_def)

lemma installed_table_nth:
  assumes "installed_table t" and "n < 32"
  shows "arr_get t (uint (n :: u32)) =
    Some (if n = 1 then Some Sys_test_print else if n = 2 then Some Sys_getchar else if n = 3 then Some Sys_exit
          else if n = 4 then Some Sys_play_sound else if n = 5 then Some Sys_sleep else None)"
proof -
  define m where "m = unat n"
  have n: "n = of_nat m" and m: "m < 32" using assms(2) by (simp_all add: m_def word_less_nat_alt)
  have get: "arr_get t (uint n) = Some (t ! m)"
    using installed_table_eq [OF assms(1)] m by (simp add: arr_get_def m_def)
  have "m \<in> {0, 1, 2, 3, 4, 5} \<or> 6 \<le> m" by auto
  then show ?thesis
  proof
    assume "m \<in> {0, 1, 2, 3, 4, 5}"
    then show ?thesis unfolding get unfolding installed_table_eq [OF assms(1)] n by auto
  next
    assume m6: "6 \<le> m"
    then have "n \<noteq> 1" "n \<noteq> 2" "n \<noteq> 3" "n \<noteq> 4" "n \<noteq> 5" by (auto simp: m_def)
    moreover have "t ! m = None" using m m6 unfolding installed_table_eq [OF assms(1)] by (simp add: nth_append)
    ultimately show ?thesis by (simp add: get)
  qed
qed

text \<open>The characters of the message for an invalid number.\<close>

definition invalid_message :: "u32 \<Rightarrow> bytes" where
  "invalid_message n = map chr ''Invalid syscall number: 0x'' @ hex_chars n @ [10]"

lemma invalid_syscall_chars: "invalid_syscall n k = print_chars (invalid_message n) k"
  by (simp add: invalid_syscall_def invalid_message_def print_lit_chars print_hex_chars)

text \<open>C14. The dispatch of system calls (\<^verbatim>\<open>syscall_handler\<close>, syscall.c) with the table that
  \<^verbatim>\<open>syscall_install\<close> builds: the numbers 1 to 5 reach exactly the calls they are documented
  for, and every other value of EAX, 0 and the unused and the too large numbers included, is
  an error: the registers of the program, the memory, the process table and the drivers are
  as before, and the screen shows the message with the number.\<close>

theorem syscall_handler_dispatch:
  assumes "installed_table (syscall_table k)"
  shows "syscall_handler pf r k =
     (if r_eax r = 1 then map_option (Pair r) (sys_test_print r k)
      else if r_eax r = 2 then sys_getchar pf r k
      else if r_eax r = 3 then map_option (Pair r) (sys_exit pf k)
      else if r_eax r = 4 then Some (r, sys_play_sound pf r k)
      else if r_eax r = 5 then map_option (Pair r) (sys_sleep pf r k)
      else Some (r, invalid_syscall (r_eax r) k)) \<and>
     (let k' = invalid_syscall (r_eax r) k
      in system_frame k' = system_frame k \<and> mem k' = mem k \<and>
         (vga_inv k \<longrightarrow> vga_view k' = foldl (\<lambda>t c. term_put c t) (vga_view k) (invalid_message (r_eax r))))"
proof
  have max: "of_nat MAX_SYSCALLS = (32 :: u32)" by (simp add: MAX_SYSCALLS_def)
  show "syscall_handler pf r k =
     (if r_eax r = 1 then map_option (Pair r) (sys_test_print r k)
      else if r_eax r = 2 then sys_getchar pf r k
      else if r_eax r = 3 then map_option (Pair r) (sys_exit pf k)
      else if r_eax r = 4 then Some (r, sys_play_sound pf r k)
      else if r_eax r = 5 then map_option (Pair r) (sys_sleep pf r k)
      else Some (r, invalid_syscall (r_eax r) k))"
  proof (cases "0 < r_eax r \<and> r_eax r < 32")
    case True
    then show ?thesis
      using installed_table_nth [OF assms, of "r_eax r"] by (simp add: syscall_handler_def max Let_def)
  next
    case False
    then have "r_eax r \<notin> {1, 2, 3, 4, 5}" by auto
    then show ?thesis using False by (auto simp: syscall_handler_def max Let_def)
  qed
  show "let k' = invalid_syscall (r_eax r) k
      in system_frame k' = system_frame k \<and> mem k' = mem k \<and>
         (vga_inv k \<longrightarrow> vga_view k' = foldl (\<lambda>t c. term_put c t) (vga_view k) (invalid_message (r_eax r)))"
    by (simp add: invalid_syscall_chars print_chars_view Let_def del: print_chars_simps)
qed

theorem syscall_handler_dispatch_witness:
  "\<exists>k. installed_table (syscall_table k) \<and>
     syscall_handler demo_platform (sample_registers\<lparr>r_eax := 77\<rparr>) k =
       Some (sample_registers\<lparr>r_eax := 77\<rparr>, invalid_syscall 77 k) \<and> prc (invalid_syscall 77 k) = boot_timer"
proof -
  have "syscall_table boot_kernel = replicate 32 None" by (simp add: boot_kernel_def shell_state.defs)
  from syscall_install_table [OF this] obtain k where k: "syscall_install boot_kernel = Some k" "prc k = prc boot_kernel" by simp
  have "installed_table (syscall_table k)"
    unfolding installed_table_def using k(1) \<open>syscall_table boot_kernel = replicate 32 None\<close> by blast
  from syscall_handler_dispatch [OF this, of demo_platform "sample_registers\<lparr>r_eax := 77\<rparr>"]
  have "syscall_handler demo_platform (sample_registers\<lparr>r_eax := 77\<rparr>) k =
      Some (sample_registers\<lparr>r_eax := 77\<rparr>, invalid_syscall 77 k)" "system_frame (invalid_syscall 77 k) = system_frame k"
    by (simp_all add: Let_def)
  moreover have "prc boot_kernel = boot_timer" by (simp add: boot_kernel_def shell_state.defs)
  ultimately show ?thesis
    using \<open>installed_table (syscall_table k)\<close> k(2) prc_frame [of "invalid_syscall 77 k" k] by (intro exI [of _ k]) simp
qed

text \<open>C15. The print call: for a program that passes in EBX the address of a NUL-terminated text that its
  page tables map, \<^verbatim>\<open>sys_test_print\<close> (syscall.c) returns and has written exactly this text and
  a newline at the cursor of the screen; memory, process table and drivers are as before.\<close>

theorem sys_test_print_correct:
  assumes "bytes_at (vload8 (mem k)) (r_ebx r) (t @ [0])" and "0 \<notin> set t" and "vga_inv k"
  shows "\<exists>k'. sys_test_print r k = Some k' \<and> system_frame k' = system_frame k \<and> mem k' = mem k \<and>
     vga_inv k' \<and> vga_view k' = foldl (\<lambda>t c. term_put c t) (vga_view k) (t @ [10])"
proof -
  have "sys_test_print r k = Some (print_chars (t @ [10]) k)"
    using vstring_run [OF assms(1,2)] assms(2) by (simp add: sys_test_print_def print_string_text)
  then show ?thesis using assms(3) by (simp add: print_chars_inv print_chars_view del: print_chars_simps)
qed

text \<open>The witness prints the name field of a directory entry in memory, which ends in a NUL byte.\<close>

theorem sys_test_print_correct_witness:
  "\<exists>k k'. sys_test_print (sample_registers\<lparr>r_ebx := 0x24000\<rparr>) k = Some k' \<and> snd (vga_view k) = 248 \<and>
     vga_view k' = foldl (\<lambda>t c. term_put c t) (vga_view k) (map chr ''HELLO   TXT '' @ [10])"
proof -
  let ?t = "map chr ''HELLO   TXT ''"
  from demo_volume obtain s :: fs_state where s: "bytes_at (vload8 s) 0x24000 demo_entry" by blast
  define k where "k = boot_kernel\<lparr>mem := s\<rparr>"
  have "take 13 demo_entry = ?t @ [0]" by (simp add: demo_entry_def chr_def)
  then have b: "bytes_at (vload8 (mem k)) (r_ebx (sample_registers\<lparr>r_ebx := 0x24000\<rparr>)) (?t @ [0])"
    using bytes_at_take [OF s, of 13] by (simp add: k_def)
  have v: "vga_inv k" "snd (vga_view k) = 248"
    by (simp_all add: k_def boot_kernel_def sample_shell_def shell_state.defs vga_inv_def vga_view_def)
  have "0 \<notin> set ?t" by (simp add: chr_def)
  from sys_test_print_correct [OF b this v(1)] v(2) show ?thesis by blast
qed

end
