(* ===== verification/Boot.thy ===== *)
theory Boot
  imports Syscalls
begin

text \<open>
  The start of the kernel: \<^verbatim>\<open>kernel/kernel.c\<close> and \<^verbatim>\<open>start_multitasking\<close> of
  \<^verbatim>\<open>kernel/cpu/switch.asm\<close>. Addresses that the linker decides are members of a record; the
  interrupts that arrive during the three delays are arguments.
\<close>

section \<open>Tasks of the kernel\<close>

record link_map =
  lm_kernel_end :: u32
  lm_idt :: u32
  lm_isr :: "nat \<Rightarrow> u32"
  lm_irq :: "nat \<Rightarrow> u32"
  lm_isr128 :: u32
  lm_gdt :: u32
  lm_tss :: u32
  lm_idle_task :: u32
  lm_shell_task :: u32

text \<open>The idle task up to its endless halt, and the shell task with \<^verbatim>\<open>n\<close> rounds of its endless loop.\<close>

definition idle_task :: "kernel \<Rightarrow> kernel" where
  "idle_task k = debug_lit (''idle_task: entered.'' @ nl) k"

definition shell_task :: "platform \<Rightarrow> nat \<Rightarrow> kernel \<Rightarrow> kernel option" where
  "shell_task pf n k =
     do {
       let k = debug_lit (''shell_task: entered.'' @ nl) k;
       k \<leftarrow> shell_init k;
       let k = debug_lit ''shell_init '' k;
       shell_run pf n k
     }"

text \<open>
  The first task: its address space and kernel stack are set, an interrupt frame is pushed
  on its stack and popped by \<^verbatim>\<open>iret\<close>. The stack pointer and segment are popped only when the
  privilege level changes. The result is the state of the processor as the task starts.
\<close>

definition push32 :: "u32 \<Rightarrow> u32 \<times> 'a machine_state_scheme \<Rightarrow> (u32 \<times> 'a machine_state_scheme) option" where
  "push32 v p = (case p of (esp, m) \<Rightarrow> map_option (Pair (esp - 4)) (vstore32 (esp - 4) v m))"

definition push_frame :: "cpu_state_t \<Rightarrow> 'a machine_state_scheme \<Rightarrow> (u32 \<times> 'a machine_state_scheme) option" where
  "push_frame c m =
     do {
       p \<leftarrow> push32 (c_ss c) (c_esp c, m);
       p \<leftarrow> push32 (c_esp c) p;
       p \<leftarrow> push32 (c_eflags c) p;
       p \<leftarrow> push32 (c_cs c) p;
       push32 (c_eip c) p
     }"

definition start_multitasking :: "nat \<Rightarrow> kernel \<Rightarrow> (cpu_state_t \<times> kernel) option" where
  "start_multitasking i k =
     do {
       let t = process_table (prc k) ! i;
       let c = cpu_state t;
       let k = k\<lparr>prc := (prc k)\<lparr>tss_esp0 := kernel_stack t + 4096\<rparr>\<rparr>;
       let k = cli (k\<lparr>mem := load_page_directory (c_cr3 c) (mem k)\<rparr>);
       (esp, k) \<leftarrow> on_mem (push_frame c) k;
       let esp = (if c_cs c AND 3 = 0 then esp + 12 else c_esp c);
       Some (c\<lparr>c_esp := esp\<rparr>, k\<lparr>intr_flag := bit (c_eflags c) 9\<rparr>)
     }"

section \<open>\<^verbatim>\<open>kmain\<close>\<close>

definition kernel_delay :: "u32 \<Rightarrow> bool list \<Rightarrow> registers_t \<Rightarrow> kernel \<Rightarrow> kernel option" where
  "kernel_delay ms irqs r k = map_option (\<lambda>(p, k). k\<lparr>prc := p\<rparr>) (delay_ms ms irqs r (prc k) k)"

text \<open>The self test of the frame allocator.\<close>

definition pmm_self_test :: "kernel \<Rightarrow> kernel option" where
  "pmm_self_test k =
     do {
       (frame1, k) \<leftarrow> on_mem pmm_alloc_frame k;
       let k = debug_lit nl (debug_field ''PMM Test: Alloc frame 1 at '' frame1 k);
       (frame2, k) \<leftarrow> on_mem pmm_alloc_frame k;
       let k = debug_lit nl (debug_field ''PMM Test: Alloc frame 2 at '' frame2 k);
       k \<leftarrow> do_mem (pmm_free_frame frame1) k;
       let k = debug_lit (''PMM Test: Freed frame 1'' @ nl) k;
       (frame3, k) \<leftarrow> on_mem pmm_alloc_frame k;
       Some (debug_lit ('' (should be same as frame 1)'' @ nl) (debug_field ''PMM Test: Alloc frame 3 at '' frame3 k))
     }"

text \<open>
  The initialisation up to the process table, and the rest. \<^verbatim>\<open>install_processes\<close> is the whole of
  \<^verbatim>\<open>process_init\<close> with its two allocations. The task state segment is one
  object in memory: its kernel stack pointer is also a member of the scheduler's state.
\<close>

definition install_tss :: "link_map \<Rightarrow> kernel \<Rightarrow> kernel option" where
  "install_tss lm k =
     do {
       (d, k) \<leftarrow> on_mem (tss_install (lm_tss lm) (desc k)) k;
       Some (k\<lparr>desc := d, prc := (prc k)\<lparr>tss_esp0 := t_esp0 (tss_entry d)\<rparr>\<rparr>)
     }"

definition install_processes :: "link_map \<Rightarrow> kernel \<Rightarrow> kernel option" where
  "install_processes lm k =
     do {
       (stack_a, k) \<leftarrow> on_mem (malloc 4096) k;
       (stack_b, k) \<leftarrow> on_mem (malloc 4096) k;
       p \<leftarrow> process_init stack_a stack_b (lm_idle_task lm) (lm_shell_task lm) (kernel_directory (mem k)) (prc k);
       Some (k\<lparr>prc := p\<rparr>)
     }"

definition kmain_memory :: "platform \<Rightarrow> link_map \<Rightarrow> kernel \<Rightarrow> kernel option" where
  "kmain_memory pf lm k =
     do {
       let k = debug_lit (''KERNEL:'' @ nl @ ''kmain_start '') k;
       let k = k\<lparr>desc := idt_install (lm_idt lm) (lm_isr lm) (lm_irq lm) (lm_isr128 lm) (desc k)\<rparr>;
       let k = debug_lit ''idt_inst '' k;
       k \<leftarrow> do_mem (pmm_init (lm_kernel_end lm) 16777216) k;
       let k = debug_lit ''pmm_init '' k;
       k \<leftarrow> debug_free_frames ''PMM Initialized. Free frames: '' k;
       k \<leftarrow> pmm_self_test k;
       k \<leftarrow> do_mem paging_init k;
       let k = debug_lit ''paging_init '' k;
       d \<leftarrow> gdt_install (lm_gdt lm) (desc k);
       let k = debug_lit ''gdt_inst '' (k\<lparr>desc := d\<rparr>);
       k \<leftarrow> install_tss lm k;
       let k = debug_lit ''tss_inst '' k;
       k \<leftarrow> do_mem (init_memory (lm_kernel_end lm)) k;
       let k = debug_lit ''mem_init '' k;
       k \<leftarrow> do_mem (init_fs (p_dev pf) (p_dma pf)) k;
       let k = debug_lit ''fs_init '' k;
       k \<leftarrow> install_processes lm k;
       Some (debug_lit ''proc_init '' k)
     }"

definition kmain :: "platform \<Rightarrow> link_map \<Rightarrow> bool list \<times> bool list \<times> bool list \<Rightarrow> registers_t \<Rightarrow> kernel \<Rightarrow> (cpu_state_t \<times> kernel) option" where
  "kmain pf lm irqs r k =
     (case irqs of (irqs1, irqs2, irqs3) \<Rightarrow> do {
       k \<leftarrow> kmain_memory pf lm k;
       k \<leftarrow> syscall_install k;
       let k = debug_lit ''sysc_inst '' k;
       let k = pic_remap (p_dev pf) 0x20 0x28 k;
       let k = debug_lit ''pic_remap '' k;
       k \<leftarrow> keyboard_install k;
       let k = debug_lit ''keyb_inst '' k;
       k \<leftarrow> kernel_timer_install k;
       let k = debug_lit ''pit_inst '' k;
       k \<leftarrow> kernel_delay 800 irqs1 r k;
       let k = debug_lit ''clear_bios_scr '' (clear_screen k);
       k \<leftarrow> pci_scan pf k;
       k \<leftarrow> kernel_delay 800 irqs2 r k;
       let k = debug_lit ''pci_bus_scan '' (clear_screen k);
       let k = print_bootscreen k;
       k \<leftarrow> kernel_delay 1200 irqs3 r k;
       let k = clear_screen (debug_lit ''print_boot_scr '' k);
       let k = debug_lit ''interrupt_enable '' (sti k);
       let k = debug_lit ''multitasking_enabled '' (k\<lparr>prc := (prc k)\<lparr>multitasking_enabled := True\<rparr>\<rparr>);
       start_multitasking 0 (debug_lit (''kmain: Calling start_multitasking...'' @ nl) k)
     })"

section \<open>Properties\<close>

text \<open>The data areas of two allocated blocks of a well-formed heap.\<close>

lemma allocated_data:
  assumes "heap_inv base s bs fl" and "(p - 8, c) \<in> allocated bs fl"
  shows "unat p = unat (p - 8) + 8" "unat p + unat c \<le> 0x400000"
proof -
  note i = heap_invD [OF assms(1)]
  have b: "(p - 8, c) \<in> set bs" using assms(2) by (simp add: allocated_def)
  note w = block_words [OF i(2,4) b]
  show p: "unat p = unat (p - 8) + 8" using w(6) by simp
  show "unat p + unat c \<le> 0x400000" using w(5) i(2) unfolding p by (simp add: heap_bounds_def)
qed

text \<open>C22. \<^verbatim>\<open>process_init\<close> (process.c) with its two calls of \<^verbatim>\<open>malloc\<close>: in a well-formed heap with room for
  two stacks, in the pages it has and the frames that are free, it returns. Two new blocks of at
  least 4096 bytes are allocated, apart from each other and from every block allocated before,
  and the heap stays well formed. The scheduler's invariant holds, the idle task is current, and
  exactly the idle task and the shell are in use, under their names; the context saved for each
  is kernel mode with interrupts enabled, on the kernel's page directory, at its entry point,
  with the stack pointer at the end of the 4096 bytes of its own block.\<close>

theorem install_processes_spec:
  assumes "heap_inv base (mem k) bs fl" and "unat (heap_top (mem k)) + 8214 \<le> heap_room (mem k)"
    and "unat (heap_top (mem k)) + 8214 \<le> 0x400000"
  shows "\<exists>k' stack_a stack_b bs' fl' c d. install_processes lm k = Some k' \<and> heap_inv base (mem k') bs' fl' \<and>
     allocated bs' fl' = allocated bs fl \<union> {(stack_a - 8, c), (stack_b - 8, d)} \<and> 4096 \<le> c \<and> 4096 \<le> d \<and>
     (unat stack_a + 4096 \<le> unat stack_b \<or> unat stack_b + 4096 \<le> unat stack_a) \<and>
     (\<forall>(b, e) \<in> allocated bs fl. \<forall>p \<in> {stack_a, stack_b}. unat b + 8 + unat e \<le> unat p \<or> unat p + 4096 \<le> unat b) \<and>
     proc_inv (prc k') \<and> current_task (prc k') = Some 0 \<and>
     (\<forall>i < 16. state (process_table (prc k') ! i) = (if i < 2 then TASK_STATE_RUNNING else TASK_STATE_UNUSED)) \<and>
     text_of (name (process_table (prc k') ! 0)) = text_of (cstr ''idle'') \<and>
     text_of (name (process_table (prc k') ! 1)) = text_of (cstr ''shell'') \<and>
     (\<forall>i < 2. let t = process_table (prc k') ! i; s = cpu_state t in
        c_cs s = 0x08 \<and> c_ss s = 0x10 \<and> c_eflags s = 0x202 \<and>
        c_cr3 s = kernel_directory (mem k') \<and> page_directory t = kernel_directory (mem k') \<and>
        c_eip s = [lm_idle_task lm, lm_shell_task lm] ! i \<and>
        unat (c_esp s) = unat ([stack_a, stack_b] ! i) + 4096)"
proof -
  let ?m = "(mem k)\<lparr>ports := \<lparr>io_trace = io_trace k, intr_flag = intr_flag k\<rparr>\<rparr>"
  let ?sz = "4096 :: u32"
  have m: "heap_inv base ?m bs fl" "?sz \<noteq> 0" "unat (heap_top ?m) + 11 + unat ?sz \<le> heap_room ?m"
      "unat (heap_top ?m) + 11 + unat ?sz \<le> 0x400000"
    using assms by simp_all
  from malloc_fits [OF m] obtain stack_a m1 bs1 fl1 c where
    a: "malloc 4096 ?m = Some (stack_a, m1)" "heap_inv base m1 bs1 fl1" "4096 \<le> c"
      "allocated bs1 fl1 = insert (stack_a - 8, c) (allocated bs fl)"
      "\<forall>(b, d) \<in> allocated bs fl. unat b + 8 + unat d \<le> unat (stack_a - 8) \<or> unat (stack_a - 8) + 8 + unat c \<le> unat b"
      "heap_room m1 = heap_room ?m" "unat (heap_top m1) \<le> unat (heap_top ?m) + 11 + unat ?sz" .
  have m1: "?sz \<noteq> 0" "unat (heap_top m1) + 11 + unat ?sz \<le> heap_room m1" "unat (heap_top m1) + 11 + unat ?sz \<le> 0x400000"
    using a(6,7) assms(2,3) by simp_all
  from malloc_fits [OF a(2) m1] obtain stack_b m2 bs2 fl2 d where
    b: "malloc 4096 m1 = Some (stack_b, m2)" "heap_inv base m2 bs2 fl2" "4096 \<le> d"
      "allocated bs2 fl2 = insert (stack_b - 8, d) (allocated bs1 fl1)"
      "\<forall>(b, e) \<in> allocated bs1 fl1. unat b + 8 + unat e \<le> unat (stack_b - 8) \<or> unat (stack_b - 8) + 8 + unat d \<le> unat b"
      "heap_room m2 = heap_room m1" "unat (heap_top m2) \<le> unat (heap_top m1) + 11 + unat ?sz" .
  from on_mem_run [of "malloc 4096" k, OF a(1)] obtain k1 where
    k1: "on_mem (malloc 4096) k = Some (stack_a, k1)" "mem k1 = m1" "prc k1 = prc k"
      "(mem k1)\<lparr>ports := \<lparr>io_trace = io_trace k1, intr_flag = intr_flag k1\<rparr>\<rparr> = m1" .
  from on_mem_run [of "malloc 4096" k1] b(1) k1(4) obtain k2 where
    k2: "on_mem (malloc 4096) k1 = Some (stack_b, k2)" "mem k2 = m2" by metis
  from process_init_run [of stack_a stack_b "lm_idle_task lm" "lm_shell_task lm" "kernel_directory (mem k2)" "prc k2"]
  obtain p where p: "process_init stack_a stack_b (lm_idle_task lm) (lm_shell_task lm) (kernel_directory (mem k2)) (prc k2) = Some p"
      "proc_inv p" "current_task p = Some 0"
      "\<forall>i < 16. state (process_table p ! i) = (if i < 2 then TASK_STATE_RUNNING else TASK_STATE_UNUSED)"
      "\<forall>i < 2. let c = cpu_state (process_table p ! i) in
        c_cs c = 0x08 \<and> c_ss c = 0x10 \<and> c_eflags c = 0x202 \<and> c_cr3 c = kernel_directory (mem k2) \<and>
        page_directory (process_table p ! i) = kernel_directory (mem k2) \<and>
        c_eip c = [lm_idle_task lm, lm_shell_task lm] ! i \<and> c_esp c = [stack_a, stack_b] ! i + 4096"
      "text_of (name (process_table p ! 0)) = text_of (cstr ''idle'')"
      "text_of (name (process_table p ! 1)) = text_of (cstr ''shell'')" by blast
  have run: "install_processes lm k = Some (k2\<lparr>prc := p\<rparr>)"
    using k1(1) k2(1) p(1) by (simp add: install_processes_def)
  have cd: "4096 \<le> unat c" "4096 \<le> unat d" using a(3) b(3) by (simp_all add: word_le_nat_alt)
  have "(stack_a - 8, c) \<in> allocated bs1 fl1" "(stack_a - 8, c) \<in> allocated bs2 fl2" "(stack_b - 8, d) \<in> allocated bs2 fl2"
    using a(4) b(4) by auto
  then have al: "unat stack_a = unat (stack_a - 8) + 8" "unat stack_a + unat c \<le> 0x400000"
      "unat stack_b = unat (stack_b - 8) + 8" "unat stack_b + unat d \<le> 0x400000"
      "unat (stack_a - 8) + 8 + unat c \<le> unat (stack_b - 8) \<or> unat (stack_b - 8) + 8 + unat d \<le> unat (stack_a - 8)"
    using allocated_data [OF b(2)] b(5) by blast+
  have esp: "unat (stack_a + 4096) = unat stack_a + 4096" "unat (stack_b + 4096) = unat stack_b + 4096"
    using al cd by (simp_all add: unat_plus_u32_small)
  have "\<forall>(b, e) \<in> allocated bs fl. \<forall>p \<in> {stack_a, stack_b}. unat b + 8 + unat e \<le> unat p \<or> unat p + 4096 \<le> unat b"
    using a(4,5) b(5) al(1,3) cd by fastforce
  moreover have "unat stack_a + 4096 \<le> unat stack_b \<or> unat stack_b + 4096 \<le> unat stack_a" using al cd by linarith
  moreover have "allocated bs2 fl2 = allocated bs fl \<union> {(stack_a - 8, c), (stack_b - 8, d)}" using a(4) b(4) by auto
  ultimately show ?thesis
    unfolding run using b(2) k2(2) a(3) b(3) p(2-7) esp
    by (intro exI [of _ "k2\<lparr>prc := p\<rparr>"] exI [of _ stack_a] exI [of _ stack_b] exI [of _ bs2] exI [of _ fl2]
        exI [of _ c] exI [of _ d]) (simp add: Let_def less_2_cases_iff all_conj_distrib)
qed

theorem install_processes_spec_witness:
  "\<exists>lm k' stack_a stack_b bs' fl' c d. lm_shell_task lm = 0x10200 \<and> install_processes lm boot_kernel = Some k' \<and>
     heap_inv 0x30000 (mem k') bs' fl' \<and> allocated bs' fl' = {(stack_a - 8, c), (stack_b - 8, d)} \<and>
     proc_inv (prc k') \<and> c_eip (cpu_state (process_table (prc k') ! 1)) = 0x10200 \<and>
     unat (c_esp (cpu_state (process_table (prc k') ! 1))) = unat stack_b + 4096"
proof -
  let ?lm = "\<lparr>lm_kernel_end = 0x20000, lm_idt = 0x8000, lm_isr = (\<lambda>i. 0x9000), lm_irq = (\<lambda>i. 0xA000), lm_isr128 = 0xB000,
    lm_gdt = 0xC000, lm_tss = 0xD000, lm_idle_task = 0x10100, lm_shell_task = 0x10200\<rparr>"
  have "unat (heap_top (mem boot_kernel)) + 8214 \<le> heap_room (mem boot_kernel)"
      "unat (heap_top (mem boot_kernel)) + 8214 \<le> 0x400000"
    by (simp_all add: boot_kernel_heap)
  from install_processes_spec [OF boot_kernel_heap(1) this, of ?lm] obtain k' stack_a stack_b bs' fl' c d where
    "install_processes ?lm boot_kernel = Some k'" "heap_inv 0x30000 (mem k') bs' fl'"
    "allocated bs' fl' = allocated [] [] \<union> {(stack_a - 8, c), (stack_b - 8, d)}" "proc_inv (prc k')"
    "\<forall>i < 2. let t = process_table (prc k') ! i; s = cpu_state t in
        c_cs s = 0x08 \<and> c_ss s = 0x10 \<and> c_eflags s = 0x202 \<and>
        c_cr3 s = kernel_directory (mem k') \<and> page_directory t = kernel_directory (mem k') \<and>
        c_eip s = [lm_idle_task ?lm, lm_shell_task ?lm] ! i \<and>
        unat (c_esp s) = unat ([stack_a, stack_b] ! i) + 4096" by blast
  moreover from this(5) have "c_eip (cpu_state (process_table (prc k') ! 1)) = 0x10200"
      "unat (c_esp (cpu_state (process_table (prc k') ! 1))) = unat stack_b + 4096"
    by (simp_all add: Let_def less_2_cases_iff all_conj_distrib)
  moreover have "allocated [] [] = {}" by (simp add: allocated_def)
  ultimately show ?thesis
    by (intro exI [of _ ?lm] exI [of _ k'] exI [of _ stack_a] exI [of _ stack_b] exI [of _ bs'] exI [of _ fl'] exI [of _ c]
        exI [of _ d]) simp
qed

end
