(* ===== verification/Queues.thy ===== *)
theory Queues
  imports Commands
begin

text \<open>
  The protocol of a virtqueue: what the device finds in memory when the driver
  (\<^verbatim>\<open>kernel/drivers/virtio.c\<close>) notifies it.
\<close>

section \<open>Writing structures\<close>

definition half_bytes :: "u16 \<Rightarrow> bytes" where
  "half_bytes v = [ucast v, ucast (drop_bit 8 v)]"

lemma length_half_bytes [simp]: "length (half_bytes v) = 2"
  by (simp add: half_bytes_def)

lemma vload16_half_bytes: "bytes_at (vload8 s) a (half_bytes v) \<Longrightarrow> vload16 s a = Some v"
proof -
  assume "bytes_at (vload8 s) a (half_bytes v)"
  then have "vload16 s a = Some (ucast (ucast v :: u8) OR push_bit 8 (ucast (ucast (drop_bit 8 v) :: u8)))"
    unfolding half_bytes_def by (rule vload16_bytes_at)
  also have "ucast (ucast v :: u8) OR push_bit 8 (ucast (ucast (drop_bit 8 v) :: u8)) = v"
  proof (rule bit_word_eqI)
    fix n assume "n < LENGTH(16)"
    then show "bit (ucast (ucast v :: u8) OR push_bit 8 (ucast (ucast (drop_bit 8 v) :: u8)) :: u16) n = bit v n"
      by (cases "n < 8") (auto simp: bit_or_iff bit_push_bit_iff bit_unsigned_iff bit_drop_bit_eq)
  qed
  finally show ?thesis .
qed

text \<open>A state after some bytes of a mapped region were written: the translation of addresses is the same.\<close>

definition written :: "u32 set \<Rightarrow> 'a machine_state_scheme \<Rightarrow> u32 \<Rightarrow> bytes \<Rightarrow> 'a machine_state_scheme \<Rightarrow> bool" where
  "written R s a bs s' \<longleftrightarrow>
     mapped_region R s' \<and> machine_frame s' = machine_frame s \<and> translate s' = translate s \<and> bytes_at (vload8 s') a bs \<and>
     (\<forall>b \<in> R. b \<notin> addr_range a (length bs) \<longrightarrow> vload8 s' b = vload8 s b)"

lemma writtenD:
  assumes "written R s a bs s'"
  shows "mapped_region R s'" "machine_frame s' = machine_frame s" "translate s' = translate s" "bytes_at (vload8 s') a bs"
    "\<forall>b \<in> R. b \<notin> addr_range a (length bs) \<longrightarrow> vload8 s' b = vload8 s b"
  using assms by (simp_all add: written_def)

lemma ranges_apart:
  assumes "i + m \<le> j" and "j + n \<le> 4294967296"
  shows "addr_range (a + of_nat i) m \<inter> addr_range (a + of_nat j) n = {}"
proof -
  have "x \<noteq> y" if "x < m" "y < n" "a + of_nat i + of_nat x = a + of_nat j + of_nat y" for x y
    using offset_eq_iff [of "i + x" "j + y" a] that assms by (simp add: add.assoc)
  moreover have False if "x < m" "y < n" "a + of_nat i + of_nat x = a + of_nat j + of_nat y" for x y
    using offset_eq_iff [of "i + x" "j + y" a] that assms by (simp add: add.assoc)
  ultimately show ?thesis by (auto elim!: addr_rangeE)
qed

lemma written_append:
  assumes "written R s a bs s1" and "written R s1 (a + of_nat (length bs)) cs s2"
    and "addr_range a (length bs + length cs) \<subseteq> R" and "length bs + length cs \<le> 4294967296"
  shows "written R s a (bs @ cs) s2"
proof -
  note w1 = writtenD [OF assms(1)] and w2 = writtenD [OF assms(2)]
  have apart: "addr_range a (length bs) \<inter> addr_range (a + of_nat (length bs)) (length cs) = {}"
    using ranges_apart [of 0 "length bs" "length bs" "length cs" a] assms(4) by simp
  have "bytes_at (vload8 s2) a bs"
    by (rule bytes_at_keep [OF w1(4) w2(5) _ apart]) (use assms(3) in \<open>auto simp: addr_range_add\<close>)
  with w1 w2 show ?thesis by (auto simp: written_def bytes_at_append addr_range_add)
qed

lemma vstore32_written:
  assumes "mapped_region R s" and "addr_range a 4 \<subseteq> R" and "4 dvd unat a"
  shows "\<exists>s'. vstore32 a v s = Some s' \<and> written R s a (word_bytes v) s'"
proof -
  have wf: "paging_wf s" and "a \<in> R" using assms(1,2) addr_rangeI [of 0 4 a] by (auto simp: mapped_region_def)
  with assms(1) obtain pa where pa: "translate s a = Some pa" "frame_of pa \<notin> table_frames s" by (auto simp: mapped_region_def)
  note w = translate_word [OF wf pa(1) assms(3)]
  have "translate (s\<lparr>phys := store32 (phys s) pa v\<rparr>) = translate s" by (rule ext) (rule outside_tables(3) [OF wf pa(2) w(4)])
  with vstore32_word [OF assms, of v] w(3) [of v] show ?thesis by (auto simp: written_def)
qed

lemma vstore16_written:
  assumes "mapped_region R s" and "addr_range a 2 \<subseteq> R"
  shows "\<exists>s'. vstore16 a v s = Some s' \<and> written R s a (half_bytes v) s'"
proof -
  have a: "a \<in> R" "a + 1 \<in> R"
    using assms(2) by (auto simp: addr_range_Suc numeral_2_eq_2)
  obtain s1 where 1: "vstore8 a (ucast v) s = Some s1" "mapped_region R s1" "translate s1 = translate s"
    by (rule mapped_region_store [OF assms(1) a(1), of "ucast v"]) auto
  obtain s2 where 2: "vstore8 (a + 1) (ucast (drop_bit 8 v)) s1 = Some s2" "translate s2 = translate s1"
    by (rule mapped_region_store [OF 1(2) a(2), of "ucast (drop_bit 8 v)"]) auto
  have "vstore16 a v s = Some s2" using 1(1) 2(1) by (simp add: vstore16_def)
  with vstore16_run [OF assms(1) a(1,2), of v] 1(3) 2(2) show ?thesis by (auto simp: written_def half_bytes_def addr_range_Suc)
qed

section \<open>Descriptors and rings\<close>

definition desc_bytes :: "u32 \<Rightarrow> u32 \<Rightarrow> u16 \<Rightarrow> u16 \<Rightarrow> bytes" where
  "desc_bytes addr len flags nxt = word_bytes addr @ word_bytes 0 @ word_bytes len @ half_bytes flags @ half_bytes nxt"

lemma length_desc_bytes [simp]: "length (desc_bytes addr len flags nxt) = 16"
  by (simp add: desc_bytes_def)

lemma dvd_offset: "4 dvd unat (a :: u32) \<Longrightarrow> 4 dvd n \<Longrightarrow> 4 dvd unat (a + of_nat n)"
proof -
  assume "4 dvd unat a" "4 dvd n"
  moreover have "unat (a + of_nat n) = (unat a + n) mod 4294967296"
    by (simp add: unat_plus_u32 unat_of_nat mod_add_right_eq)
  moreover have "(4 :: nat) dvd 4294967296" by simp
  ultimately show ?thesis by (metis dvd_add dvd_mod)
qed

lemma write_desc_run:
  assumes "mapped_region R s" and "addr_range (table + 16 * ucast idx) 16 \<subseteq> R" and "4 dvd unat (table + 16 * ucast idx)"
  shows "\<exists>s'. write_desc table idx addr len flags nxt s = Some s' \<and>
     written R s (table + 16 * ucast idx) (desc_bytes addr len flags nxt) s'"
proof -
  define d where "d = table + 16 * ucast idx"
  have d: "addr_range d 16 \<subseteq> R" "4 dvd unat d" using assms(2,3) by (simp_all add: d_def)
  have sub: "addr_range (d + of_nat i) n \<subseteq> R" if "i + n \<le> 16" for i n
    using addr_range_offset [OF that, of d] d(1) by blast
  have dvd: "4 dvd unat (d + 4)" "4 dvd unat (d + 8)" using dvd_offset [OF d(2), of 4] dvd_offset [OF d(2), of 8] by simp_all
  from vstore32_written [OF assms(1) _ d(2), of addr] sub [of 0 4] obtain s1 where
    1: "vstore32 d addr s = Some s1" "written R s d (word_bytes addr) s1" by auto
  from vstore32_written [OF writtenD(1) [OF 1(2)] _ dvd(1), of 0] sub [of 4 4] obtain s2 where
    2: "vstore32 (d + 4) 0 s1 = Some s2" "written R s1 (d + 4) (word_bytes 0) s2" by auto
  from vstore32_written [OF writtenD(1) [OF 2(2)] _ dvd(2), of len] sub [of 8 4] obtain s3 where
    3: "vstore32 (d + 8) len s2 = Some s3" "written R s2 (d + 8) (word_bytes len) s3" by auto
  from vstore16_written [OF writtenD(1) [OF 3(2)], of "d + 12" flags] sub [of 12 2] obtain s4 where
    4: "vstore16 (d + 12) flags s3 = Some s4" "written R s3 (d + 12) (half_bytes flags) s4" by auto
  from vstore16_written [OF writtenD(1) [OF 4(2)], of "d + 14" nxt] sub [of 14 2] obtain s5 where
    5: "vstore16 (d + 14) nxt s4 = Some s5" "written R s4 (d + 14) (half_bytes nxt) s5" by auto
  have "written R s d (word_bytes addr @ word_bytes 0) s2"
    by (rule written_append [OF 1(2)]) (use 2(2) sub [of 0 8] in simp_all)
  then have "written R s d ((word_bytes addr @ word_bytes 0) @ word_bytes len) s3"
    by (rule written_append) (use 3(2) sub [of 0 12] in simp_all)
  then have "written R s d (((word_bytes addr @ word_bytes 0) @ word_bytes len) @ half_bytes flags) s4"
    by (rule written_append) (use 4(2) sub [of 0 14] in simp_all)
  then have "written R s d ((((word_bytes addr @ word_bytes 0) @ word_bytes len) @ half_bytes flags) @ half_bytes nxt) s5"
    by (rule written_append) (use 5(2) sub [of 0 16] in simp_all)
  then have "written R s d (desc_bytes addr len flags nxt) s5" by (simp add: desc_bytes_def)
  with 1(1) 2(1) 3(1) 4(1) 5(1) show ?thesis by (auto simp: write_desc_def Let_def d_def [symmetric])
qed

text \<open>The available ring: the entry at the old index is written, then the index is advanced.\<close>

definition ring_entry :: "u32 \<Rightarrow> u16 \<Rightarrow> u16 \<Rightarrow> u32" where
  "ring_entry avail idx sz = avail + of_nat (4 + 2 * (unat idx mod unat sz))"

lemma ring_entry_word: "avail + 4 + 2 * ucast (idx mod sz) = ring_entry avail idx sz"
proof -
  have "(of_nat (unat idx mod unat sz) :: u32) = of_nat (unat (idx mod sz))" by (simp only: unat_mod_distrib)
  also have "\<dots> = ucast (idx mod sz)" by (rule of_nat_unat)
  finally have "(of_nat (unat idx mod unat sz) :: u32) = ucast (idx mod sz)" .
  then show ?thesis by (simp add: ring_entry_def algebra_simps)
qed

lemma make_available_run:
  assumes "mapped_region R s" and "addr_range avail (4 + 2 * unat sz) \<subseteq> R" and "sz \<noteq> 0"
    and "bytes_at (vload8 s) (avail + 2) (half_bytes idx)"
  shows "\<exists>s'. make_available avail sz head s = Some s' \<and> mapped_region R s' \<and> machine_frame s' = machine_frame s \<and>
     translate s' = translate s \<and> bytes_at (vload8 s') (ring_entry avail idx sz) (half_bytes head) \<and>
     bytes_at (vload8 s') (avail + 2) (half_bytes (idx + 1)) \<and>
     (\<forall>b \<in> R. b \<notin> addr_range (ring_entry avail idx sz) 2 \<longrightarrow> b \<notin> addr_range (avail + 2) 2 \<longrightarrow> vload8 s' b = vload8 s b)"
proof -
  define p where "p = 4 + 2 * (unat idx mod unat sz)"
  have "0 < unat sz" using assms(3) by (simp add: unat_gt_0)
  then have "unat idx mod unat sz < unat sz" by simp
  then have p: "p + 2 \<le> 4 + 2 * unat sz" "4 \<le> p" unfolding p_def by linarith+
  have e: "ring_entry avail idx sz = avail + of_nat p" by (simp add: ring_entry_def p_def)
  have bound: "p + 2 \<le> 4294967296" using p(1) unat_u16_bound [of sz] by linarith
  have sub: "addr_range (avail + of_nat i) n \<subseteq> R" if "i + n \<le> 4 + 2 * unat sz" for i n
    using addr_range_offset [OF that, of avail] assms(2) by blast
  have apart: "addr_range (avail + 2) 2 \<inter> addr_range (avail + of_nat p) 2 = {}"
    using ranges_apart [of 2 2 p 2 avail] p(2) bound by simp
  from vstore16_written [OF assms(1) sub [of p 2], of head] p obtain s1 where
    1: "vstore16 (avail + of_nat p) head s = Some s1" "written R s (avail + of_nat p) (half_bytes head) s1" by auto
  note w1 = writtenD [OF 1(2)]
  have r2: "addr_range (avail + 2) 2 \<subseteq> R" using sub [of 2 2] by simp
  have "bytes_at (vload8 s1) (avail + 2) (half_bytes idx)"
    by (rule bytes_at_keep [OF assms(4) w1(5)]) (use r2 apart in simp_all)
  then have idx: "vload16 s1 (avail + 2) = Some idx" by (rule vload16_half_bytes)
  from vstore16_written [OF w1(1) r2, of "idx + 1"] obtain s2 where
    2: "vstore16 (avail + 2) (idx + 1) s1 = Some s2" "written R s1 (avail + 2) (half_bytes (idx + 1)) s2" by auto
  note w2 = writtenD [OF 2(2)]
  have "bytes_at (vload8 s2) (avail + of_nat p) (half_bytes head)"
    by (rule bytes_at_keep [OF w1(4) w2(5)]) (use sub [of p 2] p apart in auto)
  moreover have "make_available avail sz head s = Some s2"
    using vload16_half_bytes [OF assms(4)] 1(1) idx 2(1) assms(3)
    by (simp add: make_available_def ring_entry_word e del: of_nat_add)
  ultimately show ?thesis using w1 w2 unfolding e by (intro exI [of _ s2]) simp
qed

section \<open>Offering a buffer\<close>

lemma next_idx_nat:
  assumes "sz \<noteq> 0"
  shows "unat (next_idx i sz) = (unat i + 1) mod unat sz" "unat (next_idx i sz) < unat sz"
proof -
  have "unat (ucast i + 1 :: u32) = unat i + 1"
    using unat_u16_bound [of i] by (simp add: unat_plus_u32_small del: unat_u16_bound)
  then have m: "unat ((ucast i + 1 :: u32) mod ucast sz) = (unat i + 1) mod unat sz" by (simp add: unat_mod_distrib)
  have "0 < unat sz" using assms by (simp add: unat_gt_0)
  then have less: "(unat i + 1) mod unat sz < unat sz" by simp
  then have "(unat i + 1) mod unat sz < 65536" using unat_u16_bound [of sz] by linarith
  with m show "unat (next_idx i sz) = (unat i + 1) mod unat sz"
    by (simp add: next_idx_def unsigned_ucast_eq take_bit_nat_eq_self)
  with less show "unat (next_idx i sz) < unat sz" by simp
qed

text \<open>The memory of the kernel with the ports it is given, and writes lifted to the kernel.\<close>

definition port_mem :: "kernel \<Rightarrow> fs_state" where
  "port_mem k = (mem k)\<lparr>ports := \<lparr>io_trace = io_trace k, intr_flag = intr_flag k\<rparr>\<rparr>"

lemma port_mem_view:
  "mapped_region R (port_mem k) = mapped_region R (mem k)" "vload8 (port_mem k) = vload8 (mem k)"
  "translate (port_mem k) = translate (mem k)"
proof -
  have f: "phys (port_mem k) = phys (mem k)" "cr3 (port_mem k) = cr3 (mem k)" "cr0_pg (port_mem k) = cr0_pg (mem k)"
    by (simp_all add: port_mem_def)
  show "mapped_region R (port_mem k) = mapped_region R (mem k)" "vload8 (port_mem k) = vload8 (mem k)"
    by (rule mapped_region_cong [OF f])+
  show "translate (port_mem k) = translate (mem k)" using paging_cong(2) [OF f] by (rule ext)
qed

lemma do_mem_write:
  assumes "f (port_mem k) = Some m" and "machine_frame m = machine_frame (port_mem k)"
  shows "do_mem f k = Some (k\<lparr>mem := m\<rparr>)" "port_mem (k\<lparr>mem := m\<rparr>) = m"
proof -
  from machine_frameD [OF assms(2)] obtain x where x: "m = (port_mem k)\<lparr>phys := x\<rparr>" ..
  show "do_mem f k = Some (k\<lparr>mem := m\<rparr>)"
    using assms(1) by (simp add: do_mem_def on_mem_def port_mem_def [symmetric]) (simp add: x port_mem_def)
  show "port_mem (k\<lparr>mem := m\<rparr>) = m" by (simp add: x port_mem_def)
qed

text \<open>
  A queue in memory: its size is not zero, the next descriptor is inside the table, table and
  available ring are mapped and apart, and the ring holds the index.
\<close>

definition queue_ready :: "u32 set \<Rightarrow> virtqueue_info_t \<Rightarrow> u16 \<Rightarrow> 'a machine_state_scheme \<Rightarrow> bool" where
  "queue_ready R q idx m \<longleftrightarrow>
     mapped_region R m \<and> q_size q \<noteq> 0 \<and> next_avail_idx q < q_size q \<and> 4 dvd unat (desc_table q) \<and>
     addr_range (desc_table q) (16 * unat (q_size q)) \<subseteq> R \<and> addr_range (avail_ring q) (4 + 2 * unat (q_size q)) \<subseteq> R \<and>
     addr_range (desc_table q) (16 * unat (q_size q)) \<inter> addr_range (avail_ring q) (4 + 2 * unat (q_size q)) = {} \<and>
     bytes_at (vload8 m) (avail_ring q + 2) (half_bytes idx)"

lemma desc_address:
  assumes "queue_ready R q idx m"
  defines "d \<equiv> desc_table q + 16 * ucast (next_avail_idx q)"
  shows "addr_range d 16 \<subseteq> addr_range (desc_table q) (16 * unat (q_size q))" "4 dvd unat d"
proof -
  let ?h = "unat (next_avail_idx q)"
  have h: "?h < unat (q_size q)" "4 dvd unat (desc_table q)" using assms(1) by (simp_all add: queue_ready_def word_less_nat_alt)
  have "of_nat ?h = (ucast (next_avail_idx q) :: u32)" by (rule of_nat_unat)
  then have d: "d = desc_table q + of_nat (16 * ?h)" by (simp add: d_def)
  show "addr_range d 16 \<subseteq> addr_range (desc_table q) (16 * unat (q_size q))"
    unfolding d using h(1) by (intro addr_range_offset) linarith
  show "4 dvd unat d" unfolding d using h(2) by (rule dvd_offset) simp
qed

lemma ring_address:
  assumes "queue_ready R q idx m"
  shows "addr_range (ring_entry (avail_ring q) idx (q_size q)) 2 \<subseteq> addr_range (avail_ring q) (4 + 2 * unat (q_size q))"
    "addr_range (avail_ring q + 2) 2 \<subseteq> addr_range (avail_ring q) (4 + 2 * unat (q_size q))"
proof -
  have "0 < unat (q_size q)" using assms by (simp add: queue_ready_def unat_gt_0)
  then have "unat idx mod unat (q_size q) < unat (q_size q)" by simp
  then show "addr_range (ring_entry (avail_ring q) idx (q_size q)) 2 \<subseteq> addr_range (avail_ring q) (4 + 2 * unat (q_size q))"
    unfolding ring_entry_def by (intro addr_range_offset) linarith
  show "addr_range (avail_ring q + 2) 2 \<subseteq> addr_range (avail_ring q) (4 + 2 * unat (q_size q))"
    using addr_range_offset [of 2 2 _ "avail_ring q"] by simp
qed

text \<open>The two writes to memory: the descriptor, then the ring.\<close>

lemma publish_memory:
  assumes "queue_ready R q idx (mem k)"
  defines "d \<equiv> desc_table q + 16 * ucast (next_avail_idx q)" and "e \<equiv> ring_entry (avail_ring q) idx (q_size q)"
  shows "\<exists>m m'. do_mem (write_desc (desc_table q) (next_avail_idx q) data len 0 0) k = Some (k\<lparr>mem := m\<rparr>) \<and>
     do_mem (make_available (avail_ring q) (q_size q) (next_avail_idx q)) (k\<lparr>mem := m\<rparr>) = Some (k\<lparr>mem := m'\<rparr>) \<and>
     mapped_region R m' \<and> translate m' = translate (mem k) \<and> bytes_at (vload8 m') d (desc_bytes data len 0 0) \<and>
     bytes_at (vload8 m') e (half_bytes (next_avail_idx q)) \<and> bytes_at (vload8 m') (avail_ring q + 2) (half_bytes (idx + 1)) \<and>
     (\<forall>b \<in> R. b \<notin> addr_range d 16 \<longrightarrow> b \<notin> addr_range e 2 \<longrightarrow> b \<notin> addr_range (avail_ring q + 2) 2 \<longrightarrow> vload8 m' b = vload8 (mem k) b)"
proof -
  note ready = assms(1) [unfolded queue_ready_def] and d = desc_address [OF assms(1), folded d_def] and r = ring_address [OF assms(1), folded e_def]
  have m0: "mapped_region R (port_mem k)" "bytes_at (vload8 (port_mem k)) (avail_ring q + 2) (half_bytes idx)"
    using ready by (simp_all add: port_mem_view)
  have dR: "addr_range d 16 \<subseteq> R" using d(1) ready by blast
  have apart: "addr_range (avail_ring q + 2) 2 \<inter> addr_range d 16 = {}" "addr_range e 2 \<inter> addr_range d 16 = {}"
    using d(1) r ready by blast+
  from write_desc_run [OF m0(1) dR [unfolded d_def] d(2) [unfolded d_def], of data len 0 0, folded d_def] obtain m where
    1: "write_desc (desc_table q) (next_avail_idx q) data len 0 0 (port_mem k) = Some m"
       "written R (port_mem k) d (desc_bytes data len 0 0) m" by blast
  note w = writtenD [OF 1(2)]
  note k1 = do_mem_write [of "write_desc (desc_table q) (next_avail_idx q) data len 0 0", OF 1(1) w(2)]
  have "bytes_at (vload8 m) (avail_ring q + 2) (half_bytes idx)"
    by (rule bytes_at_keep [OF m0(2) w(5)]) (use r(2) ready apart(1) in auto)
  from make_available_run [OF w(1) _ _ this, of "q_size q" "next_avail_idx q", folded e_def] ready obtain m' where
    2: "make_available (avail_ring q) (q_size q) (next_avail_idx q) m = Some m'" "mapped_region R m'"
       "machine_frame m' = machine_frame m" "translate m' = translate m" "bytes_at (vload8 m') e (half_bytes (next_avail_idx q))"
       "bytes_at (vload8 m') (avail_ring q + 2) (half_bytes (idx + 1))"
       "\<forall>b \<in> R. b \<notin> addr_range e 2 \<longrightarrow> b \<notin> addr_range (avail_ring q + 2) 2 \<longrightarrow> vload8 m' b = vload8 m b" by blast
  have "make_available (avail_ring q) (q_size q) (next_avail_idx q) (port_mem (k\<lparr>mem := m\<rparr>)) = Some m'" using 2(1) k1(2) by simp
  note k2 = do_mem_write [of "make_available (avail_ring q) (q_size q) (next_avail_idx q)", OF this, unfolded k1(2), OF 2(3)]
  have "\<forall>b \<in> R. b \<notin> addr_range e 2 \<union> addr_range (avail_ring q + 2) 2 \<longrightarrow> vload8 m' b = vload8 m b" using 2(7) by blast
  from bytes_at_keep [OF w(4) this] dR apart have "bytes_at (vload8 m') d (desc_bytes data len 0 0)" by auto
  with k1(1) k2(1) 2 w show ?thesis
    by (intro exI [of _ m] exI [of _ m'] conjI) (simp_all add: port_mem_view)
qed

lemma notify_queue_run:
  assumes "translate (mem k) (virtio_sound_cfg k + cfg_queue_notify_off) = Some pn"
    and "off = take_bit 16 (mm_read (p_mmio pf) (mmio k) 2 pn)"
    and "translate (mem k) (notify_base_addr k + off * notify_off_multiplier k) = Some pa"
  shows "notify_queue pf i k = Some (k\<lparr>mmio := mmio k @ [MRead 2 pn off, MWrite 2 pa (ucast i) (phys (mem k))]\<rparr>)"
  using assms by (simp add: notify_queue_def cfg_read_def mmio_read_def mmio_write_def Let_def)

text \<open>C26. Offering a buffer to the device (\<^verbatim>\<open>virtq_send_buffer\<close>, virtio.c) keeps the protocol of the queue.
  With the queue in mapped memory, the call returns; then the next descriptor holds address
  and length of the buffer, the ring entry at the old index names that descriptor, the index
  is one higher (modulo 2^16), every other byte of the mapped memory, also of the table and
  of the ring, is as before, the driver's position is the next one of the table and inside
  it again, and only now the device is notified: the accesses to its registers are the read
  of the notification offset and, last, the write of the queue number to the notification
  address, at a moment when the memory holds all this already.\<close>

theorem virtq_send_buffer_publishes:
  assumes "i < length (queues k)" and "queue_ready R q idx (mem k)" and "q = queues k ! i"
    and "translate (mem k) (virtio_sound_cfg k + 30) = Some pn"
    and "off = take_bit 16 (mm_read (p_mmio pf) (mmio k) 2 pn)"
    and "translate (mem k) (notify_base_addr k + off * notify_off_multiplier k) = Some pa"
  shows "\<exists>k'. virtq_send_buffer pf i data len k = Some k' \<and>
     bytes_at (vload8 (mem k')) (desc_table q + 16 * ucast (next_avail_idx q)) (desc_bytes data len 0 0) \<and>
     bytes_at (vload8 (mem k')) (ring_entry (avail_ring q) idx (q_size q)) (half_bytes (next_avail_idx q)) \<and>
     queue_ready R (queues k' ! i) (idx + 1) (mem k') \<and>
     queues k' = (queues k)[i := q\<lparr>next_avail_idx := of_nat ((unat (next_avail_idx q) + 1) mod unat (q_size q))\<rparr>] \<and>
     mmio k' = mmio k @ [MRead 2 pn off, MWrite 2 pa (ucast (of_nat i :: u16)) (phys (mem k'))] \<and>
     (\<forall>b \<in> R. b \<notin> addr_range (desc_table q + 16 * ucast (next_avail_idx q)) 16 \<union>
        addr_range (ring_entry (avail_ring q) idx (q_size q)) 2 \<union> addr_range (avail_ring q + 2) 2 \<longrightarrow>
        vload8 (mem k') b = vload8 (mem k) b)"
proof -
  let ?q = "q\<lparr>next_avail_idx := next_idx (next_avail_idx q) (q_size q)\<rparr>"
  note ready = assms(2) [unfolded queue_ready_def]
  from publish_memory [OF assms(2), of data len] obtain m m' where
    run: "do_mem (write_desc (desc_table q) (next_avail_idx q) data len 0 0) k = Some (k\<lparr>mem := m\<rparr>)"
      "do_mem (make_available (avail_ring q) (q_size q) (next_avail_idx q)) (k\<lparr>mem := m\<rparr>) = Some (k\<lparr>mem := m'\<rparr>)"
    and m': "mapped_region R m'" "translate m' = translate (mem k)"
      "bytes_at (vload8 m') (desc_table q + 16 * ucast (next_avail_idx q)) (desc_bytes data len 0 0)"
      "bytes_at (vload8 m') (ring_entry (avail_ring q) idx (q_size q)) (half_bytes (next_avail_idx q))"
      "bytes_at (vload8 m') (avail_ring q + 2) (half_bytes (idx + 1))"
    and rest: "\<forall>b \<in> R. b \<notin> addr_range (desc_table q + 16 * ucast (next_avail_idx q)) 16 \<longrightarrow>
      b \<notin> addr_range (ring_entry (avail_ring q) idx (q_size q)) 2 \<longrightarrow> b \<notin> addr_range (avail_ring q + 2) 2 \<longrightarrow>
      vload8 m' b = vload8 (mem k) b" by blast
  let ?k = "k\<lparr>mem := m', queues := (queues k)[i := ?q]\<rparr>"
  let ?k' = "?k\<lparr>mmio := mmio k @ [MRead 2 pn off, MWrite 2 pa (ucast (of_nat i :: u16)) (phys m')]\<rparr>"
  have "notify_queue pf (of_nat i) ?k = Some ?k'"
    using notify_queue_run [of ?k pn off pf pa "of_nat i"] assms(4-6) m'(2) by (simp add: cfg_queue_notify_off_def)
  then have "virtq_send_buffer pf i data len k = Some ?k'"
    using assms(1,3) run by (simp add: virtq_send_buffer_def get_queue_def arr_get_def set_queue_def Let_def)
  moreover have "queue_ready R ?q (idx + 1) m'"
    using ready m'(1,5) next_idx_nat(2) [of "q_size q" "next_avail_idx q"] by (simp add: queue_ready_def word_less_nat_alt)
  moreover have "next_idx (next_avail_idx q) (q_size q) = of_nat ((unat (next_avail_idx q) + 1) mod unat (q_size q))"
    using next_idx_nat(1) [of "q_size q" "next_avail_idx q"] ready by (metis of_nat_unat ucast_id)
  ultimately show ?thesis using m' rest assms(1) by (intro exI [of _ ?k']) simp
qed

text \<open>The witness: a queue of 64 descriptors in low memory, with the driver at the last one.\<close>

theorem virtq_send_buffer_publishes_witness:
  "\<exists>k k' pn pa. virtq_send_buffer demo_platform 2 0x34000 2048 k = Some k' \<and> next_avail_idx (queues k' ! 2) = 0 \<and>
     bytes_at (vload8 (mem k')) 0x303F0 (desc_bytes 0x34000 2048 0 0) \<and>
     bytes_at (vload8 (mem k')) 0x31012 (half_bytes 63) \<and> bytes_at (vload8 (mem k')) 0x31002 (half_bytes 8) \<and>
     mmio k' = [MRead 2 pn 0, MWrite 2 pa 2 (phys (mem k'))]"
proof -
  let ?q = "\<lparr>desc_table = 0x30000, avail_ring = 0x31000, used_ring = 0x32000, q_size = 64, last_used_idx = 0, next_avail_idx = 63\<rparr>"
  have "addr_range 0x31002 2 \<subseteq> low_memory" by (simp add: low_range)
  from vstore16_written [OF boot_fs_region this, of 7] obtain m :: fs_state where
    m: "mapped_region low_memory m" "bytes_at (vload8 m) 0x31002 (half_bytes 7)" by (auto simp: written_def)
  from m(1) obtain pn pa where t: "translate m 0x3301E = Some pn" "translate m 0x34000 = Some pa"
    by (force simp: mapped_region_def)
  define k where "k = boot_kernel\<lparr>mem := m, queues := [?q, ?q, ?q], virtio_sound_cfg := 0x33000, notify_base_addr := 0x34000\<rparr>"
  have k: "queues k ! 2 = ?q" "2 < length (queues k)" "mem k = m" "virtio_sound_cfg k = 0x33000" "notify_base_addr k = 0x34000"
      "mmio k = []"
    by (simp_all add: k_def boot_kernel_def shell_state.defs)
  have ready: "queue_ready low_memory ?q 7 (mem k)"
    using m addr_range_disjoint [of "0x30000" 1024 "0x31000" 132] by (simp add: queue_ready_def k low_range)
  have e: "ring_entry 0x31000 7 64 = 0x31012" by (simp add: ring_entry_def)
  have off: "0 = take_bit 16 (mm_read (p_mmio demo_platform) (mmio k) 2 pn)" by (simp add: demo_platform_def)
  have tr: "translate (mem k) (virtio_sound_cfg k + 30) = Some pn"
      "translate (mem k) (notify_base_addr k + 0 * notify_off_multiplier k) = Some pa"
    using t by (simp_all add: k)
  from virtq_send_buffer_publishes [OF k(2) ready k(1) [symmetric] tr(1) off tr(2), of "0x34000" 2048] obtain k' where
    k': "virtq_send_buffer demo_platform 2 0x34000 2048 k = Some k'" "bytes_at (vload8 (mem k')) 0x303F0 (desc_bytes 0x34000 2048 0 0)"
      "bytes_at (vload8 (mem k')) 0x31012 (half_bytes 63)" "queues k' = (queues k)[2 := ?q\<lparr>next_avail_idx := 0\<rparr>]"
      "mmio k' = [MRead 2 pn 0, MWrite 2 pa 2 (phys (mem k'))]" "queue_ready low_memory (queues k' ! 2) 8 (mem k')"
    by (auto simp: k e)
  have "queues k' ! 2 = ?q\<lparr>next_avail_idx := 0\<rparr>" using k'(4) k(2) by simp
  then have "bytes_at (vload8 (mem k')) 0x31002 (half_bytes 8)" "next_avail_idx (queues k' ! 2) = 0"
    using k'(6) by (simp_all add: queue_ready_def)
  with k' show ?thesis by blast
qed

end
