(* ===== verification/Unused.thy ===== *)
theory Unused
  imports Commands
begin

text \<open>
  Operations of the source that nothing in the kernel calls: the two beeps of \<^verbatim>\<open>timer.c\<close>, the dump
  of page table entries of \<^verbatim>\<open>paging.c\<close>, the copy with log output of \<^verbatim>\<open>string.c\<close> and the direct
  switch to user mode of \<^verbatim>\<open>process.c\<close>.
\<close>

section \<open>Beeps\<close>

definition beep :: "platform \<Rightarrow> u32 \<Rightarrow> u32 \<Rightarrow> kernel \<Rightarrow> kernel option" where
  "beep pf freq duration_ms k =
     do {
       let k = on_speaker (play_sound (p_dev pf) freq) k;
       k \<leftarrow> kernel_sleep pf duration_ms k;
       Some (on_speaker (nosound (p_dev pf)) k)
     }"

text \<open>
  The busy waiting does not enable interrupts. Each element of the list is an interrupt that
  arrives while the loop runs, as in \<^verbatim>\<open>delay_ms\<close>; with interrupts disabled the loop never ends.
\<close>

fun spin_loop :: "u32 \<Rightarrow> bool list \<Rightarrow> registers_t \<Rightarrow> kernel \<Rightarrow> kernel option" where
  "spin_loop end_tick irqs r k =
     (if timer_get_ticks (prc k) < end_tick
      then case irqs of
             [] \<Rightarrow> None
           | is_timer # irqs' \<Rightarrow>
               if \<not> intr_flag k then None
               else if is_timer
               then case timer_handler r (prc k) k of
                      None \<Rightarrow> None
                    | Some (r, _, p, k) \<Rightarrow> spin_loop end_tick irqs' r (k\<lparr>prc := p\<rparr>)
               else spin_loop end_tick irqs' r k
      else Some k)"

definition beep_blocking :: "platform \<Rightarrow> u32 \<Rightarrow> u32 \<Rightarrow> bool list \<Rightarrow> registers_t \<Rightarrow> kernel \<Rightarrow> kernel option" where
  "beep_blocking pf freq duration_ms irqs r k =
     do {
       let k = on_speaker (play_sound (p_dev pf) freq) k;
       let start = timer_get_ticks (prc k);
       k \<leftarrow> spin_loop (start + ticks_to_wait duration_ms) irqs r k;
       Some (on_speaker (nosound (p_dev pf)) k)
     }"

section \<open>Logging\<close>

definition debug_flags :: "u32 \<Rightarrow> kernel \<Rightarrow> kernel" where
  "debug_flags entry k =
     (let k = (if entry AND PAGING_FLAG_PRESENT \<noteq> 0 then debug_lit ''P '' k else k);
          k = (if entry AND PAGING_FLAG_RW \<noteq> 0 then debug_lit ''RW '' k else k)
      in if entry AND PAGING_FLAG_USER \<noteq> 0 then debug_lit ''U '' k else k)"

definition paging_dump_entry_for_addr :: "u32 \<Rightarrow> kernel \<Rightarrow> kernel option" where
  "paging_dump_entry_for_addr virt_addr k =
     do {
       let k = cli k;
       let k = debug_lit ('' --'' @ nl) (debug_field ''-- PAGING DUMP for VA: '' virt_addr k);
       let pd_idx = drop_bit 22 virt_addr;
       let pt_idx = drop_bit 12 virt_addr AND 0x3FF;
       pde \<leftarrow> vload32 (mem k) (CURRENT_PAGE_DIR + 4 * pd_idx);
       let k = debug_field ''   PDE value: '' pde (debug_field ''  PDE index: '' pd_idx k);
       let k = debug_lit ('']'' @ nl) (debug_flags pde (debug_lit '' ['' k));
       k \<leftarrow> (if pde AND PAGING_FLAG_PRESENT \<noteq> 0 then do {
               pte \<leftarrow> vload32 (mem k) (CURRENT_PAGE_TABLES + 4096 * pd_idx + 4 * pt_idx);
               let k = debug_field ''   PTE value: '' pte (debug_field ''  PTE index: '' pt_idx k);
               let k = debug_flags pte (debug_lit '' ['' k);
               let k = debug_field ''] -> maps to physical: '' (pte AND NOT 0xFFF) k;
               Some (debug_lit nl k)
             }
             else Some k);
       Some (sti k)
     }"

fun memcpy_debug_loop :: "nat \<Rightarrow> u32 \<Rightarrow> u32 \<Rightarrow> u32 \<Rightarrow> kernel \<Rightarrow> kernel option" where
  "memcpy_debug_loop 0 i d s k = Some k"
| "memcpy_debug_loop (Suc n) i d s k =
     do {
       b \<leftarrow> vload8 (mem k) (s + i);
       k \<leftarrow> do_mem (vstore8 (d + i) b) k;
       let k = (if i > 0 \<and> i mod 16 = 0 then debug_lit ('' bytes'' @ nl) (debug_field ''  -> copied '' i k) else k);
       memcpy_debug_loop n (i + 1) d s k
     }"

definition memcpy_debug :: "u32 \<Rightarrow> u32 \<Rightarrow> u32 \<Rightarrow> kernel \<Rightarrow> (u32 \<times> kernel) option" where
  "memcpy_debug dest src n k =
     do {
       let k = debug_field '' src='' src (debug_field ''memcpy_debug: START dest='' dest k);
       let k = debug_lit nl (debug_field '' n='' n k);
       k \<leftarrow> memcpy_debug_loop (unat n) 0 dest src k;
       Some (dest, debug_lit (''memcpy_debug: END'' @ nl) k)
     }"

section \<open>Switching to user mode\<close>

text \<open>
  \<^verbatim>\<open>switch_to_user_mode\<close> logs the segment registers and flags of the caller, which are an
  argument, and enters ring 3: the result is the state of the processor after \<^verbatim>\<open>iret\<close>, without
  the general registers that the code does not define.
\<close>

record ring3_entry =
  r3_cs :: u32
  r3_eip :: u32
  r3_eflags :: u32
  r3_ss :: u32
  r3_esp :: u32
  r3_data_segments :: u32

definition switch_to_user_mode :: "u32 \<Rightarrow> u32 \<Rightarrow> u32 \<times> u32 \<times> u32 \<times> u32 \<Rightarrow> kernel \<Rightarrow> ring3_entry \<times> kernel" where
  "switch_to_user_mode entry_point stack_ptr regs k =
     (case regs of (current_cs, current_ds, current_ss, current_eflags) \<Rightarrow>
        let k = debug_field ''IRET_DEBUG: C variables are: EIP='' entry_point k;
            k = debug_lit nl (debug_field '', ESP='' stack_ptr k);
            k = debug_field ''IRET_DEBUG: Current kernel segment registers: CS='' current_cs k;
            k = debug_field '', DS='' current_ds k;
            k = debug_field '', SS='' current_ss k;
            k = debug_lit nl (debug_field '', EFLAGS='' current_eflags k);
            k = debug_lit (''IRET_DEBUG: About to switch to user mode (ring 3) with:'' @ nl) k;
            k = debug_field ''IRET_DEBUG: SS=0x23, ESP='' stack_ptr k;
            k = debug_lit nl (debug_field '', EFLAGS=0x202, CS=0x1B, EIP='' entry_point k);
            eflags = (current_eflags AND NOT 0x200) OR 0x200
        in (\<lparr>r3_cs = 0x1B, r3_eip = entry_point, r3_eflags = eflags, r3_ss = 0x23, r3_esp = stack_ptr,
             r3_data_segments = 0x23\<rparr>, sti k))"

end
