(* ===== verification/Spec2Isabelle.thy ===== *)
theory Spec2Isabelle
  imports CString Pmm Io Keyboard Vga Process Timer Scheduling Machine Paging Heap Region Disk Fs Shell Descriptors Debug Exec Loader Kernel Virtio Pci Sound Commands Syscalls Boot Queues Unused
begin

text \<open>
  \<^bold>\<open>A verification of MyOS, a 32-bit x86 kernel with preemptive multitasking.\<close>

  \<^bold>\<open>The program.\<close> The kernel manages physical frames with a bitmap (\<^verbatim>\<open>kernel/mm/pmm.c\<close>), address
  spaces with two-level page tables (\<^verbatim>\<open>kernel/mm/paging.c\<close>) and a heap with a free list
  (\<^verbatim>\<open>kernel/mm/memory.c\<close>). A timer interrupt (\<^verbatim>\<open>kernel/drivers/timer.c\<close>) wakes sleeping tasks and calls
  the round-robin scheduler (\<^verbatim>\<open>kernel/cpu/process.c\<close>, \<^verbatim>\<open>kernel/cpu/switch.asm\<close>). The shell
  (\<^verbatim>\<open>kernel/shell.c\<close>) reads keys that the keyboard handler put into a ring buffer, edits a line and
  runs commands; \<^verbatim>\<open>run\<close> finds a file on a FAT12 volume (\<^verbatim>\<open>kernel/fs/fs.c\<close>, \<^verbatim>\<open>kernel/drivers/disk.c\<close>),
  loads it as an ELF program into a new address space and gives it a stack with its arguments. Programs use
  five system calls (\<^verbatim>\<open>kernel/syscall.c\<close>). Sound goes through the PC speaker or a virtio device on the
  PCI bus.

  \<^bold>\<open>Modelling conventions.\<close> Every static variable is a member of a record; an operation takes the state
  and returns it. Records extend each other along the calls of the code:
  physical memory manager, machine with page tables (\<^verbatim>\<open>Machine\<close>), heap, disk, file system on the memory
  side; ports, screen, shell, whole kernel (\<^verbatim>\<open>Kernel\<close>) on the other. Integers have their C width as
  words; \<^verbatim>\<open>int\<close> indices of the shell and the screen are unbounded integers with explicit checks.
  The result \<^term>\<open>None\<close> is a page fault, an access outside an array, a division by zero, or a loop that
  does not end; error codes of the code are ordinary results. Loops with a bound are recursive
  functions, loops that wait for hardware or follow a list in memory are \<^verbatim>\<open>partial_function\<close>s; no
  fuel is used. Theorems state that the calls return, under the hypotheses named in them.

  \<^bold>\<open>Hardware.\<close> Ports are a trace of accesses; what a read returns is decided by a \<^verbatim>\<open>device\<close>, a
  function of the trace. Controllers are described by the part of their protocol that the driver
  uses: the 8259A in \<^verbatim>\<open>Io\<close>, the interval timer in \<^verbatim>\<open>Timer\<close>, the ATA task file in \<^verbatim>\<open>Disk\<close> (locale
  \<^verbatim>\<open>ata_disk\<close>), the host bridge in \<^verbatim>\<open>Pci\<close>. The CPU translates addresses through the page tables in the
  modelled memory, including the recursive entry; the translation cache is flushed by every write to
  CR3 and is not modelled further.

  \<^bold>\<open>Theories.\<close>

    \<^item> \<^verbatim>\<open>Prelude\<close>: integer types, C strings and arrays, rule collections, words. \<^verbatim>\<open>CString\<close>: \<^verbatim>\<open>lib/string.c\<close>;
      \<^verbatim>\<open>strcmp\<close> is the order of the texts.
    \<^item> \<^verbatim>\<open>Pmm\<close>: the bitmap allocator; the locale \<^verbatim>\<open>frame_allocator\<close> states its contract, and allocation returns
      the lowest free frame, never one twice.
    \<^item> \<^verbatim>\<open>Machine\<close>, \<^verbatim>\<open>Paging\<close>: bytes, words and translation; mapping a page refines an update of the address
      space as a function, a cloned directory shares exactly the kernel's part, \<^verbatim>\<open>paging_init\<close> gives the
      identity map.
    \<^item> \<^verbatim>\<open>Heap\<close>, \<^verbatim>\<open>Region\<close>: \<^verbatim>\<open>malloc\<close> and \<^verbatim>\<open>free\<close> on blocks in memory over the locale \<^verbatim>\<open>word_memory\<close>: blocks never
      overlap and contents of other blocks are kept; copying loops over the locale \<^verbatim>\<open>byte_memory\<close>.
    \<^item> \<^verbatim>\<open>Io\<close>, \<^verbatim>\<open>Keyboard\<close>, \<^verbatim>\<open>Vga\<close>, \<^verbatim>\<open>Debug\<close>: the drivers for ports, keys (locale \<^verbatim>\<open>bounded_queue\<close>), the text screen (it
      refines a terminal with a cursor and scrolling) and the debug console.
    \<^item> \<^verbatim>\<open>Process\<close>, \<^verbatim>\<open>Timer\<close>, \<^verbatim>\<open>Scheduling\<close>: the process table, the context switch and the events that change them as
      steps of a transition system: its invariant, fairness, sleeping, and that a task finds its registers
      again.
    \<^item> \<^verbatim>\<open>Disk\<close>, \<^verbatim>\<open>Fs\<close>: sector reads, the FAT12 encoding, cluster chains and names, from the ports up to the
      bytes of a file in memory.
    \<^item> \<^verbatim>\<open>Descriptors\<close>: segment, interrupt and task state descriptors as the CPU decodes them; the dispatch
      of hardware interrupts.
    \<^item> \<^verbatim>\<open>Shell\<close>: the line editor refines an editor with a text cursor and a history; parsing gives the words
      of the line.
    \<^item> \<^verbatim>\<open>Exec\<close>, \<^verbatim>\<open>Loader\<close>: the parts of \<^verbatim>\<open>exec_program\<close> that build the image and the stack of a program.
    \<^item> \<^verbatim>\<open>Kernel\<close>: the state of the whole kernel, the lifting of the operations to it, exceptions, the
      handlers behind the interrupts. \<^verbatim>\<open>Virtio\<close>, \<^verbatim>\<open>Queues\<close>, \<^verbatim>\<open>Pci\<close>, \<^verbatim>\<open>Sound\<close>: the sound drivers; the search for
      PCI capabilities, and what is in memory when the virtio device is notified.
    \<^item> \<^verbatim>\<open>Commands\<close>: \<^verbatim>\<open>exec_program\<close> as a whole, with all its error paths, and the commands of the shell.
      \<^verbatim>\<open>Syscalls\<close>: the system calls and their dispatch. \<^verbatim>\<open>Boot\<close>: \<^verbatim>\<open>kmain\<close> and the start of the first task.
      \<^verbatim>\<open>Unused\<close>: operations without a caller.

  \<^bold>\<open>Bounds.\<close> Memory theorems assume that frames handed out for page tables lie in the identity-mapped
  first 4 MB, where the code clears them through their physical address; \<^verbatim>\<open>malloc\<close> is correct for sizes
  whose header and rounding stay below 2^32; \<^verbatim>\<open>delay_ms\<close> and \<^verbatim>\<open>sleep\<close> assume that the tick counter does not
  wrap while they wait.

  \<^bold>\<open>Interleaving.\<close> Interrupts are separate steps between the operations (\<^verbatim>\<open>Scheduling\<close>); operations that
  block name the point where the rest of the system runs (the argument \<^verbatim>\<open>p_resume\<close> of \<^verbatim>\<open>Kernel\<close>). Interrupts
  in the middle of an operation with interrupts enabled are not modelled. The stack pointer in the task state
  segment is a member both of the descriptor tables and of the scheduler's state, whose value
  counts once tasks run.

  \<^bold>\<open>Not modelled.\<close> The boot loader, the entry stubs in \<^verbatim>\<open>isr.asm\<close> and \<^verbatim>\<open>kernel_entry.asm\<close> (assembly around the
  C code; they save and restore \<^verbatim>\<open>registers_t\<close>), the sample programs under \<^verbatim>\<open>userspace\<close> (inputs of the kernel, which
  only issue system calls by inline assembly), and the build files. Lines of the debug log inside the frame
  allocator, the paging code, the timer handler and the scheduler are not repeated in their models: they
  write to a port that nothing reads.
\<close>

end
